(* ===== verification/Prelude.thy ===== *)
theory Prelude
  imports Main "HOL-Library.Word"
begin

text \<open>
  Shared vocabulary of the development: the machine integers of the C and C++ sources,
  the byte order of the host the eBPF programs run on (little endian), packets as byte
  lists with native-order loads and stores, and the generic lemmas on them that the
  component theories use.
\<close>

unbundle bit_operations_syntax

type_synonym u8 = "8 word"
type_synonym u16 = "16 word"
type_synonym u32 = "32 word"
type_synonym u64 = "64 word"

type_synonym packet = "u8 list"

text \<open>
  The collections that carry the component proofs: \<open>frame_simps\<close> says which parts of
  the state an operation leaves alone, \<open>len_simps\<close> how long a packet is after a store,
  \<open>ldst_simps\<close> what a load sees after a store.
\<close>

named_theorems frame_simps
named_theorems len_simps
named_theorems ldst_simps


section \<open>Error codes\<close>

text \<open>The negative errno values the sources return.\<close>

abbreviation EINVAL :: int where "EINVAL \<equiv> 22"
abbreviation E2BIG :: int where "E2BIG \<equiv> 7"
abbreviation EFBIG :: int where "EFBIG \<equiv> 27"
abbreviation ENOENT :: int where "ENOENT \<equiv> 2"
abbreviation ENOMEM :: int where "ENOMEM \<equiv> 12"


section \<open>Byte order\<close>

text \<open>
  The host is little endian, so \<open>bpf_htons\<close>/\<open>bpf_ntohs\<close> and
  \<open>bpf_htonl\<close>/\<open>bpf_ntohl\<close> swap the bytes.
\<close>

definition bswap16 :: "u16 \<Rightarrow> u16" where
  "bswap16 x = push_bit 8 x OR drop_bit 8 x"

definition bswap32 :: "u32 \<Rightarrow> u32" where
  "bswap32 x =
     push_bit 24 x OR (push_bit 8 (x AND 0xFF00)) OR (drop_bit 8 x AND 0xFF00) OR drop_bit 24 x"

abbreviation bpf_htons :: "u16 \<Rightarrow> u16" where "bpf_htons \<equiv> bswap16"
abbreviation bpf_ntohs :: "u16 \<Rightarrow> u16" where "bpf_ntohs \<equiv> bswap16"
abbreviation bpf_htonl :: "u32 \<Rightarrow> u32" where "bpf_htonl \<equiv> bswap32"
abbreviation bpf_ntohl :: "u32 \<Rightarrow> u32" where "bpf_ntohl \<equiv> bswap32"

lemma bit_bswap16:
  "bit (bswap16 x) i \<longleftrightarrow> (if i < 8 then bit x (i + 8) else i < 16 \<and> bit x (i - 8))"
  by (auto simp: bswap16_def bit_or_iff bit_push_bit_iff bit_drop_bit_eq add.commute
      dest: bit_imp_le_length)

lemma bswap16_bswap16 [simp]: "bswap16 (bswap16 x) = x"
  by (rule bit_word_eqI) (auto simp: bit_bswap16)

lemma bswap16_inject [simp]: "bswap16 x = bswap16 y \<longleftrightarrow> x = y"
  by (metis bswap16_bswap16)

lemma bit_0xFF00: "bit (0xFF00 :: u32) i \<longleftrightarrow> 8 \<le> i \<and> i < 16"
proof -
  have *: "(0xFF00 :: u32) = push_bit 8 (mask 8)" by (simp add: mask_eq_exp_minus_1)
  show ?thesis unfolding * bit_push_bit_iff bit_mask_iff by auto
qed

lemma bit_bswap32:
  "bit (bswap32 x) i \<longleftrightarrow> i < 32 \<and>
     bit x (if i < 8 then i + 24 else if i < 16 then i + 8 else if i < 24 then i - 8 else i - 24)"
  unfolding bswap32_def bit_or_iff bit_push_bit_iff bit_and_iff bit_drop_bit_eq comp_def bit_0xFF00
  by (auto simp: add.commute dest: bit_imp_le_length)

lemma bswap32_bswap32 [simp]: "bswap32 (bswap32 x) = x"
  by (rule bit_word_eqI) (auto simp: bit_bswap32)

lemma bswap32_inject [simp]: "bswap32 x = bswap32 y \<longleftrightarrow> x = y"
  by (metis bswap32_bswap32)


section \<open>Words as numbers\<close>

lemma unat_ucast_up:
  "LENGTH('a) \<le> LENGTH('b) \<Longrightarrow> unat (ucast (x :: 'a::len word) :: 'b::len word) = unat x"
proof -
  assume "LENGTH('a) \<le> LENGTH('b)"
  then have "unat x < 2 ^ LENGTH('b)"
    using unsigned_less[of x, where ?'a = nat] power_increasing[of "LENGTH('a)" "LENGTH('b)" "2::nat"]
    by linarith
  then show ?thesis by (simp add: unsigned_ucast_eq take_bit_nat_eq_self)
qed

lemma unat_drop_bit: "unat (drop_bit n (x :: 'a::len word)) = unat x div 2 ^ n"
  unfolding unsigned_drop_bit_eq by (simp add: drop_bit_eq_div take_bit_nat_eq_self)

lemma unat_take_bit: "unat (take_bit n (x :: 'a::len word)) = unat x mod 2 ^ n"
  by (metis unsigned_take_bit_eq take_bit_eq_mod)

lemma unat_mult_no_wrap:
  "unat x * unat y < 2 ^ LENGTH('a) \<Longrightarrow> unat (x * y :: 'a::len word) = unat x * unat y"
  by (simp add: unat_word_ariths)

lemma unat_add_no_wrap:
  "unat x + unat y < 2 ^ LENGTH('a) \<Longrightarrow> unat (x + y :: 'a::len word) = unat x + unat y"
  by (simp add: unat_word_ariths)


lemma unat_not: "unat (NOT x :: 'a::len word) = 2 ^ LENGTH('a) - 1 - unat x"
proof -
  have "NOT x = - 1 - x" by (simp add: not_eq_complement)
  then show ?thesis
    by (simp add: unat_sub word_order.extremum unsigned_minus_1_eq_mask mask_eq_exp_minus_1)
qed


section \<open>Packets: loads and stores\<close>

text \<open>
  A packet is the byte list between \<open>data\<close> and \<open>data_end\<close>; a pointer into it is an
  offset. Multi-byte loads are native (little-endian) loads, as the compiled programs
  perform them on header fields. Every load and store of the sources is behind a bounds
  check; outside the packet a load yields 0 and a store does nothing.
\<close>

definition ld8 :: "packet \<Rightarrow> nat \<Rightarrow> u8" where
  "ld8 p i = (if i < length p then p ! i else 0)"

definition ld16 :: "packet \<Rightarrow> nat \<Rightarrow> u16" where
  "ld16 p i = ucast (ld8 p i) OR push_bit 8 (ucast (ld8 p (i + 1)))"

definition ld32 :: "packet \<Rightarrow> nat \<Rightarrow> u32" where
  "ld32 p i = ucast (ld8 p i) OR push_bit 8 (ucast (ld8 p (i + 1)))
     OR push_bit 16 (ucast (ld8 p (i + 2))) OR push_bit 24 (ucast (ld8 p (i + 3)))"

definition st8 :: "packet \<Rightarrow> nat \<Rightarrow> u8 \<Rightarrow> packet" where
  "st8 p i b = p[i := b]"

definition st16 :: "packet \<Rightarrow> nat \<Rightarrow> u16 \<Rightarrow> packet" where
  "st16 p i w = st8 (st8 p i (ucast w)) (i + 1) (ucast (drop_bit 8 w))"

definition st32 :: "packet \<Rightarrow> nat \<Rightarrow> u32 \<Rightarrow> packet" where
  "st32 p i w = st8 (st8 (st8 (st8 p i (ucast w)) (i + 1) (ucast (drop_bit 8 w)))
     (i + 2) (ucast (drop_bit 16 w))) (i + 3) (ucast (drop_bit 24 w))"

lemma length_st8 [simp, len_simps]: "length (st8 p i b) = length p"
  by (simp add: st8_def)

lemma length_st16 [simp, len_simps]: "length (st16 p i w) = length p"
  by (simp add: st16_def)

lemma length_st32 [simp, len_simps]: "length (st32 p i w) = length p"
  by (simp add: st32_def)

lemma ld8_st8 [ldst_simps]:
  "ld8 (st8 p i b) j = (if i = j \<and> i < length p then b else ld8 p j)"
  by (auto simp: ld8_def st8_def nth_list_update)

lemma ld8_st16 [ldst_simps]:
  "ld8 (st16 p i w) j =
     (if j = i \<and> i < length p then ucast w
      else if j = i + 1 \<and> i + 1 < length p then ucast (drop_bit 8 w) else ld8 p j)"
  by (auto simp: st16_def ld8_st8)

lemma ld8_st32 [ldst_simps]:
  "ld8 (st32 p i w) j =
     (if j = i \<and> i < length p then ucast w
      else if j = i + 1 \<and> i + 1 < length p then ucast (drop_bit 8 w)
      else if j = i + 2 \<and> i + 2 < length p then ucast (drop_bit 16 w)
      else if j = i + 3 \<and> i + 3 < length p then ucast (drop_bit 24 w) else ld8 p j)"
  by (auto simp: st32_def ld8_st8)

lemma bytes16_join:
  "ucast (ucast w :: u8) OR push_bit 8 (ucast (ucast (drop_bit 8 w) :: u8)) = (w :: u16)"
  by (rule bit_word_eqI)
    (auto simp: bit_or_iff bit_push_bit_iff bit_ucast_iff bit_drop_bit_eq)

lemma bytes32_join:
  "ucast (ucast w :: u8) OR push_bit 8 (ucast (ucast (drop_bit 8 w) :: u8))
     OR push_bit 16 (ucast (ucast (drop_bit 16 w) :: u8))
     OR push_bit 24 (ucast (ucast (drop_bit 24 w) :: u8)) = (w :: u32)"
proof (rule bit_word_eqI)
  fix n assume "n < LENGTH(32)"
  then consider "n < 8" | "8 \<le> n \<and> n < 16" | "16 \<le> n \<and> n < 24" | "24 \<le> n \<and> n < 32"
    by force
  then show "bit (ucast (ucast w :: u8) OR push_bit 8 (ucast (ucast (drop_bit 8 w) :: u8))
     OR push_bit 16 (ucast (ucast (drop_bit 16 w) :: u8))
     OR push_bit 24 (ucast (ucast (drop_bit 24 w) :: u8)) :: u32) n = bit w n"
    by cases (auto simp: bit_or_iff bit_push_bit_iff bit_ucast_iff bit_drop_bit_eq)
qed

lemma ld16_st16 [ldst_simps]: "i + 1 < length p \<Longrightarrow> ld16 (st16 p i w) i = w"
  by (simp add: ld16_def ld8_st16 bytes16_join)

lemma ld32_st32 [ldst_simps]: "i + 3 < length p \<Longrightarrow> ld32 (st32 p i w) i = w"
  by (simp add: ld32_def ld8_st32 bytes32_join)

lemma ld32_halves: "ucast (ld32 p i) = ld16 p i" "ucast (drop_bit 16 (ld32 p i)) = ld16 p (i + 2)"
  by (rule bit_word_eqI; auto simp: ld32_def ld16_def bit_or_iff bit_push_bit_iff bit_ucast_iff
      bit_drop_bit_eq add.commute[of 8] add.commute[of 16] numeral_3_eq_3
      dest: bit_imp_le_length)+

lemma ld16_st32:
  "i + 3 < length p \<Longrightarrow> ld16 (st32 p i w) i = ucast w"
  "i + 3 < length p \<Longrightarrow> ld16 (st32 p i w) (i + 2) = ucast (drop_bit 16 w)"
  by (simp add: ld16_def ld8_st32, rule bit_word_eqI,
      auto simp: bit_or_iff bit_push_bit_iff bit_ucast_iff bit_drop_bit_eq
      add.commute[of 8] add.commute[of 16] numeral_3_eq_3)+

lemma ld16_cong: "ld8 p i = ld8 q i \<Longrightarrow> ld8 p (i + 1) = ld8 q (i + 1) \<Longrightarrow> ld16 p i = ld16 q i"
  by (simp add: ld16_def)

end
