(* ===== verification/Uapi.thy ===== *)
theory Uapi
  imports Prelude
begin

text \<open>
  The data shared by the eBPF programs and the management daemon (\<open>bpf_uapi/\<close>): the
  statistics enums, the action rules, the rate limiter's slots, the configuration
  structure, the map keys, and the helpers of \<open>ip_helpers.h\<close> and \<open>map_names.h\<close>.
  A struct is a record, an enum a datatype. An array indexed by an enum is a function
  from the enum; \<open>named_rates\<close>, indexed by an 8-bit index, a function from \<open>u8\<close>.
  Fields of type \<open>__be16\<close> and \<open>__be32\<close> hold the network-order bytes as the host
  loads them.
\<close>

section \<open>Statistics\<close>

datatype XfwDropStat =
    XFW_DROP_ICMP_BLOCKED
  | XFW_DROP_SYN_RATE_LIMITED
  | XFW_DROP_RST_RATE_LIMITED
  | XFW_DROP_ICMP_RATE_LIMITED
  | XFW_DROP_ICMP_DEFAULT_BLOCKED
  | XFW_DROP_ICMP_DEFAULT_RATE_LIMITED
  | XFW_DROP_DST_BLOCKED
  | XFW_DROP_DST_RATE_LIMITED
  | XFW_DROP_SRC_PORT_BLOCKED
  | XFW_DROP_SRC_PORT_RATE_LIMITED
  | XFW_DROP_SRC_PORT_DEFAULT_BLOCKED
  | XFW_DROP_SRC_PORT_DEFAULT_RATE_LIMITED
  | XFW_DROP_SRC_IP_BLOCKED
  | XFW_DROP_SRC_IP_RATE_LIMITED
  | XFW_DROP_SRC_IP_DEFAULT_BLOCKED
  | XFW_DROP_SRC_IP_DEFAULT_RATE_LIMITED
  | XFW_DROP_TCP_ANOM_BAD_FLAGS
  | XFW_DROP_TCP_ANOM_SYN_BAD_SEQ
  | XFW_DROP_TCP_ANOM_SYN_NO_OPTIONS
  | XFW_DROP_TCP_ANOM_SYN_HAS_DATA
  | XFW_DROP_TCP_ANOM_ZERO_PORT
  | XFW_DROP_UDP_ANOM_ZERO_PORT
  | XFW_DROP_L2_UNKNOWN_INGRESS
  | XFW_DROP_ETH_BADHDR_INGRESS
  | XFW_DROP_IP4_BADHDR_INGRESS
  | XFW_DROP_IP4_FRAGMENTED_INGRESS
  | XFW_DROP_IP6_BADHDR_INGRESS
  | XFW_DROP_IP6_FRAGMENTED_INGRESS
  | XFW_DROP_TCP_BADHDR_INGRESS
  | XFW_DROP_UDP_BADHDR_INGRESS
  | XFW_DROP_ICMP_BADHDR_INGRESS
  | XFW_DROP_L4_UNSUPPORTED_INGRESS
  | XFW_DROP_TCP_AUTH_FAILED
  | XFW_DROP_TCP_AUTH_TIMEOUT
  | XFW_DROP_SYNCOOKIE_FAILED
  | XFW_DROP_DNS_BADHDR_INGRESS
  | XFW_DROP_DNS_QRY_RCODE_NOT_OK
  | XFW_DROP_DNS_BAD_QUESTION
  | XFW_DROP_DNS_MULTIPLE_QUESTIONS
  | XFW_DROP_DNS_ANS_OR_AUTHS_IN_QUERY
  | XFW_DROP_DNS_IXFR_ANOMALY
  | XFW_DROP_DNS_QRY_BAD_ARCOUNT
  | XFW_DROP_DNS_NOT_ASKED_RESPONSE
  | XFW_DROP_DNS_LARGE_RESPONSE
  | XFW_DROP_DNS_RESP_ANS_OVERLIMIT
  | XFW_DROP_DNS_BAD_RR
  | XFW_DROP_DNS_ANSWER_ANOMALY

text \<open>The numeric value of a drop reason: the position of its bit in \<open>IncidentLogStat.reason\<close>.\<close>

primrec drop_stat_val :: "XfwDropStat \<Rightarrow> nat" where
  "drop_stat_val XFW_DROP_ICMP_BLOCKED = 0"
| "drop_stat_val XFW_DROP_SYN_RATE_LIMITED = 1"
| "drop_stat_val XFW_DROP_RST_RATE_LIMITED = 2"
| "drop_stat_val XFW_DROP_ICMP_RATE_LIMITED = 3"
| "drop_stat_val XFW_DROP_ICMP_DEFAULT_BLOCKED = 4"
| "drop_stat_val XFW_DROP_ICMP_DEFAULT_RATE_LIMITED = 5"
| "drop_stat_val XFW_DROP_DST_BLOCKED = 6"
| "drop_stat_val XFW_DROP_DST_RATE_LIMITED = 7"
| "drop_stat_val XFW_DROP_SRC_PORT_BLOCKED = 8"
| "drop_stat_val XFW_DROP_SRC_PORT_RATE_LIMITED = 9"
| "drop_stat_val XFW_DROP_SRC_PORT_DEFAULT_BLOCKED = 10"
| "drop_stat_val XFW_DROP_SRC_PORT_DEFAULT_RATE_LIMITED = 11"
| "drop_stat_val XFW_DROP_SRC_IP_BLOCKED = 12"
| "drop_stat_val XFW_DROP_SRC_IP_RATE_LIMITED = 13"
| "drop_stat_val XFW_DROP_SRC_IP_DEFAULT_BLOCKED = 14"
| "drop_stat_val XFW_DROP_SRC_IP_DEFAULT_RATE_LIMITED = 15"
| "drop_stat_val XFW_DROP_TCP_ANOM_BAD_FLAGS = 16"
| "drop_stat_val XFW_DROP_TCP_ANOM_SYN_BAD_SEQ = 17"
| "drop_stat_val XFW_DROP_TCP_ANOM_SYN_NO_OPTIONS = 18"
| "drop_stat_val XFW_DROP_TCP_ANOM_SYN_HAS_DATA = 19"
| "drop_stat_val XFW_DROP_TCP_ANOM_ZERO_PORT = 20"
| "drop_stat_val XFW_DROP_UDP_ANOM_ZERO_PORT = 21"
| "drop_stat_val XFW_DROP_L2_UNKNOWN_INGRESS = 22"
| "drop_stat_val XFW_DROP_ETH_BADHDR_INGRESS = 23"
| "drop_stat_val XFW_DROP_IP4_BADHDR_INGRESS = 24"
| "drop_stat_val XFW_DROP_IP4_FRAGMENTED_INGRESS = 25"
| "drop_stat_val XFW_DROP_IP6_BADHDR_INGRESS = 26"
| "drop_stat_val XFW_DROP_IP6_FRAGMENTED_INGRESS = 27"
| "drop_stat_val XFW_DROP_TCP_BADHDR_INGRESS = 28"
| "drop_stat_val XFW_DROP_UDP_BADHDR_INGRESS = 29"
| "drop_stat_val XFW_DROP_ICMP_BADHDR_INGRESS = 30"
| "drop_stat_val XFW_DROP_L4_UNSUPPORTED_INGRESS = 31"
| "drop_stat_val XFW_DROP_TCP_AUTH_FAILED = 32"
| "drop_stat_val XFW_DROP_TCP_AUTH_TIMEOUT = 33"
| "drop_stat_val XFW_DROP_SYNCOOKIE_FAILED = 34"
| "drop_stat_val XFW_DROP_DNS_BADHDR_INGRESS = 35"
| "drop_stat_val XFW_DROP_DNS_QRY_RCODE_NOT_OK = 36"
| "drop_stat_val XFW_DROP_DNS_BAD_QUESTION = 37"
| "drop_stat_val XFW_DROP_DNS_MULTIPLE_QUESTIONS = 38"
| "drop_stat_val XFW_DROP_DNS_ANS_OR_AUTHS_IN_QUERY = 39"
| "drop_stat_val XFW_DROP_DNS_IXFR_ANOMALY = 40"
| "drop_stat_val XFW_DROP_DNS_QRY_BAD_ARCOUNT = 41"
| "drop_stat_val XFW_DROP_DNS_NOT_ASKED_RESPONSE = 42"
| "drop_stat_val XFW_DROP_DNS_LARGE_RESPONSE = 43"
| "drop_stat_val XFW_DROP_DNS_RESP_ANS_OVERLIMIT = 44"
| "drop_stat_val XFW_DROP_DNS_BAD_RR = 45"
| "drop_stat_val XFW_DROP_DNS_ANSWER_ANOMALY = 46"

text \<open>The drop reasons in the order of the enum.\<close>

definition XFW_DROP_STATS :: "XfwDropStat list" where
  "XFW_DROP_STATS = [
     XFW_DROP_ICMP_BLOCKED,
     XFW_DROP_SYN_RATE_LIMITED,
     XFW_DROP_RST_RATE_LIMITED,
     XFW_DROP_ICMP_RATE_LIMITED,
     XFW_DROP_ICMP_DEFAULT_BLOCKED,
     XFW_DROP_ICMP_DEFAULT_RATE_LIMITED,
     XFW_DROP_DST_BLOCKED,
     XFW_DROP_DST_RATE_LIMITED,
     XFW_DROP_SRC_PORT_BLOCKED,
     XFW_DROP_SRC_PORT_RATE_LIMITED,
     XFW_DROP_SRC_PORT_DEFAULT_BLOCKED,
     XFW_DROP_SRC_PORT_DEFAULT_RATE_LIMITED,
     XFW_DROP_SRC_IP_BLOCKED,
     XFW_DROP_SRC_IP_RATE_LIMITED,
     XFW_DROP_SRC_IP_DEFAULT_BLOCKED,
     XFW_DROP_SRC_IP_DEFAULT_RATE_LIMITED,
     XFW_DROP_TCP_ANOM_BAD_FLAGS,
     XFW_DROP_TCP_ANOM_SYN_BAD_SEQ,
     XFW_DROP_TCP_ANOM_SYN_NO_OPTIONS,
     XFW_DROP_TCP_ANOM_SYN_HAS_DATA,
     XFW_DROP_TCP_ANOM_ZERO_PORT,
     XFW_DROP_UDP_ANOM_ZERO_PORT,
     XFW_DROP_L2_UNKNOWN_INGRESS,
     XFW_DROP_ETH_BADHDR_INGRESS,
     XFW_DROP_IP4_BADHDR_INGRESS,
     XFW_DROP_IP4_FRAGMENTED_INGRESS,
     XFW_DROP_IP6_BADHDR_INGRESS,
     XFW_DROP_IP6_FRAGMENTED_INGRESS,
     XFW_DROP_TCP_BADHDR_INGRESS,
     XFW_DROP_UDP_BADHDR_INGRESS,
     XFW_DROP_ICMP_BADHDR_INGRESS,
     XFW_DROP_L4_UNSUPPORTED_INGRESS,
     XFW_DROP_TCP_AUTH_FAILED,
     XFW_DROP_TCP_AUTH_TIMEOUT,
     XFW_DROP_SYNCOOKIE_FAILED,
     XFW_DROP_DNS_BADHDR_INGRESS,
     XFW_DROP_DNS_QRY_RCODE_NOT_OK,
     XFW_DROP_DNS_BAD_QUESTION,
     XFW_DROP_DNS_MULTIPLE_QUESTIONS,
     XFW_DROP_DNS_ANS_OR_AUTHS_IN_QUERY,
     XFW_DROP_DNS_IXFR_ANOMALY,
     XFW_DROP_DNS_QRY_BAD_ARCOUNT,
     XFW_DROP_DNS_NOT_ASKED_RESPONSE,
     XFW_DROP_DNS_LARGE_RESPONSE,
     XFW_DROP_DNS_RESP_ANS_OVERLIMIT,
     XFW_DROP_DNS_BAD_RR,
     XFW_DROP_DNS_ANSWER_ANOMALY]"

datatype XfwPassStat =
    XFW_SRC_PORT_ALLOWED
  | XFW_SRC_IP_ALLOWED
  | XFW_ARP_INGRESS
  | XFW_GRE_INGRESS
  | XFW_SUPPORTED_PROTOCOL_INGRESS
  | XFW_PRELOAD_INGRESS
  | XFW_L2_UNKNOWN_EGRESS
  | XFW_ETH_BADHDR_EGRESS
  | XFW_L4_UNSUPPORTED_EGRESS
  | XFW_IP4_BADHDR_EGRESS
  | XFW_IP6_BADHDR_EGRESS
  | XFW_TCP_BADHDR_EGRESS
  | XFW_UDP_BADHDR_EGRESS
  | XFW_METADATA_CREATION_FAILED
  | XFW_ASSERT_FAILED

datatype XfwTrafficStat =
    XFW_SYN
  | XFW_ACK
  | XFW_SYNACK
  | XFW_FIN
  | XFW_RST
  | XFW_IP4_TOTAL_INGRESS
  | XFW_IP6_TOTAL_INGRESS
  | XFW_TCP_TOTAL_INGRESS
  | XFW_UDP_TOTAL_INGRESS
  | XFW_ICMP_TOTAL_INGRESS
  | XFW_TOTAL_DOWNSTREAM_INGRESS
  | XFW_PASSED_DOWNSTREAM_INGRESS
  | XFW_IP4_TOTAL_EGRESS
  | XFW_IP6_TOTAL_EGRESS
  | XFW_TCP_TOTAL_EGRESS
  | XFW_UDP_TOTAL_EGRESS
  | XFW_TOTAL_DOWNSTREAM_EGRESS
  | XFW_TOTAL_UPSTREAM_EGRESS
  | XFW_PASSED_DOWNSTREAM_EGRESS
  | XFW_PASSED_UPSTREAM_EGRESS
  | XFW_SYNCOOKIE_RECEIVED
  | XFW_SYNCOOKIE_FAILED

datatype XfwTxStat =
    XFW_SYNCOOKIE_GENERATED

record XfwPacketStats =
  ps_packets :: u64
  ps_bytes :: u64

text \<open>\<open>XfwPacketStats::operator+=\<close>.\<close>

definition XfwPacketStats_add :: "XfwPacketStats \<Rightarrow> XfwPacketStats \<Rightarrow> XfwPacketStats" where
  "XfwPacketStats_add a s =
     \<lparr>ps_packets = ps_packets a + ps_packets s, ps_bytes = ps_bytes a + ps_bytes s\<rparr>"

record XfwPerCpuStats =
  st_pass :: "XfwPassStat \<Rightarrow> XfwPacketStats"
  st_transmitted :: "XfwTxStat \<Rightarrow> XfwPacketStats"
  st_traffic :: "XfwTrafficStat \<Rightarrow> XfwPacketStats"

text \<open>\<open>XfwPerCpuStats::operator+=\<close>: the three loops add the arrays entry by entry.\<close>

definition XfwPerCpuStats_add :: "XfwPerCpuStats \<Rightarrow> XfwPerCpuStats \<Rightarrow> XfwPerCpuStats" where
  "XfwPerCpuStats_add a s =
     \<lparr>st_pass = (\<lambda>i. XfwPacketStats_add (st_pass a i) (st_pass s i)),
      st_transmitted = (\<lambda>i. XfwPacketStats_add (st_transmitted a i) (st_transmitted s i)),
      st_traffic = (\<lambda>i. XfwPacketStats_add (st_traffic a i) (st_traffic s i))\<rparr>"


section \<open>Limits\<close>

definition XFW_MAX_PORTS :: nat where "XFW_MAX_PORTS = 65535"
definition XFW_MAX_SRC_IP_RULES :: nat where "XFW_MAX_SRC_IP_RULES = 3000000"
definition XFW_MAX_ICMP_RULES :: nat where "XFW_MAX_ICMP_RULES = 255 * 2"
definition XFW_MAX_DST_RULES :: nat where "XFW_MAX_DST_RULES = 2000"
definition XFW_MAX_NAMED_RATELIMITS :: u8 where "XFW_MAX_NAMED_RATELIMITS = 255"
definition XFW_MAX_TCP_FLAG_RULES :: nat where "XFW_MAX_TCP_FLAG_RULES = 2"
definition XFW_MAX_DEFAULT_RULES :: nat where "XFW_MAX_DEFAULT_RULES = 14"
definition XFW_MAX_PROTECTED_NET_RULES :: nat where "XFW_MAX_PROTECTED_NET_RULES = 50"

definition XFW_MAX_RATE_LIMITER_BUCKETS :: nat where
  "XFW_MAX_RATE_LIMITER_BUCKETS = XFW_MAX_ICMP_RULES * 2 + XFW_MAX_DST_RULES * 2
     + XFW_MAX_TCP_FLAG_RULES * 2 + XFW_MAX_DEFAULT_RULES * 2"

lemmas limits_defs = XFW_MAX_PORTS_def XFW_MAX_SRC_IP_RULES_def XFW_MAX_ICMP_RULES_def
  XFW_MAX_DST_RULES_def XFW_MAX_NAMED_RATELIMITS_def XFW_MAX_TCP_FLAG_RULES_def
  XFW_MAX_DEFAULT_RULES_def XFW_MAX_PROTECTED_NET_RULES_def XFW_MAX_RATE_LIMITER_BUCKETS_def


section \<open>Action rules\<close>

text \<open>\<open>enum XfwAction : uint8_t\<close>; rules store the raw byte.\<close>

definition XFW_ACTION_ALLOW :: u8 where "XFW_ACTION_ALLOW = 0"
definition XFW_ACTION_BLOCK :: u8 where "XFW_ACTION_BLOCK = 1"
definition XFW_ACTION_RATE_LIMIT :: u8 where "XFW_ACTION_RATE_LIMIT = 2"

lemmas action_defs = XFW_ACTION_ALLOW_def XFW_ACTION_BLOCK_def XFW_ACTION_RATE_LIMIT_def

record XfwSrcRule =
  sr_action :: u8
  sr_named_idx :: u8

text \<open>The constructor \<open>XfwSrcRule(bool allow, optional<size_t> ratelimit)\<close>.\<close>

definition mk_XfwSrcRule :: "bool \<Rightarrow> nat option \<Rightarrow> XfwSrcRule" where
  "mk_XfwSrcRule allow ratelimit =
     (if \<not> allow then \<lparr>sr_action = XFW_ACTION_BLOCK, sr_named_idx = 255\<rparr>
      else case ratelimit of
        Some i \<Rightarrow> \<lparr>sr_action = XFW_ACTION_RATE_LIMIT, sr_named_idx = word_of_nat i\<rparr>
      | None \<Rightarrow> \<lparr>sr_action = XFW_ACTION_ALLOW, sr_named_idx = 255\<rparr>)"

record XfwRLimitSlot =
  window_idx :: u64
  pkts :: u64
  bytes :: u64

text \<open>\<open>XfwRLimitSlot slot[2]\<close>: the slots of even and of odd windows.\<close>

record XfwRLimitSlidingWindow =
  slot0 :: XfwRLimitSlot
  slot1 :: XfwRLimitSlot

definition zero_slot :: XfwRLimitSlot where
  "zero_slot = \<lparr>window_idx = 0, pkts = 0, bytes = 0\<rparr>"

text \<open>\<open>XfwRLimitSlidingWindow::reset\<close>, and the zero value a fresh map entry gets.\<close>

definition reset_window :: XfwRLimitSlidingWindow where
  "reset_window = \<lparr>slot0 = zero_slot, slot1 = zero_slot\<rparr>"

record XfwRLimitRule =
  bucket_idx :: u32
  rl_named_idx :: u8

record XfwActionRule =
  action :: u8
  rlimit :: XfwRLimitRule

definition invalid_rlimit :: XfwRLimitRule where
  "invalid_rlimit = \<lparr>bucket_idx = 0xFFFFFFFF, rl_named_idx = 255\<rparr>"

text \<open>The constructors \<open>XfwActionRule(uint8_t)\<close> and
  \<open>XfwActionRule(bool allow, optional<XfwRLimitIdx> ratelimit)\<close>.\<close>

definition XfwActionRule_of :: "u8 \<Rightarrow> XfwActionRule" where
  "XfwActionRule_of a = \<lparr>action = a, rlimit = invalid_rlimit\<rparr>"

definition mk_XfwActionRule :: "bool \<Rightarrow> u8 option \<Rightarrow> XfwActionRule" where
  "mk_XfwActionRule allow ratelimit =
     (if \<not> allow then \<lparr>action = XFW_ACTION_BLOCK, rlimit = invalid_rlimit\<rparr>
      else case ratelimit of
        Some i \<Rightarrow> \<lparr>action = XFW_ACTION_RATE_LIMIT, rlimit = invalid_rlimit\<lparr>rl_named_idx := i\<rparr>\<rparr>
      | None \<Rightarrow> \<lparr>action = XFW_ACTION_ALLOW, rlimit = invalid_rlimit\<rparr>)"


section \<open>Configuration\<close>

datatype DefaultIndex =
    XFW_DEFAULT_SRC_IP_TCP_IP4
  | XFW_DEFAULT_SRC_IP_TCP_IP6
  | XFW_DEFAULT_SRC_IP_UDP_IP4
  | XFW_DEFAULT_SRC_IP_UDP_IP6
  | XFW_DEFAULT_SRC_PORT_TCP_IP4
  | XFW_DEFAULT_SRC_PORT_TCP_IP6
  | XFW_DEFAULT_SRC_PORT_UDP_IP4
  | XFW_DEFAULT_SRC_PORT_UDP_IP6
  | XFW_DEFAULT_DST_TCP_IP4
  | XFW_DEFAULT_DST_TCP_IP6
  | XFW_DEFAULT_DST_UDP_IP4
  | XFW_DEFAULT_DST_UDP_IP6
  | XFW_DEFAULT_ICMP_IP4
  | XFW_DEFAULT_ICMP_IP6

datatype XfwFlagsFilter = XFW_FLAGS_FILTER_SYN | XFW_FLAGS_FILTER_RST

record XfwRulesCfgTcpAnomaly =
  ta_enabled :: bool
  syn_without_opt_enabled :: bool
  syn_with_payload_enabled :: bool
  syn_seqno_enabled :: bool
  syn_seqno_value :: u32
  bad_flags :: "u64 list"

record XfwRulesCfgSyncookie =
  passive_timer_jiff :: u64
  flood_timer_jiff :: u64
  sc_enabled :: bool

text \<open>The one-field structs \<open>XfwEvaluationMode\<close>, \<open>XfwRulesCfgTcpAuth\<close>,
  \<open>XfwRulesCfgDns\<close> and \<open>XfwRulesCfgIpProto\<close> are inlined as the fields
  \<open>evaluation_mode\<close>, \<open>tcp_auth_enabled\<close>, \<open>dns_enabled\<close> and \<open>ip_protocols\<close>.\<close>

record XfwRulesCfg =
  evaluation_mode :: bool
  ip_protocols :: "u64 list"
  syncookie :: XfwRulesCfgSyncookie
  tcp_anomaly :: XfwRulesCfgTcpAnomaly
  tcp_auth_enabled :: bool
  dns_enabled :: bool
  tcp_flags :: "XfwFlagsFilter \<Rightarrow> XfwActionRule"
  defaults :: "DefaultIndex \<Rightarrow> XfwActionRule"

record XfwPacketRate =
  rate_packets :: u64
  rate_bytes :: u64

record XfwRlWindow =
  rl_jiffies :: u32
  rl_shift :: u32
  rl_mask :: u32

record XfwFilterCfg =
  rules :: XfwRulesCfg
  rules_active :: bool
  amap_src :: u8
  amap_icmp :: u8
  amap_dst :: u8
  amap_prot_net :: u8
  rl_window :: XfwRlWindow
  named_rates :: "u8 \<Rightarrow> XfwPacketRate"


section \<open>Protocol numbers\<close>

definition ETH_P_8021AD :: u16 where "ETH_P_8021AD = 0x88A8"
definition ETH_P_8021Q :: u16 where "ETH_P_8021Q = 0x8100"
definition ETH_P_IP :: u16 where "ETH_P_IP = 0x0800"
definition ETH_P_IPV6 :: u16 where "ETH_P_IPV6 = 0x86DD"
definition ETH_P_ARP :: u16 where "ETH_P_ARP = 0x0806"

lemmas eth_defs = ETH_P_8021AD_def ETH_P_8021Q_def ETH_P_IP_def ETH_P_IPV6_def ETH_P_ARP_def

definition XFW_L4_PROTO_ICMP :: u8 where "XFW_L4_PROTO_ICMP = 1"
definition XFW_L4_PROTO_TCP :: u8 where "XFW_L4_PROTO_TCP = 6"
definition XFW_L4_PROTO_UDP :: u8 where "XFW_L4_PROTO_UDP = 17"
definition XFW_L4_PROTO_GRE :: u8 where "XFW_L4_PROTO_GRE = 47"
definition XFW_L4_PROTO_ICMPV6 :: u8 where "XFW_L4_PROTO_ICMPV6 = 58"

lemmas l4_defs = XFW_L4_PROTO_ICMP_def XFW_L4_PROTO_TCP_def XFW_L4_PROTO_UDP_def
  XFW_L4_PROTO_GRE_def XFW_L4_PROTO_ICMPV6_def

lemma eth_distinct [simp]:
  "ETH_P_IP \<noteq> ETH_P_IPV6" "ETH_P_IPV6 \<noteq> ETH_P_IP" "ETH_P_IP \<noteq> ETH_P_ARP" "ETH_P_ARP \<noteq> ETH_P_IP"
  "ETH_P_IPV6 \<noteq> ETH_P_ARP" "ETH_P_ARP \<noteq> ETH_P_IPV6"
  by (simp_all add: eth_defs)

lemma l4_distinct [simp]:
  "XFW_L4_PROTO_TCP \<noteq> XFW_L4_PROTO_UDP" "XFW_L4_PROTO_UDP \<noteq> XFW_L4_PROTO_TCP"
  "XFW_L4_PROTO_TCP \<noteq> XFW_L4_PROTO_ICMP" "XFW_L4_PROTO_ICMP \<noteq> XFW_L4_PROTO_TCP"
  "XFW_L4_PROTO_TCP \<noteq> XFW_L4_PROTO_ICMPV6" "XFW_L4_PROTO_ICMPV6 \<noteq> XFW_L4_PROTO_TCP"
  "XFW_L4_PROTO_UDP \<noteq> XFW_L4_PROTO_ICMP" "XFW_L4_PROTO_ICMP \<noteq> XFW_L4_PROTO_UDP"
  "XFW_L4_PROTO_UDP \<noteq> XFW_L4_PROTO_ICMPV6" "XFW_L4_PROTO_ICMPV6 \<noteq> XFW_L4_PROTO_UDP"
  "XFW_L4_PROTO_ICMP \<noteq> XFW_L4_PROTO_ICMPV6" "XFW_L4_PROTO_ICMPV6 \<noteq> XFW_L4_PROTO_ICMP"
  by (simp_all add: l4_defs)

lemma action_distinct [simp]:
  "XFW_ACTION_ALLOW \<noteq> XFW_ACTION_BLOCK" "XFW_ACTION_BLOCK \<noteq> XFW_ACTION_ALLOW"
  "XFW_ACTION_ALLOW \<noteq> XFW_ACTION_RATE_LIMIT" "XFW_ACTION_RATE_LIMIT \<noteq> XFW_ACTION_ALLOW"
  "XFW_ACTION_BLOCK \<noteq> XFW_ACTION_RATE_LIMIT" "XFW_ACTION_RATE_LIMIT \<noteq> XFW_ACTION_BLOCK"
  by (simp_all add: action_defs)

definition XFW_IP_VER_4 :: u8 where "XFW_IP_VER_4 = 1"
definition XFW_IP_VER_6 :: u8 where "XFW_IP_VER_6 = 2"


section \<open>Addresses and map keys\<close>

text \<open>The union \<open>XfwIp\<close> as its four words \<open>addr32[0]\<close> to \<open>addr32[3]\<close>.\<close>

datatype XfwIp = XfwIp (addr32_0: u32) (addr32_1: u32) (addr32_2: u32) (addr32_3: u32)

definition zero_ip :: XfwIp where "zero_ip = XfwIp 0 0 0 0"

definition xfw_ipv4_to_ipv6_mapped :: "u32 \<Rightarrow> XfwIp" where
  "xfw_ipv4_to_ipv6_mapped ipv4 = XfwIp 0 0 (bpf_htonl 0x0000FFFF) ipv4"

definition xfw_is_ipv6_mapped_to_ipv4 :: "XfwIp \<Rightarrow> bool" where
  "xfw_is_ipv6_mapped_to_ipv4 a \<longleftrightarrow>
     addr32_0 a = 0 \<and> addr32_1 a = 0 \<and> (addr32_2 a = 0 \<or> addr32_2 a = bpf_htonl 0xFFFF)"

definition xfw_assign_ip4_addr :: "u32 \<Rightarrow> XfwIp" where
  "xfw_assign_ip4_addr ipv4 = XfwIp 0 0 0 ipv4"

record XfwIpv4LpmKey =
  prefixlen4 :: u32
  addr4 :: u32

record XfwIpv6LpmKey =
  prefixlen6 :: u32
  addr6 :: XfwIp

record XfwIcmpKey =
  icmp_proto :: u8
  icmp_type :: u8

record XfwDstKey =
  dk_ipver :: u8
  dk_proto :: u8
  dk_port :: u16
  dk_addr :: XfwIp


section \<open>Shadow maps\<close>

text \<open>
  Every rule map exists twice; the pair holds the copy of \<open>MAP_PRIMARY_IDX\<close> and the copy
  of \<open>MAP_SECONDARY_IDX\<close>. \<open>SELECT_SHADOW_MAP\<close> looks at the lowest bit of the index.
\<close>

type_synonym 'm shadow = "'m \<times> 'm"

definition MAP_PRIMARY_IDX :: u8 where "MAP_PRIMARY_IDX = 0"
definition MAP_SECONDARY_IDX :: u8 where "MAP_SECONDARY_IDX = 1"

definition next_map_idx :: "u8 \<Rightarrow> u8" where
  "next_map_idx idx = (if idx = MAP_PRIMARY_IDX then MAP_SECONDARY_IDX else MAP_PRIMARY_IDX)"

definition SELECT_SHADOW_MAP :: "'m shadow \<Rightarrow> u8 \<Rightarrow> 'm" where
  "SELECT_SHADOW_MAP m idx = (if idx AND MAP_SECONDARY_IDX \<noteq> 0 then snd m else fst m)"

lemmas map_idx_defs = MAP_PRIMARY_IDX_def MAP_SECONDARY_IDX_def

text \<open>The index the manager writes next never selects the copy the datapath is reading.\<close>

lemma select_next_map:
  assumes "idx = MAP_PRIMARY_IDX \<or> idx = MAP_SECONDARY_IDX"
  shows "SELECT_SHADOW_MAP (False, True) (next_map_idx idx)
     \<noteq> SELECT_SHADOW_MAP (False, True) idx"
  using assms by (auto simp: SELECT_SHADOW_MAP_def next_map_idx_def map_idx_defs)

lemma drop_stat_val_less_64: "drop_stat_val r < 64"
  by (cases r) simp_all

lemma XFW_DROP_STATS_nth: "XFW_DROP_STATS ! drop_stat_val r = r"
  by (cases r) (simp_all add: XFW_DROP_STATS_def)

lemma drop_stat_val_inject: "drop_stat_val r = drop_stat_val r' \<longleftrightarrow> r = r'"
  by (metis XFW_DROP_STATS_nth)

text \<open>The address forms the logger and the destination rules use for an IPv4 address differ.\<close>

lemma ipv4_mapped_is_mapped: "xfw_is_ipv6_mapped_to_ipv4 (xfw_ipv4_to_ipv6_mapped a)"
  and ipv4_assigned_is_mapped: "xfw_is_ipv6_mapped_to_ipv4 (xfw_assign_ip4_addr a)"
  by (simp_all add: xfw_is_ipv6_mapped_to_ipv4_def xfw_ipv4_to_ipv6_mapped_def
      xfw_assign_ip4_addr_def)

lemma xfw_ipv4_to_ipv6_mapped_inject [simp]:
  "xfw_ipv4_to_ipv6_mapped a = xfw_ipv4_to_ipv6_mapped b \<longleftrightarrow> a = b"
  by (simp add: xfw_ipv4_to_ipv6_mapped_def)

end
