(* ===== verification/Ctx.thy ===== *)
theory Ctx
  imports Uapi
begin

text \<open>
  The state the eBPF programs run on (\<open>bpf/ctx.h\<close> and the map definitions of the other
  headers): the pinned BPF maps, the packet with its metadata area, the per-packet context
  \<open>XfwGlobalCtx\<close>, and the kernel services as a parameter record \<open>env\<close>. A packet is
  processed from one state to the next; the per-CPU maps are those of the CPU that
  handles it.
\<close>


section \<open>Verdicts\<close>

text \<open>
  The programs return the integers of the hook they are attached to, and
  \<open>XFW_CTX_CONTINUE\<close> inside a chain of filters. \<open>XDP_TX\<close> is only produced by
  \<open>xdp.c\<close>.
\<close>

datatype verdict = XFW_CTX_CONTINUE | XFW_CTX_PASS | XFW_CTX_DROP | XDP_TX

text \<open>The values of the two hooks: \<open>enum xdp_action\<close>, and \<open>TC_ACT_OK\<close>/\<open>TC_ACT_SHOT\<close>.\<close>

primrec xdp_code :: "verdict \<Rightarrow> int" where
  "xdp_code XFW_CTX_CONTINUE = 128"
| "xdp_code XFW_CTX_PASS = 2"
| "xdp_code XFW_CTX_DROP = 1"
| "xdp_code XDP_TX = 3"

primrec tc_code :: "verdict \<Rightarrow> int" where
  "tc_code XFW_CTX_CONTINUE = 128"
| "tc_code XFW_CTX_PASS = 0"
| "tc_code XFW_CTX_DROP = 2"
| "tc_code XDP_TX = 3"


section \<open>Values of the BPF maps\<close>

record IncidentLogStat =
  il_reason :: u64
  il_packets :: u64
  il_bytes :: u64

record IncidentPerCpuNotifyInfo =
  swap_ts :: u64
  drop_cnt :: u64

record IncidentPerCpuBpfOnlyInfo =
  last_used_map_hint :: u64
  insert_cnt :: u64

record XfwSockAddr =
  sa_addr :: XfwIp
  sa_port :: u16

record XfwTcpConnState =
  last_fin_time_jiff :: u64

record XfwTcpSynCookieTs =
  last_try_jiff :: u64
  last_gen_jiff :: u64

record XfwPacketMetadata =
  md_cur_pos :: u16
  md_ip_off :: u16
  md_is_ipv4 :: u16


section \<open>Maps written by the manager only\<close>

text \<open>
  The LPM tries are association lists from keys to rules, the hash maps are maps. The
  element \<open>cfg\<close> is the single entry of \<open>MAP_CFG_REF\<close>; a lookup may find none.
\<close>

record rule_maps =
  map_cfg :: "XfwFilterCfg option"
  map_src_4_udp :: "(XfwIpv4LpmKey \<times> XfwSrcRule) list shadow"
  map_src_4_tcp :: "(XfwIpv4LpmKey \<times> XfwSrcRule) list shadow"
  map_src_6_udp :: "(XfwIpv6LpmKey \<times> XfwSrcRule) list shadow"
  map_src_6_tcp :: "(XfwIpv6LpmKey \<times> XfwSrcRule) list shadow"
  map_src_p_udp :: "(u16 \<rightharpoonup> XfwSrcRule) shadow"
  map_src_p_tcp :: "(u16 \<rightharpoonup> XfwSrcRule) shadow"
  map_icmp :: "(XfwIcmpKey \<rightharpoonup> XfwActionRule) shadow"
  map_dst :: "(XfwDstKey \<rightharpoonup> XfwActionRule) shadow"
  map_net_ip4 :: "(XfwIpv4LpmKey \<times> int) list shadow"
  map_net_ip6 :: "(XfwIpv6LpmKey \<times> int) list shadow"


section \<open>The state of the datapath\<close>

text \<open>
  \<open>ratelimit\<close> is the array \<open>MAP_RATELIMIT_REF\<close>, with
  \<open>XFW_MAX_RATE_LIMITER_BUCKETS\<close> entries. \<open>ilog_map\<close> is the active incident map of
  the CPU (\<open>None\<close> when \<open>MAP_LOG_ACTIVE_FD_REF\<close> holds none) and \<open>ilog_hint\<close>
  its address. \<open>meta\<close> is the \<open>XfwPacketMetadata\<close> between \<open>data_meta\<close> and
  \<open>data\<close>, if the area is large enough for one.
\<close>

record state =
  ro :: rule_maps
  g_stats :: "XfwPerCpuStats option"
  ratelimit :: "u32 \<Rightarrow> XfwRLimitSlidingWindow"
  src_ratelim :: "XfwIp \<rightharpoonup> XfwRLimitSlidingWindow"
  src_port_rl :: "u16 \<rightharpoonup> XfwRLimitSlidingWindow"
  tcp_conn :: "XfwSockAddr \<rightharpoonup> XfwTcpConnState"
  syncookies :: "XfwTcpSynCookieTs option"
  dns_egr :: "u16 \<rightharpoonup> u8"
  ilog_map :: "(XfwIp \<rightharpoonup> IncidentLogStat) option"
  ilog_hint :: u64
  log_events :: "IncidentPerCpuNotifyInfo option"
  log_ev_cnt :: "IncidentPerCpuBpfOnlyInfo option"
  pkt :: packet
  meta :: "XfwPacketMetadata option"


section \<open>Kernel services\<close>

record bpf_sock_tuple =
  tup_ipv4 :: bool
  tup_sport :: u16
  tup_dport :: u16
  tup_saddr :: XfwIp
  tup_daddr :: XfwIp

text \<open>
  What the programs take from the kernel and from the loader: clocks, the load-time
  constants, the key an LPM trie finds, the outcome of \<open>bpf_map_update_elem\<close> on each
  map that is inserted into (the return code and the map after the call), and the packet,
  socket, SYN cookie and checksum helpers. \<open>adjust_meta\<close> is \<open>None\<close> when
  \<open>bpf_xdp_adjust_meta\<close> fails and otherwise the contents of the new metadata area.
\<close>

record env =
  jiffies64 :: u64
  ktime_ns :: u64
  CONFIG_HZ :: u64
  deployment_mode :: u8
  dns_mode :: bool
  lpm4 :: "XfwIpv4LpmKey list \<Rightarrow> XfwIpv4LpmKey \<Rightarrow> XfwIpv4LpmKey option"
  lpm6 :: "XfwIpv6LpmKey list \<Rightarrow> XfwIpv6LpmKey \<Rightarrow> XfwIpv6LpmKey option"
  update_src_ratelim :: "(XfwIp \<rightharpoonup> XfwRLimitSlidingWindow) \<Rightarrow> XfwIp
    \<Rightarrow> XfwRLimitSlidingWindow \<Rightarrow> int \<times> (XfwIp \<rightharpoonup> XfwRLimitSlidingWindow)"
  update_src_port_rl :: "(u16 \<rightharpoonup> XfwRLimitSlidingWindow) \<Rightarrow> u16
    \<Rightarrow> XfwRLimitSlidingWindow \<Rightarrow> int \<times> (u16 \<rightharpoonup> XfwRLimitSlidingWindow)"
  update_tcp_conn :: "(XfwSockAddr \<rightharpoonup> XfwTcpConnState) \<Rightarrow> XfwSockAddr
    \<Rightarrow> XfwTcpConnState \<Rightarrow> int \<times> (XfwSockAddr \<rightharpoonup> XfwTcpConnState)"
  update_dns_egr :: "(u16 \<rightharpoonup> u8) \<Rightarrow> u16 \<Rightarrow> u8 \<Rightarrow> int \<times> (u16 \<rightharpoonup> u8)"
  update_ilog :: "(XfwIp \<rightharpoonup> IncidentLogStat) \<Rightarrow> XfwIp
    \<Rightarrow> IncidentLogStat \<Rightarrow> int \<times> (XfwIp \<rightharpoonup> IncidentLogStat)"
  adjust_meta :: "XfwPacketMetadata option"
  xdp_load_bytes :: "packet \<Rightarrow> nat \<Rightarrow> nat \<Rightarrow> packet option"
  sk_lookup_tcp :: "bpf_sock_tuple \<Rightarrow> u8 option"
  tcp_gen_syncookie :: "packet \<Rightarrow> packet \<Rightarrow> int"
  raw_check_syncookie_ipv4 :: "packet \<Rightarrow> packet \<Rightarrow> int"
  raw_check_syncookie_ipv6 :: "packet \<Rightarrow> packet \<Rightarrow> int"
  csum_diff :: "packet \<Rightarrow> int"

definition XFW_MODE_HOST :: u8 where "XFW_MODE_HOST = 0"
definition XFW_MODE_GW :: u8 where "XFW_MODE_GW = 1"
definition XFW_MODE_SCRUBBER :: u8 where "XFW_MODE_SCRUBBER = 2"


section \<open>The per-packet context\<close>

record XfwHdrCursor =
  pos :: nat
  cur_end :: nat

record XfwGlobalCtx =
  cfg :: XfwFilterCfg
  hdr_cur :: XfwHdrCursor
  ilog_addr :: XfwIp
  ts_jiff :: u64
  pkt_sz :: u32
  ipver :: u16
  l4_off :: u16
  ip_off :: u8
  l4_proto :: u8

definition INIT_CURSOR_FROM_BPF_CONTEXT :: "state \<Rightarrow> XfwHdrCursor" where
  "INIT_CURSOR_FROM_BPF_CONTEXT s = \<lparr>pos = 0, cur_end = length (pkt s)\<rparr>"

text \<open>
  \<open>xfw_ctx_init\<close> followed by the check \<open>ctx.cfg && ctx.g_stats\<close> of both programs:
  \<open>None\<close> stands for a context whose pointers are not both set.
\<close>

definition xfw_ctx_init :: "env \<Rightarrow> state \<Rightarrow> XfwGlobalCtx option" where
  "xfw_ctx_init E s =
     (case (map_cfg (ro s), g_stats s) of
        (Some cf, Some _) \<Rightarrow>
          Some \<lparr>cfg = cf, hdr_cur = INIT_CURSOR_FROM_BPF_CONTEXT s, ilog_addr = zero_ip,
                ts_jiff = jiffies64 E, pkt_sz = word_of_nat (length (pkt s)), ipver = 0,
                l4_off = 0, ip_off = 0, l4_proto = 0\<rparr>
      | _ \<Rightarrow> None)"


section \<open>What the kernel promises\<close>

text \<open>
  \<open>bpf_map_update_elem\<close>: on success the key holds the value and every other key has
  its old value or, in an LRU map, was evicted; on failure the map is unchanged. With
  \<open>BPF_NOEXIST\<close> a key that is present makes the call fail.
\<close>

definition update_law :: "(('k \<rightharpoonup> 'v) \<Rightarrow> 'k \<Rightarrow> 'v \<Rightarrow> int \<times> ('k \<rightharpoonup> 'v)) \<Rightarrow> bool" where
  "update_law upd \<longleftrightarrow> (\<forall>m k v r m'. upd m k v = (r, m') \<longrightarrow>
     (if 0 \<le> r then m' k = Some v \<and> (\<forall>j. j \<noteq> k \<longrightarrow> m' j = m j \<or> m' j = None) else m' = m))"

text \<open>A plain hash map with room for one more element satisfies the law.\<close>

definition plain_update :: "('k \<rightharpoonup> 'v) \<Rightarrow> 'k \<Rightarrow> 'v \<Rightarrow> int \<times> ('k \<rightharpoonup> 'v)" where
  "plain_update m k v = (0, m(k \<mapsto> v))"

text \<open>A map that is full rejects the element with \<open>-E2BIG\<close>.\<close>

definition full_update :: "('k \<rightharpoonup> 'v) \<Rightarrow> 'k \<Rightarrow> 'v \<Rightarrow> int \<times> ('k \<rightharpoonup> 'v)" where
  "full_update m k v = (- E2BIG, m)"

text \<open>
  Longest prefix match: the first \<open>prefixlen\<close> bits of a stored key, counted in network
  order, agree with the address, and no longer stored prefix does.
\<close>

definition lpm4_match :: "XfwIpv4LpmKey \<Rightarrow> u32 \<Rightarrow> bool" where
  "lpm4_match k a \<longleftrightarrow>
     unat (prefixlen4 k) \<le> 32 \<and>
     take_bit (unat (prefixlen4 k)) (drop_bit (32 - unat (prefixlen4 k)) (bswap32 (addr4 k)))
     = take_bit (unat (prefixlen4 k)) (drop_bit (32 - unat (prefixlen4 k)) (bswap32 a))"

definition ip_int :: "XfwIp \<Rightarrow> nat" where
  "ip_int a = ((unat (bswap32 (addr32_0 a)) * 2 ^ 32 + unat (bswap32 (addr32_1 a))) * 2 ^ 32
     + unat (bswap32 (addr32_2 a))) * 2 ^ 32 + unat (bswap32 (addr32_3 a))"

definition lpm6_match :: "XfwIpv6LpmKey \<Rightarrow> XfwIp \<Rightarrow> bool" where
  "lpm6_match k a \<longleftrightarrow> unat (prefixlen6 k) \<le> 128 \<and>
     ip_int (addr6 k) div 2 ^ (128 - unat (prefixlen6 k))
     = ip_int a div 2 ^ (128 - unat (prefixlen6 k))"

definition lpm4_law :: "env \<Rightarrow> bool" where
  "lpm4_law E \<longleftrightarrow> (\<forall>ks q. case lpm4 E ks q of
     None \<Rightarrow> \<forall>k \<in> set ks. \<not> lpm4_match k (addr4 q)
   | Some k \<Rightarrow> k \<in> set ks \<and> lpm4_match k (addr4 q) \<and>
       (\<forall>j \<in> set ks. lpm4_match j (addr4 q) \<longrightarrow> prefixlen4 j \<le> prefixlen4 k))"

definition lpm6_law :: "env \<Rightarrow> bool" where
  "lpm6_law E \<longleftrightarrow> (\<forall>ks q. case lpm6 E ks q of
     None \<Rightarrow> \<forall>k \<in> set ks. \<not> lpm6_match k (addr6 q)
   | Some k \<Rightarrow> k \<in> set ks \<and> lpm6_match k (addr6 q) \<and>
       (\<forall>j \<in> set ks. lpm6_match j (addr6 q) \<longrightarrow> prefixlen6 j \<le> prefixlen6 k))"

text \<open>A linear scan that keeps the longest match.\<close>

primrec lpm_scan :: "('k \<Rightarrow> bool) \<Rightarrow> ('k \<Rightarrow> u32) \<Rightarrow> 'k list \<Rightarrow> 'k option" where
  "lpm_scan m len [] = None"
| "lpm_scan m len (k # ks) =
     (case lpm_scan m len ks of
        None \<Rightarrow> if m k then Some k else None
      | Some j \<Rightarrow> if m k \<and> len j \<le> len k then Some k else Some j)"

text \<open>\<open>bpf_xdp_load_bytes\<close> copies bytes that lie inside the packet and fails otherwise.\<close>

definition load_bytes_law :: "env \<Rightarrow> bool" where
  "load_bytes_law E \<longleftrightarrow> (\<forall>p off n. xdp_load_bytes E p off n =
     (if off + n \<le> length p then Some (take n (drop off p)) else None))"

definition plain_load_bytes :: "packet \<Rightarrow> nat \<Rightarrow> nat \<Rightarrow> packet option" where
  "plain_load_bytes p off n = (if off + n \<le> length p then Some (take n (drop off p)) else None)"


text \<open>
  An environment with these services, for evaluating the programs on concrete packets: a
  host-mode deployment at a fixed time, hash maps with room, no sockets.
\<close>

definition ref_env :: env where
  "ref_env = \<lparr>jiffies64 = 1000000, ktime_ns = 4000000000000, CONFIG_HZ = 250,
     deployment_mode = XFW_MODE_HOST, dns_mode = False,
     lpm4 = (\<lambda>ks q. lpm_scan (\<lambda>k. lpm4_match k (addr4 q)) prefixlen4 ks),
     lpm6 = (\<lambda>ks q. lpm_scan (\<lambda>k. lpm6_match k (addr6 q)) prefixlen6 ks),
     update_src_ratelim = plain_update, update_src_port_rl = plain_update,
     update_tcp_conn = plain_update, update_dns_egr = plain_update,
     update_ilog = plain_update,
     adjust_meta = Some \<lparr>md_cur_pos = 0, md_ip_off = 0, md_is_ipv4 = 0\<rparr>,
     xdp_load_bytes = plain_load_bytes, sk_lookup_tcp = (\<lambda>t. None),
     tcp_gen_syncookie = (\<lambda>i t. - EINVAL), raw_check_syncookie_ipv4 = (\<lambda>i t. - EINVAL),
     raw_check_syncookie_ipv6 = (\<lambda>i t. - EINVAL), csum_diff = (\<lambda>b. 0)\<rparr>"


text \<open>A configuration that allows everything, with a window of 256 jiffies, and its context.\<close>

definition allow_rule :: XfwActionRule where
  "allow_rule = XfwActionRule_of XFW_ACTION_ALLOW"

definition ref_rules :: XfwRulesCfg where
  "ref_rules = \<lparr>evaluation_mode = False, ip_protocols = [2 ^ 64 - 1, 2 ^ 64 - 1, 2 ^ 64 - 1, 2 ^ 64 - 1],
     syncookie = \<lparr>passive_timer_jiff = 10, flood_timer_jiff = 10, sc_enabled = False\<rparr>,
     tcp_anomaly = \<lparr>ta_enabled = False, syn_without_opt_enabled = False,
       syn_with_payload_enabled = False, syn_seqno_enabled = False, syn_seqno_value = 0,
       bad_flags = [0, 0, 0, 0]\<rparr>,
     tcp_auth_enabled = False, dns_enabled = False,
     tcp_flags = (\<lambda>_. allow_rule), defaults = (\<lambda>_. allow_rule)\<rparr>"

definition ref_cfg :: XfwFilterCfg where
  "ref_cfg = \<lparr>rules = ref_rules, rules_active = True, amap_src = 0, amap_icmp = 0, amap_dst = 0,
     amap_prot_net = 0, rl_window = \<lparr>rl_jiffies = 256, rl_shift = 8, rl_mask = 255\<rparr>,
     named_rates = (\<lambda>_. \<lparr>rate_packets = 10, rate_bytes = 1000\<rparr>)\<rparr>"

definition ref_ctx :: "u64 \<Rightarrow> u32 \<Rightarrow> XfwGlobalCtx" where
  "ref_ctx ts sz = \<lparr>cfg = ref_cfg, hdr_cur = \<lparr>pos = 0, cur_end = 0\<rparr>, ilog_addr = zero_ip,
     ts_jiff = ts, pkt_sz = sz, ipver = 0, l4_off = 0, ip_off = 0, l4_proto = 0\<rparr>"


definition zero_stats :: XfwPerCpuStats where
  "zero_stats = \<lparr>st_pass = (\<lambda>_. \<lparr>ps_packets = 0, ps_bytes = 0\<rparr>),
     st_transmitted = (\<lambda>_. \<lparr>ps_packets = 0, ps_bytes = 0\<rparr>),
     st_traffic = (\<lambda>_. \<lparr>ps_packets = 0, ps_bytes = 0\<rparr>)\<rparr>"

text \<open>Empty rule maps under a given configuration, and the state of a freshly loaded program.\<close>

definition ref_maps :: "XfwFilterCfg \<Rightarrow> rule_maps" where
  "ref_maps cf = \<lparr>map_cfg = Some cf, map_src_4_udp = ([], []), map_src_4_tcp = ([], []),
     map_src_6_udp = ([], []), map_src_6_tcp = ([], []),
     map_src_p_udp = (Map.empty, Map.empty), map_src_p_tcp = (Map.empty, Map.empty),
     map_icmp = (Map.empty, Map.empty), map_dst = (Map.empty, Map.empty),
     map_net_ip4 = ([], []), map_net_ip6 = ([], [])\<rparr>"

definition ref_state :: "XfwFilterCfg \<Rightarrow> packet \<Rightarrow> state" where
  "ref_state cf p = \<lparr>ro = ref_maps cf, g_stats = Some zero_stats, ratelimit = (\<lambda>_. reset_window),
     src_ratelim = Map.empty, src_port_rl = Map.empty, tcp_conn = Map.empty,
     syncookies = Some \<lparr>last_try_jiff = 0, last_gen_jiff = 0\<rparr>, dns_egr = Map.empty,
     ilog_map = Some Map.empty, ilog_hint = 0, log_events = Some \<lparr>swap_ts = 0, drop_cnt = 0\<rparr>,
     log_ev_cnt = Some \<lparr>last_used_map_hint = 0, insert_cnt = 0\<rparr>, pkt = p, meta = None\<rparr>"


section \<open>Basic facts\<close>

lemma xdp_code_inject: "xdp_code v = xdp_code w \<longleftrightarrow> v = w"
  by (cases v; cases w) simp_all

lemma tc_code_inject: "tc_code v = tc_code w \<longleftrightarrow> v = w"
  by (cases v; cases w) simp_all

lemma update_lawD:
  assumes "update_law upd" "upd m k v = (r, m')"
  shows "0 \<le> r \<Longrightarrow> m' k = Some v" "r < 0 \<Longrightarrow> m' = m"
    "j \<noteq> k \<Longrightarrow> m' j = m j \<or> m' j = None"
  using assms by (fastforce simp: update_law_def split: if_splits)+

lemma plain_update_law: "update_law plain_update"
  by (auto simp: update_law_def plain_update_def)

lemma full_update_law: "update_law full_update"
  by (auto simp: update_law_def full_update_def)

lemma lpm_scan_None: "lpm_scan m len ks = None \<longleftrightarrow> (\<forall>k \<in> set ks. \<not> m k)"
  by (induction ks) (auto split: option.splits if_splits)

lemma lpm_scan_Some:
  "lpm_scan m len ks = Some k \<Longrightarrow>
     k \<in> set ks \<and> m k \<and> (\<forall>j \<in> set ks. m j \<longrightarrow> len j \<le> len k)"
proof (induction ks arbitrary: k)
  case (Cons a ks)
  show ?case
  proof (cases "lpm_scan m len ks")
    case None
    then have "\<forall>j \<in> set ks. \<not> m j" by (simp add: lpm_scan_None)
    then show ?thesis using Cons.prems None by (auto split: if_splits)
  next
    case (Some j)
    then show ?thesis using Cons.prems Cons.IH[OF Some] by (auto split: if_splits)
  qed
qed simp

lemma ref_env_lpm4: "lpm4_law ref_env"
  unfolding lpm4_law_def
  by (auto simp: ref_env_def lpm_scan_None split: option.splits dest!: lpm_scan_Some)

lemma ref_env_lpm6: "lpm6_law ref_env"
  unfolding lpm6_law_def
  by (auto simp: ref_env_def lpm_scan_None split: option.splits dest!: lpm_scan_Some)

lemma ref_env_load_bytes: "load_bytes_law ref_env"
  by (simp add: load_bytes_law_def ref_env_def plain_load_bytes_def)

lemma xfw_ctx_init_Some:
  assumes "xfw_ctx_init E s = Some c"
  shows "map_cfg (ro s) = Some (cfg c)" "g_stats s \<noteq> None"
    "hdr_cur c = \<lparr>pos = 0, cur_end = length (pkt s)\<rparr>" "pkt_sz c = word_of_nat (length (pkt s))"
    "ts_jiff c = jiffies64 E"
  using assms by (auto simp: xfw_ctx_init_def INIT_CURSOR_FROM_BPF_CONTEXT_def
      split: option.splits prod.splits)

end
