(* ===== verification/IncidentLog.thy ===== *)
theory IncidentLog
  imports Ctx
begin

text \<open>
  The incident log of \<open>bpf/incident_log.h\<close>: every dropped packet is added to the
  per-CPU map of incidents by source address, and what does not fit is counted as lost.
  The conservation theorem says that no drop goes missing between the two.
\<close>


section \<open>Incident log\<close>

definition INCIDENT_FLUSH_THRESHOLD :: u64 where
  "INCIDENT_FLUSH_THRESHOLD = 262144 * 4 div 5"

definition push_swap_event :: "env \<Rightarrow> state \<Rightarrow> state" where
  "push_swap_event E s = s\<lparr>log_events := map_option (swap_ts_update (\<lambda>_. ktime_ns E)) (log_events s)\<rparr>"

definition push_swap_event_and_update_drop_cnt :: "env \<Rightarrow> state \<Rightarrow> state" where
  "push_swap_event_and_update_drop_cnt E s =
     s\<lparr>log_events := map_option (\<lambda>ev. ev\<lparr>drop_cnt := drop_cnt ev + 1, swap_ts := ktime_ns E\<rparr>)
        (log_events s)\<rparr>"

definition update_drop_cnt :: "state \<Rightarrow> state" where
  "update_drop_cnt s =
     s\<lparr>log_events := map_option (\<lambda>ev. ev\<lparr>drop_cnt := drop_cnt ev + 1\<rparr>) (log_events s)\<rparr>"

definition update_map_info :: "u64 \<Rightarrow> state \<Rightarrow> u64 \<times> state" where
  "update_map_info active_map_hint s =
     (case log_ev_cnt s of
        None \<Rightarrow> (0, s)
      | Some info \<Rightarrow>
          if last_used_map_hint info = active_map_hint
          then (insert_cnt info + 1, s\<lparr>log_ev_cnt := Some (info\<lparr>insert_cnt := insert_cnt info + 1\<rparr>)\<rparr>)
          else (1, s\<lparr>log_ev_cnt := Some \<lparr>last_used_map_hint = active_map_hint, insert_cnt = 1\<rparr>\<rparr>))"

definition reason_bit :: "XfwDropStat \<Rightarrow> u64" where
  "reason_bit reason = push_bit (drop_stat_val reason) 1"

definition register_incident :: "env \<Rightarrow> XfwIp \<Rightarrow> u32 \<Rightarrow> XfwDropStat \<Rightarrow> state \<Rightarrow> state" where
  "register_incident E addr sz reason s =
     (case ilog_map s of
        None \<Rightarrow> update_drop_cnt s
      | Some m \<Rightarrow>
          (case m addr of
             Some stat \<Rightarrow>
               s\<lparr>ilog_map := Some (m(addr \<mapsto>
                   \<lparr>il_reason = il_reason stat OR reason_bit reason,
                    il_packets = il_packets stat + 1,
                    il_bytes = il_bytes stat + ucast sz\<rparr>))\<rparr>
           | None \<Rightarrow>
               let new_stat = \<lparr>il_reason = reason_bit reason, il_packets = 1, il_bytes = ucast sz\<rparr>;
                   (ret, m') = update_ilog E m addr new_stat;
                   s1 = s\<lparr>ilog_map := Some m'\<rparr>
               in if 0 \<le> ret
                  then (let (new_size, s2) = update_map_info (ilog_hint s1) s1
                        in if INCIDENT_FLUSH_THRESHOLD \<le> new_size then push_swap_event E s2 else s2)
                  else if ret = - ENOMEM \<or> ret = - E2BIG
                  then push_swap_event_and_update_drop_cnt E s1
                  else update_drop_cnt s1))"


section \<open>What the log leaves alone\<close>

lemma push_swap_event_frame [simp]:
  "ro (push_swap_event E s) = ro s"
  "pkt (push_swap_event E s) = pkt s"
  "g_stats (push_swap_event E s) = g_stats s"
  "ratelimit (push_swap_event E s) = ratelimit s"
  "src_ratelim (push_swap_event E s) = src_ratelim s"
  "src_port_rl (push_swap_event E s) = src_port_rl s"
  "tcp_conn (push_swap_event E s) = tcp_conn s"
  "syncookies (push_swap_event E s) = syncookies s"
  "dns_egr (push_swap_event E s) = dns_egr s"
  "meta (push_swap_event E s) = meta s"
  by (simp_all add: push_swap_event_def)

lemma push_swap_drop_frame [simp]:
  "ro (push_swap_event_and_update_drop_cnt E s) = ro s"
  "pkt (push_swap_event_and_update_drop_cnt E s) = pkt s"
  "g_stats (push_swap_event_and_update_drop_cnt E s) = g_stats s"
  "ratelimit (push_swap_event_and_update_drop_cnt E s) = ratelimit s"
  "src_ratelim (push_swap_event_and_update_drop_cnt E s) = src_ratelim s"
  "src_port_rl (push_swap_event_and_update_drop_cnt E s) = src_port_rl s"
  "tcp_conn (push_swap_event_and_update_drop_cnt E s) = tcp_conn s"
  "syncookies (push_swap_event_and_update_drop_cnt E s) = syncookies s"
  "dns_egr (push_swap_event_and_update_drop_cnt E s) = dns_egr s"
  "meta (push_swap_event_and_update_drop_cnt E s) = meta s"
  by (simp_all add: push_swap_event_and_update_drop_cnt_def)

lemma update_drop_cnt_frame [simp]:
  "ro (update_drop_cnt s) = ro s"
  "pkt (update_drop_cnt s) = pkt s"
  "g_stats (update_drop_cnt s) = g_stats s"
  "ratelimit (update_drop_cnt s) = ratelimit s"
  "src_ratelim (update_drop_cnt s) = src_ratelim s"
  "src_port_rl (update_drop_cnt s) = src_port_rl s"
  "tcp_conn (update_drop_cnt s) = tcp_conn s"
  "syncookies (update_drop_cnt s) = syncookies s"
  "dns_egr (update_drop_cnt s) = dns_egr s"
  "meta (update_drop_cnt s) = meta s"
  by (simp_all add: update_drop_cnt_def)

lemma update_map_info_frame [simp]:
  "ro (snd (update_map_info h s)) = ro s"
  "pkt (snd (update_map_info h s)) = pkt s"
  "g_stats (snd (update_map_info h s)) = g_stats s"
  "ratelimit (snd (update_map_info h s)) = ratelimit s"
  "src_ratelim (snd (update_map_info h s)) = src_ratelim s"
  "src_port_rl (snd (update_map_info h s)) = src_port_rl s"
  "tcp_conn (snd (update_map_info h s)) = tcp_conn s"
  "syncookies (snd (update_map_info h s)) = syncookies s"
  "dns_egr (snd (update_map_info h s)) = dns_egr s"
  "meta (snd (update_map_info h s)) = meta s"
  by (simp_all add: update_map_info_def split: option.split)

lemma register_incident_frame [simp]:
  "ro (register_incident E a n r s) = ro s"
  "pkt (register_incident E a n r s) = pkt s"
  "g_stats (register_incident E a n r s) = g_stats s"
  "ratelimit (register_incident E a n r s) = ratelimit s"
  "src_ratelim (register_incident E a n r s) = src_ratelim s"
  "src_port_rl (register_incident E a n r s) = src_port_rl s"
  "tcp_conn (register_incident E a n r s) = tcp_conn s"
  "syncookies (register_incident E a n r s) = syncookies s"
  "dns_egr (register_incident E a n r s) = dns_egr s"
  "meta (register_incident E a n r s) = meta s"
  by (simp_all add: register_incident_def Let_def case_prod_beta split: option.split)


section \<open>Conservation of incidents\<close>

text \<open>
  The active map is a \<open>BPF_MAP_TYPE_HASH\<close>: inserting an absent key adds exactly that
  key or fails without effect.
\<close>

definition hash_insert_law :: "(('k \<rightharpoonup> 'v) \<Rightarrow> 'k \<Rightarrow> 'v \<Rightarrow> int \<times> ('k \<rightharpoonup> 'v)) \<Rightarrow> bool" where
  "hash_insert_law upd \<longleftrightarrow> (\<forall>m k v r m'. m k = None \<longrightarrow> upd m k v = (r, m') \<longrightarrow>
     m' = (if 0 \<le> r then m(k \<mapsto> v) else m))"

definition ilog_sum :: "(XfwIp \<rightharpoonup> IncidentLogStat) \<Rightarrow> nat" where
  "ilog_sum m = (\<Sum>a \<in> dom m. unat (il_packets (the (m a))))"

definition logged :: "state \<Rightarrow> nat" where
  "logged s = (case ilog_map s of None \<Rightarrow> 0 | Some m \<Rightarrow> ilog_sum m)"

definition lost :: "state \<Rightarrow> nat" where
  "lost s = (case log_events s of None \<Rightarrow> 0 | Some ev \<Rightarrow> unat (drop_cnt ev))"

definition log_wf :: "state \<Rightarrow> bool" where
  "log_wf s \<longleftrightarrow> log_events s \<noteq> None \<and> (\<forall>m. ilog_map s = Some m \<longrightarrow> finite (dom m))"

lemma unat_plus_1: "unat (x :: u64) + 1 < 2 ^ 64 \<Longrightarrow> unat (x + 1) = unat x + 1"
  by (subst unat_add_no_wrap) simp_all

lemma ilog_sum_update:
  assumes "finite (dom m)" "unat (il_packets st) = (case m a of None \<Rightarrow> 0 | Some e \<Rightarrow> unat (il_packets e)) + 1"
  shows "ilog_sum (m(a \<mapsto> st)) = ilog_sum m + 1"
proof -
  have *: "(\<Sum>x \<in> dom m - {a}. unat (il_packets (the ((m(a \<mapsto> st)) x))))
      = (\<Sum>x \<in> dom m - {a}. unat (il_packets (the (m x))))"
    by (rule sum.cong) auto
  have "ilog_sum (m(a \<mapsto> st)) = unat (il_packets st) + (\<Sum>x \<in> dom m - {a}. unat (il_packets (the (m x))))"
    unfolding ilog_sum_def using assms(1) *
    by (simp add: sum.insert_remove del: fun_upd_apply) (simp add: fun_upd_apply)
  moreover have "ilog_sum m = (case m a of None \<Rightarrow> 0 | Some e \<Rightarrow> unat (il_packets e))
      + (\<Sum>x \<in> dom m - {a}. unat (il_packets (the (m x))))"
    unfolding ilog_sum_def using assms(1)
    by (cases "m a") (auto simp: domIff sum.remove[of "dom m" a] intro!: sum.cong)
  ultimately show ?thesis using assms(2) by simp
qed

lemma ilog_sum_entry:
  "finite (dom m) \<Longrightarrow> m a = Some st \<Longrightarrow> unat (il_packets st) \<le> ilog_sum m"
  unfolding ilog_sum_def using member_le_sum[of a "dom m" "\<lambda>x. unat (il_packets (the (m x)))"]
  by (simp add: domIff)

lemma lost_events [simp]:
  "lost (push_swap_event E s) = lost s"
  "log_events s \<noteq> None \<Longrightarrow> lost s + 1 < 2 ^ 64 \<Longrightarrow> lost (update_drop_cnt s) = lost s + 1"
  "log_events s \<noteq> None \<Longrightarrow> lost s + 1 < 2 ^ 64 \<Longrightarrow>
     lost (push_swap_event_and_update_drop_cnt E s) = lost s + 1"
  by (auto simp: lost_def push_swap_event_def update_drop_cnt_def
      push_swap_event_and_update_drop_cnt_def unat_plus_1 split: option.split)

lemma log_ops_ilog_map [simp]:
  "ilog_map (push_swap_event E s) = ilog_map s" "ilog_map (update_drop_cnt s) = ilog_map s"
  "ilog_map (push_swap_event_and_update_drop_cnt E s) = ilog_map s"
  "ilog_map (snd (update_map_info h s)) = ilog_map s"
  "log_events (snd (update_map_info h s)) = log_events s"
  by (simp_all add: push_swap_event_def update_drop_cnt_def push_swap_event_and_update_drop_cnt_def
      update_map_info_def split: option.split)

text \<open>
  Every branch of \<open>register_incident\<close>: the packet is either added to the entry of its
  source address, or the map is left alone and the loss is counted.
\<close>

definition stat_after :: "IncidentLogStat option \<Rightarrow> XfwDropStat \<Rightarrow> u32 \<Rightarrow> IncidentLogStat" where
  "stat_after old reason sz =
     (case old of
        None \<Rightarrow> \<lparr>il_reason = reason_bit reason, il_packets = 1, il_bytes = ucast sz\<rparr>
      | Some st \<Rightarrow> \<lparr>il_reason = il_reason st OR reason_bit reason, il_packets = il_packets st + 1,
                    il_bytes = il_bytes st + ucast sz\<rparr>)"

lemma register_incident_cases:
  assumes "hash_insert_law (update_ilog E)"
  obtains (logged) m where "ilog_map s = Some m"
      "ilog_map (register_incident E a sz r s) = Some (m(a \<mapsto> stat_after (m a) r sz))"
      "map_option drop_cnt (log_events (register_incident E a sz r s)) = map_option drop_cnt (log_events s)"
  | (lost) "ilog_map (register_incident E a sz r s) = ilog_map s"
      "map_option drop_cnt (log_events (register_incident E a sz r s))
        = map_option (\<lambda>ev. drop_cnt ev + 1) (log_events s)"
proof (cases "ilog_map s")
  case None
  then show thesis
    by (intro lost) (simp_all add: register_incident_def update_drop_cnt_def option.map_comp comp_def)
next
  case (Some m)
  show thesis
  proof (cases "m a")
    case None
    let ?st = "\<lparr>il_reason = reason_bit r, il_packets = 1, il_bytes = ucast sz\<rparr>"
    obtain ret m' where u: "update_ilog E m a ?st = (ret, m')" by fastforce
    have m': "m' = (if 0 \<le> ret then m(a \<mapsto> ?st) else m)"
      using assms None u unfolding hash_insert_law_def by blast
    show thesis
    proof (cases "0 \<le> ret")
      case True
      show thesis
        by (rule logged[OF Some])
          (simp_all add: register_incident_def Some None u m' True stat_after_def case_prod_beta Let_def
            push_swap_event_def option.map_comp comp_def)
    next
      case False
      show thesis
        by (rule lost)
          (simp_all add: register_incident_def Some None u m' False Let_def update_drop_cnt_def
            push_swap_event_and_update_drop_cnt_def option.map_comp comp_def)
    qed
  next
    case (Some st)
    show thesis
      by (rule logged[OF \<open>ilog_map s = Some m\<close>])
        (simp_all add: register_incident_def stat_after_def Some \<open>ilog_map s = Some m\<close>)
  qed
qed

lemma lost_drop_cnt: "lost s = (case map_option drop_cnt (log_events s) of None \<Rightarrow> 0 | Some n \<Rightarrow> unat n)"
  by (simp add: lost_def split: option.split)

lemma register_incident_step:
  assumes law: "hash_insert_law (update_ilog E)" and wf: "log_wf s" and "logged s + lost s + 1 < 2 ^ 64"
  shows "log_wf (register_incident E a sz r s)"
    and "logged (register_incident E a sz r s) + lost (register_incident E a sz r s) = logged s + lost s + 1"
proof -
  let ?s' = "register_incident E a sz r s"
  have "log_wf ?s' \<and> logged ?s' + lost ?s' = logged s + lost s + 1"
    using law
  proof (cases rule: register_incident_cases[of E s a sz r])
    case (logged m)
    have fin: "finite (dom m)" using wf logged(1) by (simp add: log_wf_def)
    have "unat (il_packets (stat_after (m a) r sz)) = (case m a of None \<Rightarrow> 0 | Some e \<Rightarrow> unat (il_packets e)) + 1"
      using assms(3) ilog_sum_entry[OF fin, of a] logged(1)
      by (fastforce simp: stat_after_def logged_def unat_plus_1 split: option.split)
    then have "ilog_sum (m(a \<mapsto> stat_after (m a) r sz)) = ilog_sum m + 1"
      by (rule ilog_sum_update[OF fin])
    moreover have "lost ?s' = lost s" unfolding lost_drop_cnt logged(3) ..
    moreover have "log_events ?s' \<noteq> None" using wf logged(3) by (auto simp: log_wf_def)
    ultimately show ?thesis using fin logged by (auto simp: log_wf_def logged_def)
  next
    case lost
    have "IncidentLog.lost ?s' = IncidentLog.lost s + 1"
      using wf assms(3) lost(2) by (auto simp: lost_drop_cnt log_wf_def unat_plus_1)
    moreover have "log_events ?s' \<noteq> None" using wf lost(2) by (auto simp: log_wf_def)
    ultimately show ?thesis using wf lost(1) by (simp add: log_wf_def logged_def)
  qed
  then show "log_wf ?s'" "logged ?s' + lost ?s' = logged s + lost s + 1" by simp_all
qed

text \<open>A sequence of incidents.\<close>

primrec register_all :: "env \<Rightarrow> (XfwIp \<times> u32 \<times> XfwDropStat) list \<Rightarrow> state \<Rightarrow> state" where
  "register_all E [] s = s"
| "register_all E (x # xs) s = register_all E xs (register_incident E (fst x) (fst (snd x)) (snd (snd x)) s)"

text \<open>
  C11. No drop goes missing: after any sequence of incidents, the packets recorded in the
  active map together with the counted losses have grown by exactly the number of
  incidents, whichever insertions the kernel refused.
\<close>

theorem incidents_conserved:
  assumes "hash_insert_law (update_ilog E)" "log_wf s" "logged s + lost s + length xs < 2 ^ 64"
  shows "logged (register_all E xs s) + lost (register_all E xs s) = logged s + lost s + length xs"
  using assms(2-)
proof (induction xs arbitrary: s)
  case (Cons x xs)
  obtain a sz r where x: "x = (a, sz, r)" by (cases x)
  have "log_wf (register_incident E a sz r s)"
    "logged (register_incident E a sz r s) + lost (register_incident E a sz r s) = logged s + lost s + 1"
    using register_incident_step[OF assms(1) Cons.prems(1)] Cons.prems(2) by simp_all
  then show ?case using Cons.IH Cons.prems(2) x by simp
qed simp

text \<open>Two incidents of one address and one of another, from an empty log.\<close>

theorem incidents_conserved_witness:
  "logged (register_all ref_env
     [(zero_ip, 60, XFW_DROP_ICMP_BLOCKED), (zero_ip, 90, XFW_DROP_DST_BLOCKED),
      (xfw_ipv4_to_ipv6_mapped 7, 40, XFW_DROP_DST_BLOCKED)] (ref_state ref_cfg []))
   + lost (register_all ref_env
     [(zero_ip, 60, XFW_DROP_ICMP_BLOCKED), (zero_ip, 90, XFW_DROP_DST_BLOCKED),
      (xfw_ipv4_to_ipv6_mapped 7, 40, XFW_DROP_DST_BLOCKED)] (ref_state ref_cfg [])) = 3"
proof -
  have "hash_insert_law (update_ilog ref_env)"
    by (auto simp: hash_insert_law_def ref_env_def plain_update_def)
  moreover have "log_wf (ref_state ref_cfg [])" "logged (ref_state ref_cfg []) = 0" "lost (ref_state ref_cfg []) = 0"
    by (simp_all add: log_wf_def ref_state_def logged_def ilog_sum_def lost_def)
  ultimately show ?thesis
    by (subst incidents_conserved) simp_all
qed

end
