(* ===== verification/RateLimiter.thy ===== *)
theory RateLimiter
  imports Ctx
begin

text \<open>
  The sliding-window rate limiter of \<open>bpf/filter.h\<close> and the bounds it guarantees.
\<close>


section \<open>Rate limiter\<close>

text \<open>\<open>bucket->slot[w & 1]\<close>.\<close>

definition get_slot :: "XfwRLimitSlidingWindow \<Rightarrow> u64 \<Rightarrow> XfwRLimitSlot" where
  "get_slot b w = (if w AND 1 \<noteq> 0 then slot1 b else slot0 b)"

definition set_slot :: "XfwRLimitSlidingWindow \<Rightarrow> u64 \<Rightarrow> XfwRLimitSlot \<Rightarrow> XfwRLimitSlidingWindow" where
  "set_slot b w sl = (if w AND 1 \<noteq> 0 then b\<lparr>slot1 := sl\<rparr> else b\<lparr>slot0 := sl\<rparr>)"

definition xfw_is_within_rlimit ::
  "XfwGlobalCtx \<Rightarrow> XfwPacketRate \<Rightarrow> XfwRLimitSlidingWindow \<Rightarrow> bool \<times> XfwRLimitSlidingWindow" where
  "xfw_is_within_rlimit c rate bucket =
    (let shift = unat (rl_shift (rl_window (cfg c)));
         w = drop_bit shift (ts_jiff c);
         offset = ts_jiff c AND ucast (rl_mask (rl_window (cfg c)));
         overlap = ucast (rl_jiffies (rl_window (cfg c))) - offset;
         sz = ucast (pkt_sz c);
         curr = (if window_idx (get_slot bucket w) \<noteq> w
                 then \<lparr>window_idx = w, pkts = 0, bytes = 0\<rparr> else get_slot bucket w);
         bucket = set_slot bucket w curr;
         prev = get_slot bucket (w - 1);
         has_prev = (w \<noteq> 0 \<and> window_idx prev = w - 1);
         prev_pkts = (if has_prev then pkts prev else 0);
         prev_bytes = (if has_prev then bytes prev else 0);
         effective_pkts = pkts curr + drop_bit shift (prev_pkts * overlap);
         effective_bytes = bytes curr + drop_bit shift (prev_bytes * overlap)
     in if rate_packets rate \<le> effective_pkts then (False, bucket)
        else if rate_bytes rate < sz then (False, bucket)
        else if rate_bytes rate - sz < effective_bytes then (False, bucket)
        else (True, set_slot bucket w (curr\<lparr>pkts := pkts curr + 1, bytes := bytes curr + sz\<rparr>)))"


section \<open>Reference definition\<close>

text \<open>
  The limiter in plain arithmetic: with a window of \<open>W\<close> jiffies, the packets of the
  current window plus the share of the previous window that still overlaps the last
  \<open>W\<close> jiffies, rounded down.
\<close>

definition rl_w :: "XfwGlobalCtx \<Rightarrow> u64" where
  "rl_w c = drop_bit (unat (rl_shift (rl_window (cfg c)))) (ts_jiff c)"

definition slot_pkts :: "XfwRLimitSlidingWindow \<Rightarrow> u64 \<Rightarrow> nat" where
  "slot_pkts b w = (if window_idx (get_slot b w) = w then unat (pkts (get_slot b w)) else 0)"

definition slot_bytes :: "XfwRLimitSlidingWindow \<Rightarrow> u64 \<Rightarrow> nat" where
  "slot_bytes b w = (if window_idx (get_slot b w) = w then unat (bytes (get_slot b w)) else 0)"

definition rl_W :: "XfwGlobalCtx \<Rightarrow> nat" where
  "rl_W c = 2 ^ unat (rl_shift (rl_window (cfg c)))"

definition rl_overlap :: "XfwGlobalCtx \<Rightarrow> nat" where
  "rl_overlap c = rl_W c - unat (ts_jiff c) mod rl_W c"

definition rl_weighted :: "XfwGlobalCtx \<Rightarrow> (u64 \<Rightarrow> nat) \<Rightarrow> nat" where
  "rl_weighted c cnt = cnt (rl_w c)
     + ((if rl_w c = 0 then 0 else cnt (rl_w c - 1)) * rl_overlap c) div rl_W c"

definition rl_admits :: "XfwGlobalCtx \<Rightarrow> XfwPacketRate \<Rightarrow> XfwRLimitSlidingWindow \<Rightarrow> bool" where
  "rl_admits c rate b \<longleftrightarrow>
     rl_weighted c (slot_pkts b) + 1 \<le> unat (rate_packets rate) \<and>
     rl_weighted c (slot_bytes b) + unat (pkt_sz c) \<le> unat (rate_bytes rate)"

text \<open>
  The window parameters the manager writes, rates for which
  \<open>rate * window <= UINT64_MAX\<close>, and buckets whose counters are within the rate.
\<close>

definition window_ok :: "XfwRlWindow \<Rightarrow> bool" where
  "window_ok wn \<longleftrightarrow> 1 \<le> rl_shift wn \<and> rl_shift wn < 32 \<and>
     rl_jiffies wn = push_bit (unat (rl_shift wn)) 1 \<and> rl_mask wn = rl_jiffies wn - 1"

definition rate_ok :: "XfwRlWindow \<Rightarrow> XfwPacketRate \<Rightarrow> bool" where
  "rate_ok wn rate \<longleftrightarrow>
     unat (rate_packets rate) * 2 ^ unat (rl_shift wn) < 2 ^ 64 \<and>
     unat (rate_bytes rate) * 2 ^ unat (rl_shift wn) < 2 ^ 64"

definition slot_ok :: "XfwPacketRate \<Rightarrow> XfwRLimitSlot \<Rightarrow> bool" where
  "slot_ok rate sl \<longleftrightarrow> pkts sl \<le> rate_packets rate \<and> bytes sl \<le> rate_bytes rate"

definition bucket_ok :: "XfwPacketRate \<Rightarrow> XfwRLimitSlidingWindow \<Rightarrow> bool" where
  "bucket_ok rate b \<longleftrightarrow> slot_ok rate (slot0 b) \<and> slot_ok rate (slot1 b)"


section \<open>The slots\<close>

lemma parity_minus_1: "((w :: u64) - 1) AND 1 \<noteq> 0 \<longleftrightarrow> \<not> (w AND 1 \<noteq> 0)"
  by (simp add: and_one_eq odd_iff_mod_2_eq_one flip: odd_iff_mod_2_eq_one)

lemma get_set_slot_same [simp]: "get_slot (set_slot b w sl) w = sl"
  by (simp add: get_slot_def set_slot_def)

lemma get_set_slot_prev [simp]: "get_slot (set_slot b w sl) (w - 1) = get_slot b (w - 1)"
  using parity_minus_1[of w] by (auto simp: get_slot_def set_slot_def)

lemma slot_counts_set [simp]:
  "slot_pkts (set_slot b w sl) w = (if window_idx sl = w then unat (pkts sl) else 0)"
  "slot_bytes (set_slot b w sl) w = (if window_idx sl = w then unat (bytes sl) else 0)"
  by (simp_all add: slot_pkts_def slot_bytes_def)

lemma bucket_ok_get: "bucket_ok rate b \<Longrightarrow> slot_ok rate (get_slot b w)"
  by (simp add: bucket_ok_def get_slot_def)

lemma bucket_ok_set: "bucket_ok rate b \<Longrightarrow> slot_ok rate sl \<Longrightarrow> bucket_ok rate (set_slot b w sl)"
  by (simp add: bucket_ok_def set_slot_def)

lemma bucket_ok_reset: "bucket_ok rate reset_window"
  by (simp add: bucket_ok_def reset_window_def zero_slot_def slot_ok_def)


section \<open>The word arithmetic\<close>

lemma unat_and_window_mask:
  assumes "window_ok wn"
  shows "unat (ts AND ucast (rl_mask wn) :: u64) = unat ts mod 2 ^ unat (rl_shift wn)"
proof -
  let ?n = "unat (rl_shift wn)"
  have n: "?n < 32" using assms by (auto simp: window_ok_def word_less_nat_alt)
  have "rl_mask wn = mask ?n"
    using assms by (simp add: window_ok_def mask_eq_exp_minus_1 push_bit_eq_mult)
  then have "(ucast (rl_mask wn) :: u64) = mask ?n"
    using n by (auto intro!: bit_word_eqI simp: bit_ucast_iff bit_mask_iff)
  then have "ts AND ucast (rl_mask wn) = take_bit ?n ts"
    by (simp add: take_bit_eq_mask)
  then show ?thesis by (simp only: unat_take_bit)
qed

lemma unat_window_jiffies:
  assumes "window_ok wn"
  shows "unat (ucast (rl_jiffies wn) :: u64) = 2 ^ unat (rl_shift wn)"
proof -
  have n: "unat (rl_shift wn) < 32" using assms by (auto simp: window_ok_def word_less_nat_alt)
  have "unat (push_bit (unat (rl_shift wn)) (1 :: u32)) = 2 ^ unat (rl_shift wn)"
    unfolding unsigned_push_bit_eq using n by (simp add: push_bit_eq_mult take_bit_nat_eq_self)
  then have "unat (rl_jiffies wn) = 2 ^ unat (rl_shift wn)"
    using assms by (simp add: window_ok_def)
  then show ?thesis using n by (simp add: unsigned_ucast_eq take_bit_nat_eq_self)
qed

lemma unat_overlap:
  assumes "window_ok (rl_window (cfg c))"
  shows "unat (ucast (rl_jiffies (rl_window (cfg c))) - (ts_jiff c AND ucast (rl_mask (rl_window (cfg c)))) :: u64)
     = rl_overlap c"
proof -
  let ?j = "ucast (rl_jiffies (rl_window (cfg c))) :: u64"
  let ?o = "ts_jiff c AND ucast (rl_mask (rl_window (cfg c)))"
  have "unat ?o < unat ?j"
    by (simp add: unat_and_window_mask unat_window_jiffies assms)
  then show ?thesis
    by (simp add: unat_sub word_le_nat_alt unat_and_window_mask unat_window_jiffies assms
        rl_overlap_def rl_W_def)
qed

text \<open>The scaled contribution of the previous window does not overflow.\<close>

lemma unat_weighted:
  assumes "window_ok (rl_window (cfg c))" and rt: "unat r * 2 ^ unat (rl_shift (rl_window (cfg c))) < 2 ^ 64"
    and "p \<le> r" "q \<le> r"
  shows "unat (p + drop_bit (unat (rl_shift (rl_window (cfg c))))
      (q * (ucast (rl_jiffies (rl_window (cfg c))) - (ts_jiff c AND ucast (rl_mask (rl_window (cfg c)))))) :: u64)
    = unat p + unat q * rl_overlap c div rl_W c"
proof -
  let ?n = "unat (rl_shift (rl_window (cfg c)))"
  let ?ov = "ucast (rl_jiffies (rl_window (cfg c))) - (ts_jiff c AND ucast (rl_mask (rl_window (cfg c)))) :: u64"
  have W: "rl_W c = 2 ^ ?n" "rl_overlap c \<le> 2 ^ ?n" by (simp_all add: rl_W_def rl_overlap_def)
  have n: "1 \<le> ?n" using assms(1) by (simp add: window_ok_def word_le_nat_alt)
  have pq: "unat p \<le> unat r" "unat q \<le> unat r" using assms(3,4) by (simp_all add: word_le_nat_alt)
  have "unat q * rl_overlap c \<le> unat r * 2 ^ ?n" using pq(2) W(2) by (rule mult_le_mono)
  then have "unat (q * ?ov) = unat q * rl_overlap c"
    using rt by (subst unat_mult_no_wrap) (simp_all add: unat_overlap assms(1))
  then have d: "unat (drop_bit ?n (q * ?ov)) = unat q * rl_overlap c div rl_W c"
    by (simp add: unat_drop_bit W(1))
  have "unat q * rl_overlap c div 2 ^ ?n \<le> unat q"
    using div_le_mono[OF mult_le_mono2[OF W(2)], of "unat q" "2 ^ ?n"] by simp
  moreover have "2 * unat r \<le> unat r * 2 ^ ?n"
    using n by (cases ?n) simp_all
  ultimately have "unat p + unat (drop_bit ?n (q * ?ov)) < 2 ^ 64"
    unfolding d W(1) using pq rt by linarith
  then show ?thesis by (simp add: unat_add_no_wrap d)
qed


section \<open>What the limiter decides and keeps\<close>

definition cur_slot :: "XfwGlobalCtx \<Rightarrow> XfwRLimitSlidingWindow \<Rightarrow> XfwRLimitSlot" where
  "cur_slot c b = (if window_idx (get_slot b (rl_w c)) \<noteq> rl_w c
     then \<lparr>window_idx = rl_w c, pkts = 0, bytes = 0\<rparr> else get_slot b (rl_w c))"

lemma cur_slot_simps:
  "window_idx (cur_slot c b) = rl_w c" "unat (pkts (cur_slot c b)) = slot_pkts b (rl_w c)"
  "unat (bytes (cur_slot c b)) = slot_bytes b (rl_w c)"
  by (simp_all add: cur_slot_def slot_pkts_def slot_bytes_def)

lemma cur_slot_ok: "bucket_ok rate b \<Longrightarrow> slot_ok rate (cur_slot c b)"
  using bucket_ok_get[of rate b "rl_w c"] by (auto simp: cur_slot_def slot_ok_def)

text \<open>The two weighted counters the code compares with the rate.\<close>

definition rl_effective :: "XfwGlobalCtx \<Rightarrow> (XfwRLimitSlot \<Rightarrow> u64) \<Rightarrow> XfwRLimitSlidingWindow \<Rightarrow> u64" where
  "rl_effective c cnt b = cnt (cur_slot c b) + drop_bit (unat (rl_shift (rl_window (cfg c))))
     ((if rl_w c \<noteq> 0 \<and> window_idx (get_slot b (rl_w c - 1)) = rl_w c - 1
       then cnt (get_slot b (rl_w c - 1)) else 0)
      * (ucast (rl_jiffies (rl_window (cfg c))) - (ts_jiff c AND ucast (rl_mask (rl_window (cfg c))))))"

lemma xfw_is_within_rlimit_code:
  "xfw_is_within_rlimit c rate b =
     (if rate_packets rate \<le> rl_effective c pkts b \<or> rate_bytes rate < ucast (pkt_sz c)
         \<or> rate_bytes rate - ucast (pkt_sz c) < rl_effective c bytes b
      then (False, set_slot b (rl_w c) (cur_slot c b))
      else (True, set_slot b (rl_w c) ((cur_slot c b)\<lparr>pkts := pkts (cur_slot c b) + 1,
              bytes := bytes (cur_slot c b) + ucast (pkt_sz c)\<rparr>)))"
proof -
  have "set_slot (set_slot b w x) w y = set_slot b w y" for w x y by (simp add: set_slot_def)
  then show ?thesis
    by (auto simp only: xfw_is_within_rlimit_def Let_def rl_w_def[symmetric] cur_slot_def[symmetric]
        get_set_slot_prev rl_effective_def if_True if_False simp_thms split: if_splits)
qed

lemma unat_rl_effective:
  assumes "window_ok (rl_window (cfg c))" "rate_ok (rl_window (cfg c)) rate" "bucket_ok rate b"
  shows "unat (rl_effective c pkts b) = rl_weighted c (slot_pkts b)"
    and "unat (rl_effective c bytes b) = rl_weighted c (slot_bytes b)"
proof -
  let ?prev = "get_slot b (rl_w c - 1)"
  have ok: "slot_ok rate (cur_slot c b)" "slot_ok rate ?prev"
    using assms(3) by (simp_all add: cur_slot_ok bucket_ok_get)
  then have le: "pkts (cur_slot c b) \<le> rate_packets rate" "(if x then pkts ?prev else 0) \<le> rate_packets rate"
    "bytes (cur_slot c b) \<le> rate_bytes rate" "(if x then bytes ?prev else 0) \<le> rate_bytes rate" for x
    by (simp_all add: slot_ok_def)
  have rr: "unat (rate_packets rate) * 2 ^ unat (rl_shift (rl_window (cfg c))) < 2 ^ 64"
    "unat (rate_bytes rate) * 2 ^ unat (rl_shift (rl_window (cfg c))) < 2 ^ 64"
    using assms(2) by (simp_all add: rate_ok_def)
  show "unat (rl_effective c pkts b) = rl_weighted c (slot_pkts b)"
    unfolding rl_effective_def unat_weighted[OF assms(1) rr(1) le(1,2)]
    by (auto simp: cur_slot_simps rl_weighted_def slot_pkts_def)
  show "unat (rl_effective c bytes b) = rl_weighted c (slot_bytes b)"
    unfolding rl_effective_def unat_weighted[OF assms(1) rr(2) le(3,4)]
    by (auto simp: cur_slot_simps rl_weighted_def slot_bytes_def)
qed

text \<open>With sound window parameters and rates the decision is the reference one.\<close>

lemma within_rlimit_iff_admits:
  assumes "window_ok (rl_window (cfg c))" "rate_ok (rl_window (cfg c)) rate" "bucket_ok rate b"
  shows "fst (xfw_is_within_rlimit c rate b) \<longleftrightarrow> rl_admits c rate b"
proof -
  have "unat (ucast (pkt_sz c) :: u64) = unat (pkt_sz c)" by (simp add: unat_ucast_up)
  then show ?thesis
    by (auto simp: xfw_is_within_rlimit_code rl_admits_def unat_rl_effective[OF assms, symmetric]
        word_le_nat_alt word_less_nat_alt unat_sub)
qed

lemma within_rlimit_counts:
  assumes "window_ok (rl_window (cfg c))" "rate_ok (rl_window (cfg c)) rate" "bucket_ok rate b"
    and r: "xfw_is_within_rlimit c rate b = (ok, b')"
  shows "bucket_ok rate b'"
    and "slot_pkts b' (rl_w c) = slot_pkts b (rl_w c) + (if ok then 1 else 0)"
    and "slot_bytes b' (rl_w c) = slot_bytes b (rl_w c) + (if ok then unat (pkt_sz c) else 0)"
    and "get_slot b' (rl_w c - 1) = get_slot b (rl_w c - 1)"
proof -
  let ?cur = "cur_slot c b"
  have sz: "unat (ucast (pkt_sz c) :: u64) = unat (pkt_sz c)" by (simp add: unat_ucast_up)
  have sl: "slot_ok rate ?cur" by (rule cur_slot_ok) (rule assms(3))
  show "get_slot b' (rl_w c - 1) = get_slot b (rl_w c - 1)"
    using r by (auto simp: xfw_is_within_rlimit_code split: if_splits)
  have *: "bucket_ok rate b' \<and> slot_pkts b' (rl_w c) = slot_pkts b (rl_w c) + (if ok then 1 else 0)
     \<and> slot_bytes b' (rl_w c) = slot_bytes b (rl_w c) + (if ok then unat (pkt_sz c) else 0)"
  proof (cases ok)
    case False
    then have "b' = set_slot b (rl_w c) ?cur" using r by (auto simp: xfw_is_within_rlimit_code split: if_splits)
    then show ?thesis using False sl assms(3)
      by (simp add: bucket_ok_set cur_slot_simps)
  next
    case True
    then have b': "b' = set_slot b (rl_w c) (?cur\<lparr>pkts := pkts ?cur + 1, bytes := bytes ?cur + ucast (pkt_sz c)\<rparr>)"
      using r by (auto simp: xfw_is_within_rlimit_code split: if_splits)
    have "rl_admits c rate b" using True r within_rlimit_iff_admits[OF assms(1-3)] by simp
    then have le: "slot_pkts b (rl_w c) + 1 \<le> unat (rate_packets rate)"
      "slot_bytes b (rl_w c) + unat (pkt_sz c) \<le> unat (rate_bytes rate)"
      by (auto simp: rl_admits_def rl_weighted_def)
    then have "unat (pkts ?cur + 1) = slot_pkts b (rl_w c) + 1"
      "unat (bytes ?cur + ucast (pkt_sz c)) = slot_bytes b (rl_w c) + unat (pkt_sz c)"
      using unsigned_less[of "rate_packets rate", where ?'a = nat]
        unsigned_less[of "rate_bytes rate", where ?'a = nat]
      by (simp_all add: unat_add_no_wrap cur_slot_simps sz)
    then show ?thesis using True le assms(3) b'
      by (simp add: bucket_ok_set slot_ok_def word_le_nat_alt cur_slot_simps)
  qed
  then show "bucket_ok rate b'" "slot_pkts b' (rl_w c) = slot_pkts b (rl_w c) + (if ok then 1 else 0)"
    "slot_bytes b' (rl_w c) = slot_bytes b (rl_w c) + (if ok then unat (pkt_sz c) else 0)"
    by simp_all
qed


section \<open>Sequences of packets\<close>

text \<open>The decisions for a sequence of packets that meet the same bucket.\<close>

primrec rl_run :: "XfwPacketRate \<Rightarrow> XfwRLimitSlidingWindow \<Rightarrow> XfwGlobalCtx list \<Rightarrow> (XfwGlobalCtx \<times> bool) list" where
  "rl_run rate b [] = []"
| "rl_run rate b (c # cs) =
     (let (ok, b') = xfw_is_within_rlimit c rate b in (c, ok) # rl_run rate b' cs)"

text \<open>The packets admitted while window \<open>w\<close> was current.\<close>

definition admitted_in :: "u64 \<Rightarrow> (XfwGlobalCtx \<times> bool) list \<Rightarrow> XfwGlobalCtx list" where
  "admitted_in w r = map fst (filter (\<lambda>(c, ok). ok \<and> rl_w c = w) r)"

lemma admitted_in_later:
  "\<forall>c \<in> set cs. w < rl_w c \<Longrightarrow> admitted_in w (rl_run rate b cs) = []"
  by (induction cs arbitrary: b) (auto simp: admitted_in_def case_prod_beta)

lemma rl_run_bound:
  assumes "window_ok wn" "rate_ok wn rate" "\<forall>c \<in> set cs. rl_window (cfg c) = wn"
    "sorted (map rl_w cs)" "\<forall>c \<in> set cs. w \<le> rl_w c" "bucket_ok rate b"
  shows "length (admitted_in w (rl_run rate b cs)) + slot_pkts b w \<le> unat (rate_packets rate)
     \<and> sum_list (map (\<lambda>c. unat (pkt_sz c)) (admitted_in w (rl_run rate b cs))) + slot_bytes b w
       \<le> unat (rate_bytes rate)"
  using assms(3-)
proof (induction cs arbitrary: b)
  case Nil
  then show ?case
    using bucket_ok_get[of rate b w]
    by (auto simp: admitted_in_def slot_pkts_def slot_bytes_def slot_ok_def word_le_nat_alt)
next
  case (Cons c cs)
  obtain ok b' where r: "xfw_is_within_rlimit c rate b = (ok, b')" by fastforce
  have ok: "window_ok (rl_window (cfg c))" "rate_ok (rl_window (cfg c)) rate"
    using Cons.prems(1) assms(1,2) by auto
  note b' = within_rlimit_counts[OF ok Cons.prems(4) r]
  show ?case
  proof (cases "rl_w c = w")
    case True
    have "admitted_in w (rl_run rate b (c # cs)) = (if ok then [c] else []) @ admitted_in w (rl_run rate b' cs)"
      using True by (simp add: r admitted_in_def)
    moreover have "length (admitted_in w (rl_run rate b' cs)) + slot_pkts b' w \<le> unat (rate_packets rate)
     \<and> sum_list (map (\<lambda>c. unat (pkt_sz c)) (admitted_in w (rl_run rate b' cs))) + slot_bytes b' w
       \<le> unat (rate_bytes rate)"
      using Cons.IH[of b'] Cons.prems b'(1) by simp
    ultimately show ?thesis using b'(2,3) True by (auto split: if_splits)
  next
    case False
    then have "\<forall>d \<in> set (c # cs). w < rl_w d" using Cons.prems(2,3) by fastforce
    then have "admitted_in w (rl_run rate b (c # cs)) = []" by (rule admitted_in_later)
    then show ?thesis
      using bucket_ok_get[OF Cons.prems(4), of w]
      by (auto simp: slot_pkts_def slot_bytes_def slot_ok_def word_le_nat_alt)
  qed
qed

lemma rl_run_bound_any:
  assumes "window_ok wn" "rate_ok wn rate" "\<forall>c \<in> set cs. rl_window (cfg c) = wn"
    "sorted (map rl_w cs)" "bucket_ok rate b"
  shows "length (admitted_in w (rl_run rate b cs)) \<le> unat (rate_packets rate)
     \<and> sum_list (map (\<lambda>c. unat (pkt_sz c)) (admitted_in w (rl_run rate b cs))) \<le> unat (rate_bytes rate)"
  using assms(3-)
proof (induction cs arbitrary: b)
  case (Cons c cs)
  show ?case
  proof (cases "rl_w c < w")
    case True
    obtain ok b' where r: "xfw_is_within_rlimit c rate b = (ok, b')" by fastforce
    have "bucket_ok rate b'"
      using within_rlimit_counts(1)[OF _ _ Cons.prems(3) r] Cons.prems(1) assms(1,2) by simp
    moreover have "admitted_in w (rl_run rate b (c # cs)) = admitted_in w (rl_run rate b' cs)"
      using True by (auto simp: r admitted_in_def)
    ultimately show ?thesis using Cons by simp
  next
    case False
    then have "\<forall>d \<in> set (c # cs). w \<le> rl_w d" using Cons.prems(2) by fastforce
    then show ?thesis using rl_run_bound[OF assms(1,2) Cons.prems(1,2) _ Cons.prems(3), of w] by linarith
  qed
qed (simp add: admitted_in_def)


section \<open>Properties\<close>

text \<open>
  C1. The limiter's shifts and masks compute the sliding window: a packet is admitted
  exactly if the packets of the current window plus the rounded-down share of the previous
  window that still overlaps leave room for it, in packets and in bytes. The window is a
  power of two of at least two jiffies, rate times window fits 64 bits, and the counters
  are within the rate, as they are from a zeroed bucket on.
\<close>

theorem rlimit_decides_sliding_window:
  assumes "window_ok (rl_window (cfg c))" "rate_ok (rl_window (cfg c)) rate" "bucket_ok rate b"
  shows "fst (xfw_is_within_rlimit c rate b) \<longleftrightarrow>
      rl_weighted c (slot_pkts b) + 1 \<le> unat (rate_packets rate) \<and>
      rl_weighted c (slot_bytes b) + unat (pkt_sz c) \<le> unat (rate_bytes rate)"
  using within_rlimit_iff_admits[OF assms] by (simp add: rl_admits_def)

text \<open>A quarter into window 3906, after 8 packets in window 3905 and 2 in this one.\<close>

theorem rlimit_decides_sliding_window_witness:
  "fst (xfw_is_within_rlimit (ref_ctx 1000000 100) \<lparr>rate_packets = 10, rate_bytes = 1000\<rparr>
     \<lparr>slot0 = \<lparr>window_idx = 3906, pkts = 2, bytes = 200\<rparr>,
      slot1 = \<lparr>window_idx = 3905, pkts = 8, bytes = 800\<rparr>\<rparr>)"
proof -
  let ?r = "\<lparr>rate_packets = 10, rate_bytes = 1000\<rparr>"
  have "window_ok (rl_window (cfg (ref_ctx 1000000 100)))"
    "rate_ok (rl_window (cfg (ref_ctx 1000000 100))) ?r"
    by (simp_all add: window_ok_def rate_ok_def ref_ctx_def ref_cfg_def)
  moreover have "bucket_ok ?r \<lparr>slot0 = \<lparr>window_idx = 3906, pkts = 2, bytes = 200\<rparr>,
      slot1 = \<lparr>window_idx = 3905, pkts = 8, bytes = 800\<rparr>\<rparr>"
    by (simp add: bucket_ok_def slot_ok_def)
  ultimately show ?thesis
    by (subst rlimit_decides_sliding_window) 
      (simp_all add: rl_weighted_def rl_w_def rl_overlap_def rl_W_def slot_pkts_def slot_bytes_def
        get_slot_def ref_ctx_def ref_cfg_def)
qed




end
