(* ===== verification/PacketFilter.thy ===== *)
theory PacketFilter
  imports IncidentLog RateLimiter
begin

text \<open>
  The shared machinery of the filters from \<open>bpf/filter.h\<close>: the statistics counters,
  the macros that produce verdicts, the \<open>CHAIN\<close> combinator, the evaluation mode, the
  rate limit lookup and the trie keys, and the accounting contract every filter keeps.
\<close>


section \<open>Statistics and verdicts\<close>

definition bump_stat :: "u32 \<Rightarrow> XfwPacketStats \<Rightarrow> XfwPacketStats" where
  "bump_stat sz p = \<lparr>ps_packets = ps_packets p + 1, ps_bytes = ps_bytes p + ucast sz\<rparr>"

definition count_traffic_stat :: "XfwGlobalCtx \<Rightarrow> XfwTrafficStat \<Rightarrow> state \<Rightarrow> state" where
  "count_traffic_stat c reason s =
     s\<lparr>g_stats := map_option (\<lambda>g. g\<lparr>st_traffic := (st_traffic g)
        (reason := bump_stat (pkt_sz c) (st_traffic g reason))\<rparr>) (g_stats s)\<rparr>"

definition count_pass_stat :: "XfwGlobalCtx \<Rightarrow> XfwPassStat \<Rightarrow> state \<Rightarrow> state" where
  "count_pass_stat c reason s =
     s\<lparr>g_stats := map_option (\<lambda>g. g\<lparr>st_pass := (st_pass g)
        (reason := bump_stat (pkt_sz c) (st_pass g reason))\<rparr>) (g_stats s)\<rparr>"

definition count_tx_stat :: "XfwGlobalCtx \<Rightarrow> XfwTxStat \<Rightarrow> state \<Rightarrow> state" where
  "count_tx_stat c reason s =
     s\<lparr>g_stats := map_option (\<lambda>g. g\<lparr>st_transmitted := (st_transmitted g)
        (reason := bump_stat (pkt_sz c) (st_transmitted g reason))\<rparr>) (g_stats s)\<rparr>"

text \<open>\<open>XFW_MAKE_CTX_DROP\<close> and its \<open>_EXT\<close> variant differ in the debug message only.\<close>

definition XFW_MAKE_CTX_DROP :: "env \<Rightarrow> XfwGlobalCtx \<Rightarrow> XfwDropStat \<Rightarrow> state \<Rightarrow> verdict \<times> state" where
  "XFW_MAKE_CTX_DROP E c reason s =
     (XFW_CTX_DROP, register_incident E (ilog_addr c) (pkt_sz c) reason s)"

definition XFW_MAKE_CTX_PASS :: "XfwGlobalCtx \<Rightarrow> XfwPassStat \<Rightarrow> state \<Rightarrow> verdict \<times> state" where
  "XFW_MAKE_CTX_PASS c reason s = (XFW_CTX_PASS, count_pass_stat c reason s)"

definition MAKE_XDP_TX :: "XfwGlobalCtx \<Rightarrow> XfwTxStat \<Rightarrow> state \<Rightarrow> verdict \<times> state" where
  "MAKE_XDP_TX c reason s = (XDP_TX, count_tx_stat c reason s)"

definition XFW_ASSERT :: "bool \<Rightarrow> XfwGlobalCtx \<Rightarrow> state \<Rightarrow> (unit \<Rightarrow> verdict \<times> state) \<Rightarrow> verdict \<times> state" where
  "XFW_ASSERT v c s k = (if v then k () else XFW_MAKE_CTX_PASS c XFW_ASSERT_FAILED s)"

definition CHAIN :: "verdict \<times> state \<Rightarrow> (state \<Rightarrow> verdict \<times> state) \<Rightarrow> verdict \<times> state" where
  "CHAIN r k = (if fst r \<noteq> XFW_CTX_CONTINUE then r else k (snd r))"

definition finalize_result :: "XfwGlobalCtx \<Rightarrow> verdict \<Rightarrow> verdict" where
  "finalize_result c code =
     (if code = XFW_CTX_DROP \<and> evaluation_mode (rules (cfg c)) then XFW_CTX_PASS else code)"


section \<open>Rate limits and tries\<close>

definition xfw_is_allowed_by_rlimits ::
  "XfwGlobalCtx \<Rightarrow> XfwRLimitRule option \<Rightarrow> state \<Rightarrow> bool \<times> state" where
  "xfw_is_allowed_by_rlimits c rule s =
     (case rule of
        None \<Rightarrow> (True, s)
      | Some r \<Rightarrow>
          if \<not> unat (bucket_idx r) < XFW_MAX_RATE_LIMITER_BUCKETS then (True, s)
          else if \<not> rl_named_idx r < XFW_MAX_NAMED_RATELIMITS then (True, s)
          else (let (ok, b) = xfw_is_within_rlimit c (named_rates (cfg c) (rl_named_idx r))
                                (ratelimit s (bucket_idx r))
                in (ok, s\<lparr>ratelimit := (ratelimit s)(bucket_idx r := b)\<rparr>)))"

text \<open>
  \<open>XFW_MAP_LOOKUP_OR_INIT\<close> of \<open>xdp.c\<close>: the element, if there is one afterwards, and
  the map.
\<close>

definition XFW_MAP_LOOKUP_OR_INIT ::
  "(('k \<rightharpoonup> 'v) \<Rightarrow> 'k \<Rightarrow> 'v \<Rightarrow> int \<times> ('k \<rightharpoonup> 'v)) \<Rightarrow> ('k \<rightharpoonup> 'v) \<Rightarrow> 'k \<Rightarrow> 'v \<Rightarrow> 'v option \<times> ('k \<rightharpoonup> 'v)"
  where
  "XFW_MAP_LOOKUP_OR_INIT upd m k z =
     (case m k of
        Some v \<Rightarrow> (Some v, m)
      | None \<Rightarrow> (let m' = snd (upd m k z) in (m' k, m')))"

text \<open>The union \<open>XfwIpLpmKey\<close>; each lookup reads the member of its own trie.\<close>

record XfwIpLpmKey =
  key4 :: XfwIpv4LpmKey
  key6 :: XfwIpv6LpmKey

definition zero_lpm_key :: XfwIpLpmKey where
  "zero_lpm_key = \<lparr>key4 = \<lparr>prefixlen4 = 0, addr4 = 0\<rparr>, key6 = \<lparr>prefixlen6 = 0, addr6 = zero_ip\<rparr>\<rparr>"

definition ipv4_populate_lpm_key :: "u32 \<Rightarrow> XfwIpv4LpmKey" where
  "ipv4_populate_lpm_key a = \<lparr>prefixlen4 = 32, addr4 = a\<rparr>"

definition ipv6_populate_lpm_key :: "XfwIp \<Rightarrow> XfwIpv6LpmKey" where
  "ipv6_populate_lpm_key a = \<lparr>prefixlen6 = 128, addr6 = a\<rparr>"

text \<open>\<open>bpf_map_lookup_elem\<close> on a trie: the value stored under the key it finds.\<close>

definition lpm4_lookup :: "env \<Rightarrow> (XfwIpv4LpmKey \<times> 'v) list \<Rightarrow> XfwIpv4LpmKey \<Rightarrow> 'v option" where
  "lpm4_lookup E t q = Option.bind (lpm4 E (map fst t) q) (map_of t)"

definition lpm6_lookup :: "env \<Rightarrow> (XfwIpv6LpmKey \<times> 'v) list \<Rightarrow> XfwIpv6LpmKey \<Rightarrow> 'v option" where
  "lpm6_lookup E t q = Option.bind (lpm6 E (map fst t) q) (map_of t)"


section \<open>The accounting contract of a filter\<close>

text \<open>
  What a filter must do to the shared state, whatever it decides. It never touches the
  rule maps or the packet's length. A drop registers exactly one incident and no other
  verdict registers any. A verdict other than PASS counts no pass reason and PASS counts
  at most one; TX counts one transmission and no other verdict does. The totals that the
  entry points keep are left to them.
\<close>

definition logs where
  "logs s = (ilog_map s, ilog_hint s, log_events s, log_ev_cnt s)"

definition entry_stats :: "XfwTrafficStat set" where
  "entry_stats = {XFW_TOTAL_DOWNSTREAM_INGRESS, XFW_PASSED_DOWNSTREAM_INGRESS,
     XFW_TOTAL_UPSTREAM_EGRESS, XFW_PASSED_UPSTREAM_EGRESS,
     XFW_TOTAL_DOWNSTREAM_EGRESS, XFW_PASSED_DOWNSTREAM_EGRESS}"

definition bumped :: "u32 \<Rightarrow> 'r \<Rightarrow> ('r \<Rightarrow> XfwPacketStats) \<Rightarrow> 'r \<Rightarrow> XfwPacketStats" where
  "bumped sz r f = f(r := bump_stat sz (f r))"

definition accounted :: "env \<Rightarrow> u32 \<Rightarrow> state \<Rightarrow> verdict \<times> state \<Rightarrow> bool" where
  "accounted E sz s r \<longleftrightarrow> (case r of (v, s') \<Rightarrow>
     ro s' = ro s \<and> length (pkt s') = length (pkt s) \<and>
     (if v = XFW_CTX_DROP then \<exists>a n reason. logs s' = logs (register_incident E a n reason s)
      else logs s' = logs s) \<and>
     (map_option st_pass (g_stats s') = map_option st_pass (g_stats s) \<or>
      v = XFW_CTX_PASS \<and>
        (\<exists>r. map_option st_pass (g_stats s') = map_option (\<lambda>g. bumped sz r (st_pass g)) (g_stats s))) \<and>
     map_option st_transmitted (g_stats s') =
       map_option (\<lambda>g. if v = XDP_TX then bumped sz XFW_SYNCOOKIE_GENERATED (st_transmitted g)
                       else st_transmitted g) (g_stats s) \<and>
     (\<forall>r \<in> entry_stats. map_option (\<lambda>g. st_traffic g r) (g_stats s')
        = map_option (\<lambda>g. st_traffic g r) (g_stats s)))"

text \<open>A change of the state that accounts for nothing.\<close>

definition silent :: "state \<Rightarrow> state \<Rightarrow> bool" where
  "silent s s' \<longleftrightarrow> ro s' = ro s \<and> length (pkt s') = length (pkt s) \<and> logs s' = logs s \<and>
     map_option st_pass (g_stats s') = map_option st_pass (g_stats s) \<and>
     map_option st_transmitted (g_stats s') = map_option st_transmitted (g_stats s) \<and>
     (\<forall>r \<in> entry_stats. map_option (\<lambda>g. st_traffic g r) (g_stats s')
        = map_option (\<lambda>g. st_traffic g r) (g_stats s))"

named_theorems acc_intros
named_theorems silent_intros


lemma logs_register_cong:
  assumes "logs s1 = logs s2"
  shows "logs (register_incident E a n r s1) = logs (register_incident E a n r s2)"
  using assms
  by (simp add: logs_def register_incident_def Let_def case_prod_beta update_map_info_def
      push_swap_event_def push_swap_event_and_update_drop_cnt_def update_drop_cnt_def
      split: option.split)

lemma count_traffic_frame [simp]:
  "ro (count_traffic_stat c r s) = ro s"
  "pkt (count_traffic_stat c r s) = pkt s"
  "ratelimit (count_traffic_stat c r s) = ratelimit s"
  "src_ratelim (count_traffic_stat c r s) = src_ratelim s"
  "src_port_rl (count_traffic_stat c r s) = src_port_rl s"
  "tcp_conn (count_traffic_stat c r s) = tcp_conn s"
  "syncookies (count_traffic_stat c r s) = syncookies s"
  "dns_egr (count_traffic_stat c r s) = dns_egr s"
  "meta (count_traffic_stat c r s) = meta s"
  "logs (count_traffic_stat c r s) = logs s"
  by (simp_all add: count_traffic_stat_def logs_def)

lemma count_pass_frame [simp]:
  "ro (count_pass_stat c r s) = ro s"
  "pkt (count_pass_stat c r s) = pkt s"
  "ratelimit (count_pass_stat c r s) = ratelimit s"
  "src_ratelim (count_pass_stat c r s) = src_ratelim s"
  "src_port_rl (count_pass_stat c r s) = src_port_rl s"
  "tcp_conn (count_pass_stat c r s) = tcp_conn s"
  "syncookies (count_pass_stat c r s) = syncookies s"
  "dns_egr (count_pass_stat c r s) = dns_egr s"
  "meta (count_pass_stat c r s) = meta s"
  "logs (count_pass_stat c r s) = logs s"
  by (simp_all add: count_pass_stat_def logs_def)

lemma count_tx_frame [simp]:
  "ro (count_tx_stat c r s) = ro s"
  "pkt (count_tx_stat c r s) = pkt s"
  "ratelimit (count_tx_stat c r s) = ratelimit s"
  "src_ratelim (count_tx_stat c r s) = src_ratelim s"
  "src_port_rl (count_tx_stat c r s) = src_port_rl s"
  "tcp_conn (count_tx_stat c r s) = tcp_conn s"
  "syncookies (count_tx_stat c r s) = syncookies s"
  "dns_egr (count_tx_stat c r s) = dns_egr s"
  "meta (count_tx_stat c r s) = meta s"
  "logs (count_tx_stat c r s) = logs s"
  by (simp_all add: count_tx_stat_def logs_def)

lemma logs_frame [simp]:
  "logs (s\<lparr>g_stats := x\<rparr>) = logs s" "logs (s\<lparr>ratelimit := rl\<rparr>) = logs s"
  "logs (s\<lparr>src_ratelim := sr\<rparr>) = logs s" "logs (s\<lparr>src_port_rl := sp\<rparr>) = logs s"
  "logs (s\<lparr>tcp_conn := tc\<rparr>) = logs s" "logs (s\<lparr>syncookies := sc\<rparr>) = logs s"
  "logs (s\<lparr>dns_egr := de\<rparr>) = logs s" "logs (s\<lparr>pkt := p\<rparr>) = logs s" "logs (s\<lparr>meta := md\<rparr>) = logs s"
  by (simp_all add: logs_def)

text \<open>Silent changes.\<close>

lemma silent_refl [silent_intros]: "silent s s"
  by (simp add: silent_def)

lemma silent_trans: "silent s1 s2 \<Longrightarrow> silent s2 s3 \<Longrightarrow> silent s1 s3"
  by (simp add: silent_def)

lemma silent_updates [silent_intros]:
  "silent s (s\<lparr>ratelimit := rl\<rparr>)" "silent s (s\<lparr>src_ratelim := sr\<rparr>)"
  "silent s (s\<lparr>src_port_rl := sp\<rparr>)" "silent s (s\<lparr>tcp_conn := tc\<rparr>)"
  "silent s (s\<lparr>syncookies := sc\<rparr>)" "silent s (s\<lparr>dns_egr := de\<rparr>)" "silent s (s\<lparr>meta := md\<rparr>)"
  by (simp_all add: silent_def)

lemma silent_pkt [silent_intros]: "length p = length (pkt s) \<Longrightarrow> silent s (s\<lparr>pkt := p\<rparr>)"
  by (simp add: silent_def)

lemma silent_count_traffic [silent_intros]: "r \<notin> entry_stats \<Longrightarrow> silent s (count_traffic_stat c r s)"
  by (cases "g_stats s") (auto simp: silent_def count_traffic_stat_def)

lemma silent_rlimits [silent_intros]: "silent s (snd (xfw_is_allowed_by_rlimits c r s))"
  by (auto simp: xfw_is_allowed_by_rlimits_def case_prod_beta split: option.split
      intro: silent_intros)

text \<open>Accounted results.\<close>

lemma accounted_continue: "accounted E sz s (XFW_CTX_CONTINUE, s') \<longleftrightarrow> silent s s'"
  by (auto simp: accounted_def silent_def)

lemma accounted_pass [acc_intros]: "silent s s' \<Longrightarrow> accounted E sz s (XFW_CTX_PASS, s')"
  by (simp add: accounted_def silent_def)

lemma accounted_continue_refl [acc_intros]: "accounted E sz s (XFW_CTX_CONTINUE, s)"
  by (simp add: accounted_continue silent_refl)

lemma accounted_drop [acc_intros]: "accounted E sz s (XFW_MAKE_CTX_DROP E c reason s)"
  by (auto simp: accounted_def XFW_MAKE_CTX_DROP_def)

lemma accounted_make_pass [acc_intros]:
  "pkt_sz c = sz \<Longrightarrow> accounted E sz s (XFW_MAKE_CTX_PASS c reason s)"
  by (cases "g_stats s") (auto simp: accounted_def XFW_MAKE_CTX_PASS_def count_pass_stat_def bumped_def)

lemma accounted_tx [acc_intros]:
  "pkt_sz c = sz \<Longrightarrow> accounted E sz s (MAKE_XDP_TX c XFW_SYNCOOKIE_GENERATED s)"
  by (cases "g_stats s") (auto simp: accounted_def MAKE_XDP_TX_def count_tx_stat_def bumped_def)

lemma accounted_silent_trans:
  assumes "silent s s1" "accounted E sz s1 r"
  shows "accounted E sz s r"
proof -
  have l: "logs s1 = logs s" and p: "map_option st_pass (g_stats s1) = map_option st_pass (g_stats s)"
    and t: "map_option st_transmitted (g_stats s1) = map_option st_transmitted (g_stats s)"
    using assms(1) by (simp_all add: silent_def)
  have "logs (register_incident E a n r s1) = logs (register_incident E a n r s)" for a n r
    by (rule logs_register_cong) (rule l)
  moreover have "map_option (\<lambda>g. bumped sz r (st_pass g)) (g_stats s1)
      = map_option (\<lambda>g. bumped sz r (st_pass g)) (g_stats s)" for r
    using arg_cong[OF p, of "map_option (bumped sz r)"] by (simp add: option.map_comp comp_def)
  moreover have "map_option (\<lambda>g. bumped sz r (st_transmitted g)) (g_stats s1)
      = map_option (\<lambda>g. bumped sz r (st_transmitted g)) (g_stats s)" for r
    using arg_cong[OF t, of "map_option (bumped sz r)"] by (simp add: option.map_comp comp_def)
  ultimately show ?thesis
    using assms l by (cases r; cases "fst r = XDP_TX") (auto simp: accounted_def silent_def)
qed

lemma accounted_chain [acc_intros]:
  assumes "accounted E sz s r" "\<And>s1. accounted E sz s1 (k s1)"
  shows "accounted E sz s (CHAIN r k)"
proof (cases r)
  case (Pair v s1)
  then show ?thesis
    using assms accounted_silent_trans[of s s1 E sz "k s1"] by (auto simp: CHAIN_def accounted_continue)
qed

lemma accounted_assert [acc_intros]:
  "pkt_sz c = sz \<Longrightarrow> (v \<Longrightarrow> accounted E sz s (k ())) \<Longrightarrow> accounted E sz s (XFW_ASSERT v c s k)"
  by (simp add: XFW_ASSERT_def accounted_make_pass)

lemma accounted_if [acc_intros]:
  "(b \<Longrightarrow> accounted E sz s r1) \<Longrightarrow> (\<not> b \<Longrightarrow> accounted E sz s r2) \<Longrightarrow>
     accounted E sz s (if b then r1 else r2)"
  by simp

lemma accounted_option [acc_intros]:
  "(x = None \<Longrightarrow> accounted E sz s r) \<Longrightarrow> (\<And>y. x = Some y \<Longrightarrow> accounted E sz s (f y)) \<Longrightarrow>
     accounted E sz s (case x of None \<Rightarrow> r | Some y \<Rightarrow> f y)"
  by (cases x) simp_all

lemma accounted_count_traffic:
  "r \<notin> entry_stats \<Longrightarrow> accounted E sz (count_traffic_stat c r s) x \<Longrightarrow> accounted E sz s x"
  by (rule accounted_silent_trans[OF silent_count_traffic])

lemma accounted_rlimits [acc_intros]:
  "accounted E sz s
     (let (ok, s1) = xfw_is_allowed_by_rlimits c rule s
      in if ok then (XFW_CTX_CONTINUE, s1) else XFW_MAKE_CTX_DROP E c reason s1)"
proof -
  have "silent s (snd (xfw_is_allowed_by_rlimits c rule s))" by (rule silent_rlimits)
  then show ?thesis
    by (auto simp: case_prod_beta accounted_continue intro: accounted_silent_trans accounted_drop)
qed

text \<open>The contract as an interface: what the entry points may rely on for every filter.\<close>

locale packet_filter =
  fixes E :: env and sz :: u32 and flt :: "state \<Rightarrow> verdict \<times> state"
  assumes flt_accounted: "accounted E sz s (flt s)"
begin

lemma flt_ro: "ro (snd (flt s)) = ro s"
  using flt_accounted[of s] by (simp add: accounted_def case_prod_beta)

lemma flt_len: "length (pkt (snd (flt s))) = length (pkt s)"
  using flt_accounted[of s] by (simp add: accounted_def case_prod_beta)

lemma flt_entry_stats:
  "r \<in> entry_stats \<Longrightarrow>
     map_option (\<lambda>g. st_traffic g r) (g_stats (snd (flt s))) = map_option (\<lambda>g. st_traffic g r) (g_stats s)"
  using flt_accounted[of s] by (simp add: accounted_def case_prod_beta)

lemma flt_drop_logged:
  "fst (flt s) = XFW_CTX_DROP \<Longrightarrow>
     \<exists>a n reason. logs (snd (flt s)) = logs (register_incident E a n reason s)"
  using flt_accounted[of s] by (simp add: accounted_def case_prod_beta)

lemma flt_not_drop_silent: "fst (flt s) \<noteq> XFW_CTX_DROP \<Longrightarrow> logs (snd (flt s)) = logs s"
  using flt_accounted[of s] by (simp add: accounted_def case_prod_beta)

end

text \<open>Filters in sequence are a filter.\<close>

locale filter_chain = fst: packet_filter E sz flt + snd: packet_filter E sz flt'
  for E sz flt flt'
begin

lemma chain_accounted: "accounted E sz s (CHAIN (flt s) flt')"
  by (rule accounted_chain) (rule fst.flt_accounted, rule snd.flt_accounted)

end

sublocale filter_chain \<subseteq> chain: packet_filter E sz "\<lambda>s. CHAIN (flt s) flt'"
  by unfold_locales (rule chain_accounted)

end
