(* ===== verification/SrcFilter.thy ===== *)
theory SrcFilter
  imports PacketFilter
begin

text \<open>
  The rule filters of \<open>bpf/xdp.c\<close>: ICMP rules, source address and source port rules,
  and the SYN and RST rate limits. A rule in the active copy of a map decides before the
  default action does; a source rule that allows ends the processing with PASS.
\<close>


section \<open>ICMP\<close>

definition icmp_default_by_proto :: "u8 \<Rightarrow> DefaultIndex" where
  "icmp_default_by_proto proto =
     (if proto = XFW_L4_PROTO_ICMP then XFW_DEFAULT_ICMP_IP4 else XFW_DEFAULT_ICMP_IP6)"

definition icmp_filter :: "env \<Rightarrow> XfwGlobalCtx \<Rightarrow> XfwIcmpKey \<Rightarrow> state \<Rightarrow> verdict \<times> state" where
  "icmp_filter E c key s =
     (case SELECT_SHADOW_MAP (map_icmp (ro s)) (amap_icmp (cfg c)) key of
        None \<Rightarrow>
          (let default_rule = defaults (rules (cfg c)) (icmp_default_by_proto (icmp_proto key)) in
           if action default_rule = XFW_ACTION_BLOCK
           then XFW_MAKE_CTX_DROP E c XFW_DROP_ICMP_DEFAULT_BLOCKED s
           else if action default_rule = XFW_ACTION_ALLOW then (XFW_CTX_CONTINUE, s)
           else XFW_ASSERT (action default_rule = XFW_ACTION_RATE_LIMIT) c s (\<lambda>_.
             let (ok, s1) = xfw_is_allowed_by_rlimits c (Some (rlimit default_rule)) s
             in if ok then (XFW_CTX_CONTINUE, s1)
                else XFW_MAKE_CTX_DROP E c XFW_DROP_ICMP_DEFAULT_RATE_LIMITED s1))
      | Some rule \<Rightarrow>
          if action rule = XFW_ACTION_BLOCK then XFW_MAKE_CTX_DROP E c XFW_DROP_ICMP_BLOCKED s
          else if action rule = XFW_ACTION_ALLOW then (XFW_CTX_CONTINUE, s)
          else XFW_ASSERT (action rule = XFW_ACTION_RATE_LIMIT) c s (\<lambda>_.
            let (ok, s1) = xfw_is_allowed_by_rlimits c (Some (rlimit rule)) s
            in if ok then (XFW_CTX_CONTINUE, s1)
               else XFW_MAKE_CTX_DROP E c XFW_DROP_ICMP_RATE_LIMITED s1))"


section \<open>Source ports\<close>

definition src_port_default_by_protos :: "u16 \<Rightarrow> u8 \<Rightarrow> DefaultIndex" where
  "src_port_default_by_protos ver proto =
     (if ver = bpf_ntohs ETH_P_IP
      then if proto = XFW_L4_PROTO_TCP then XFW_DEFAULT_SRC_PORT_TCP_IP4
           else XFW_DEFAULT_SRC_PORT_UDP_IP4
      else if proto = XFW_L4_PROTO_TCP then XFW_DEFAULT_SRC_PORT_TCP_IP6
           else XFW_DEFAULT_SRC_PORT_UDP_IP6)"

text \<open>The rate limit of a source port: its bucket is created on first use.\<close>

definition src_port_rlimit ::
  "env \<Rightarrow> XfwGlobalCtx \<Rightarrow> u16 \<Rightarrow> u8 \<Rightarrow> XfwDropStat \<Rightarrow> state \<Rightarrow> verdict \<times> state" where
  "src_port_rlimit E c port idx reason s =
     (let (b, m) = XFW_MAP_LOOKUP_OR_INIT (update_src_port_rl E) (src_port_rl s) port reset_window;
          s1 = s\<lparr>src_port_rl := m\<rparr>
      in case b of
           None \<Rightarrow> XFW_MAKE_CTX_PASS c XFW_ASSERT_FAILED s1
         | Some w \<Rightarrow> XFW_ASSERT (idx < XFW_MAX_NAMED_RATELIMITS) c s1 (\<lambda>_.
             let (ok, w') = xfw_is_within_rlimit c (named_rates (cfg c) idx) w;
                 s2 = s1\<lparr>src_port_rl := m(port \<mapsto> w')\<rparr>
             in if ok then (XFW_CTX_CONTINUE, s2) else XFW_MAKE_CTX_DROP E c reason s2))"

definition src_filter_port :: "env \<Rightarrow> XfwGlobalCtx \<Rightarrow> u16 \<Rightarrow> state \<Rightarrow> verdict \<times> state" where
  "src_filter_port E c port s =
     (case (if l4_proto c = XFW_L4_PROTO_UDP
            then SELECT_SHADOW_MAP (map_src_p_udp (ro s)) (amap_src (cfg c)) port
            else SELECT_SHADOW_MAP (map_src_p_tcp (ro s)) (amap_src (cfg c)) port) of
        None \<Rightarrow>
          (let default_rule = defaults (rules (cfg c)) (src_port_default_by_protos (ipver c) (l4_proto c)) in
           if action default_rule = XFW_ACTION_BLOCK
           then XFW_MAKE_CTX_DROP E c XFW_DROP_SRC_PORT_DEFAULT_BLOCKED s
           else if action default_rule = XFW_ACTION_ALLOW then (XFW_CTX_CONTINUE, s)
           else XFW_ASSERT (action default_rule = XFW_ACTION_RATE_LIMIT) c s (\<lambda>_.
             src_port_rlimit E c port (rl_named_idx (rlimit default_rule))
               XFW_DROP_SRC_PORT_DEFAULT_RATE_LIMITED s))
      | Some rule \<Rightarrow>
          if sr_action rule = XFW_ACTION_BLOCK then XFW_MAKE_CTX_DROP E c XFW_DROP_SRC_PORT_BLOCKED s
          else if sr_action rule = XFW_ACTION_ALLOW then XFW_MAKE_CTX_PASS c XFW_SRC_PORT_ALLOWED s
          else XFW_ASSERT (sr_action rule = XFW_ACTION_RATE_LIMIT) c s (\<lambda>_.
            src_port_rlimit E c port (sr_named_idx rule) XFW_DROP_SRC_PORT_RATE_LIMITED s))"


section \<open>Source addresses\<close>

text \<open>\<open>populate_src_info\<close>: the rule the selected trie holds for the key, and the default.\<close>

definition populate_src_info ::
  "env \<Rightarrow> XfwGlobalCtx \<Rightarrow> XfwIpLpmKey \<Rightarrow> state \<Rightarrow> XfwSrcRule option \<times> DefaultIndex" where
  "populate_src_info E c key s =
     (if ipver c = bpf_htons ETH_P_IPV6
      then if l4_proto c = XFW_L4_PROTO_UDP
           then (lpm6_lookup E (SELECT_SHADOW_MAP (map_src_6_udp (ro s)) (amap_src (cfg c))) (key6 key),
                 XFW_DEFAULT_SRC_IP_UDP_IP6)
           else (lpm6_lookup E (SELECT_SHADOW_MAP (map_src_6_tcp (ro s)) (amap_src (cfg c))) (key6 key),
                 XFW_DEFAULT_SRC_IP_TCP_IP6)
      else if l4_proto c = XFW_L4_PROTO_UDP
           then (lpm4_lookup E (SELECT_SHADOW_MAP (map_src_4_udp (ro s)) (amap_src (cfg c))) (key4 key),
                 XFW_DEFAULT_SRC_IP_UDP_IP4)
           else (lpm4_lookup E (SELECT_SHADOW_MAP (map_src_4_tcp (ro s)) (amap_src (cfg c))) (key4 key),
                 XFW_DEFAULT_SRC_IP_TCP_IP4))"

text \<open>The rate limit of a source address, in the LRU map of buckets by address.\<close>

definition src_ip_rlimit :: "env \<Rightarrow> XfwGlobalCtx \<Rightarrow> u8 \<Rightarrow> XfwDropStat \<Rightarrow> state \<Rightarrow> verdict \<times> state" where
  "src_ip_rlimit E c idx reason s =
     (let (b, m) = XFW_MAP_LOOKUP_OR_INIT (update_src_ratelim E) (src_ratelim s) (ilog_addr c) reset_window;
          s1 = s\<lparr>src_ratelim := m\<rparr>
      in case b of
           None \<Rightarrow> XFW_MAKE_CTX_PASS c XFW_ASSERT_FAILED s1
         | Some w \<Rightarrow> XFW_ASSERT (idx < XFW_MAX_NAMED_RATELIMITS) c s1 (\<lambda>_.
             let (ok, w') = xfw_is_within_rlimit c (named_rates (cfg c) idx) w;
                 s2 = s1\<lparr>src_ratelim := m(ilog_addr c \<mapsto> w')\<rparr>
             in if ok then (XFW_CTX_CONTINUE, s2) else XFW_MAKE_CTX_DROP E c reason s2))"

definition src_filter_ip :: "env \<Rightarrow> XfwGlobalCtx \<Rightarrow> XfwIpLpmKey \<Rightarrow> state \<Rightarrow> verdict \<times> state" where
  "src_filter_ip E c key s =
     (let (rule, src_default) = populate_src_info E c key s in
      case rule of
        Some r \<Rightarrow>
          if sr_action r = XFW_ACTION_BLOCK then XFW_MAKE_CTX_DROP E c XFW_DROP_SRC_IP_BLOCKED s
          else if sr_action r = XFW_ACTION_ALLOW then XFW_MAKE_CTX_PASS c XFW_SRC_IP_ALLOWED s
          else XFW_ASSERT (sr_action r = XFW_ACTION_RATE_LIMIT) c s (\<lambda>_.
            src_ip_rlimit E c (sr_named_idx r) XFW_DROP_SRC_IP_RATE_LIMITED s)
      | None \<Rightarrow>
          (let default_rule = defaults (rules (cfg c)) src_default in
           if action default_rule = XFW_ACTION_BLOCK
           then XFW_MAKE_CTX_DROP E c XFW_DROP_SRC_IP_DEFAULT_BLOCKED s
           else if action default_rule = XFW_ACTION_ALLOW then (XFW_CTX_CONTINUE, s)
           else XFW_ASSERT (action default_rule = XFW_ACTION_RATE_LIMIT) c s (\<lambda>_.
             src_ip_rlimit E c (rl_named_idx (rlimit default_rule))
               XFW_DROP_SRC_IP_DEFAULT_RATE_LIMITED s)))"

definition src_filter :: "env \<Rightarrow> XfwGlobalCtx \<Rightarrow> u16 \<Rightarrow> XfwIpLpmKey \<Rightarrow> state \<Rightarrow> verdict \<times> state" where
  "src_filter E c src_port key s =
     CHAIN (src_filter_ip E c key s) (\<lambda>s.
     CHAIN (src_filter_port E c src_port s) (\<lambda>s.
     (XFW_CTX_CONTINUE, s)))"


section \<open>SYN and RST rate limits\<close>

definition rst_rlimit :: "env \<Rightarrow> XfwGlobalCtx \<Rightarrow> state \<Rightarrow> verdict \<times> state" where
  "rst_rlimit E c s =
     (let rule = tcp_flags (rules (cfg c)) XFW_FLAGS_FILTER_RST in
      if action rule \<noteq> XFW_ACTION_RATE_LIMIT then (XFW_CTX_CONTINUE, s)
      else let (ok, s1) = xfw_is_allowed_by_rlimits c (Some (rlimit rule)) s
           in if ok then (XFW_CTX_CONTINUE, s1)
              else XFW_MAKE_CTX_DROP E c XFW_DROP_RST_RATE_LIMITED s1)"

definition syn_rlimit :: "env \<Rightarrow> XfwGlobalCtx \<Rightarrow> state \<Rightarrow> verdict \<times> state" where
  "syn_rlimit E c s =
     (let rule = tcp_flags (rules (cfg c)) XFW_FLAGS_FILTER_SYN in
      if action rule \<noteq> XFW_ACTION_RATE_LIMIT then (XFW_CTX_CONTINUE, s)
      else XFW_ASSERT (action rule = XFW_ACTION_RATE_LIMIT) c s (\<lambda>_.
        let (ok, s1) = xfw_is_allowed_by_rlimits c (Some (rlimit rule)) s
        in if ok then (XFW_CTX_CONTINUE, s1)
           else XFW_MAKE_CTX_DROP E c XFW_DROP_SYN_RATE_LIMITED s1))"


section \<open>The filters keep the accounting contract\<close>

lemma accounted_src_port_rlimit [acc_intros]:
  "accounted E (pkt_sz c) s (src_port_rlimit E c port idx reason s)"
proof -
  have *: "accounted E (pkt_sz c) s (if ok then (XFW_CTX_CONTINUE, s\<lparr>src_port_rl := m\<rparr>)
      else XFW_MAKE_CTX_DROP E c reason (s\<lparr>src_port_rl := m\<rparr>))" for ok m
    using accounted_silent_trans[OF silent_updates(3) accounted_drop]
    by (auto simp: accounted_continue silent_updates)
  have "accounted E (pkt_sz c) s (XFW_MAKE_CTX_PASS c XFW_ASSERT_FAILED (s\<lparr>src_port_rl := m\<rparr>))" for m
    by (rule accounted_silent_trans[OF silent_updates(3) accounted_make_pass]) simp
  then show ?thesis using *
    by (simp add: src_port_rlimit_def case_prod_beta Let_def XFW_ASSERT_def split: option.split)
qed

lemma accounted_src_ip_rlimit [acc_intros]:
  "accounted E (pkt_sz c) s (src_ip_rlimit E c idx reason s)"
proof -
  have *: "accounted E (pkt_sz c) s (if ok then (XFW_CTX_CONTINUE, s\<lparr>src_ratelim := m\<rparr>)
      else XFW_MAKE_CTX_DROP E c reason (s\<lparr>src_ratelim := m\<rparr>))" for ok m
    using accounted_silent_trans[OF silent_updates(2) accounted_drop]
    by (auto simp: accounted_continue silent_updates)
  have "accounted E (pkt_sz c) s (XFW_MAKE_CTX_PASS c XFW_ASSERT_FAILED (s\<lparr>src_ratelim := m\<rparr>))" for m
    by (rule accounted_silent_trans[OF silent_updates(2) accounted_make_pass]) simp
  then show ?thesis using *
    by (simp add: src_ip_rlimit_def case_prod_beta Let_def XFW_ASSERT_def split: option.split)
qed

interpretation icmp: packet_filter E "pkt_sz c" "icmp_filter E c key" for E c key
  unfolding icmp_filter_def Let_def[of "defaults _ _"] by unfold_locales (intro acc_intros; simp)

interpretation src_ip: packet_filter E "pkt_sz c" "src_filter_ip E c key" for E c key
  unfolding src_filter_ip_def case_prod_beta Let_def by unfold_locales (intro acc_intros; simp)

interpretation src_port: packet_filter E "pkt_sz c" "src_filter_port E c port" for E c port
  unfolding src_filter_port_def Let_def by unfold_locales (intro acc_intros; simp)

interpretation src: filter_chain E "pkt_sz c" "src_filter_ip E c key" "src_filter_port E c port"
  for E c key port ..

interpretation rst: packet_filter E "pkt_sz c" "rst_rlimit E c" for E c
  unfolding rst_rlimit_def Let_def[of "tcp_flags _ _"] by unfold_locales (intro acc_intros; simp)

interpretation syn: packet_filter E "pkt_sz c" "syn_rlimit E c" for E c
  unfolding syn_rlimit_def Let_def[of "tcp_flags _ _"] by unfold_locales (intro acc_intros; simp)


section \<open>The most specific rule decides\<close>

text \<open>The rule of the longest prefix in the trie that covers the address.\<close>

definition best4 :: "(XfwIpv4LpmKey \<times> 'v) list \<Rightarrow> u32 \<Rightarrow> 'v \<Rightarrow> bool" where
  "best4 t a r \<longleftrightarrow> distinct (map fst t) \<and> (\<exists>k. (k, r) \<in> set t \<and> lpm4_match k a \<and>
     (\<forall>j \<in> fst ` set t. j \<noteq> k \<longrightarrow> lpm4_match j a \<longrightarrow> prefixlen4 j < prefixlen4 k))"

definition best6 :: "(XfwIpv6LpmKey \<times> 'v) list \<Rightarrow> XfwIp \<Rightarrow> 'v \<Rightarrow> bool" where
  "best6 t a r \<longleftrightarrow> distinct (map fst t) \<and> (\<exists>k. (k, r) \<in> set t \<and> lpm6_match k a \<and>
     (\<forall>j \<in> fst ` set t. j \<noteq> k \<longrightarrow> lpm6_match j a \<longrightarrow> prefixlen6 j < prefixlen6 k))"

lemma lpm4_lookup_best:
  assumes "lpm4_law E" "best4 t (addr4 q) r"
  shows "lpm4_lookup E t q = Some r"
proof -
  obtain k where k: "(k, r) \<in> set t" "lpm4_match k (addr4 q)" "distinct (map fst t)"
    "\<forall>j \<in> fst ` set t. j \<noteq> k \<longrightarrow> lpm4_match j (addr4 q) \<longrightarrow> prefixlen4 j < prefixlen4 k"
    using assms(2) by (auto simp: best4_def)
  have law: "case lpm4 E (map fst t) q of
     None \<Rightarrow> \<forall>k \<in> set (map fst t). \<not> lpm4_match k (addr4 q)
   | Some k \<Rightarrow> k \<in> set (map fst t) \<and> lpm4_match k (addr4 q) \<and>
       (\<forall>j \<in> set (map fst t). lpm4_match j (addr4 q) \<longrightarrow> prefixlen4 j \<le> prefixlen4 k)"
    using assms(1) unfolding lpm4_law_def by blast
  have "lpm4 E (map fst t) q = Some k"
  proof (cases "lpm4 E (map fst t) q")
    case None
    then show ?thesis using law k(1,2) by (auto simp: image_iff)
  next
    case (Some j)
    then have "j \<in> fst ` set t" "lpm4_match j (addr4 q)" "prefixlen4 k \<le> prefixlen4 j"
      using law k(1,2) by (auto simp: image_iff)
    then show ?thesis using Some k(4) by force
  qed
  then show ?thesis using k(1,3) by (simp add: lpm4_lookup_def map_of_is_SomeI)
qed

lemma lpm6_lookup_best:
  assumes "lpm6_law E" "best6 t (addr6 q) r"
  shows "lpm6_lookup E t q = Some r"
proof -
  obtain k where k: "(k, r) \<in> set t" "lpm6_match k (addr6 q)" "distinct (map fst t)"
    "\<forall>j \<in> fst ` set t. j \<noteq> k \<longrightarrow> lpm6_match j (addr6 q) \<longrightarrow> prefixlen6 j < prefixlen6 k"
    using assms(2) by (auto simp: best6_def)
  have law: "case lpm6 E (map fst t) q of
     None \<Rightarrow> \<forall>k \<in> set (map fst t). \<not> lpm6_match k (addr6 q)
   | Some k \<Rightarrow> k \<in> set (map fst t) \<and> lpm6_match k (addr6 q) \<and>
       (\<forall>j \<in> set (map fst t). lpm6_match j (addr6 q) \<longrightarrow> prefixlen6 j \<le> prefixlen6 k)"
    using assms(1) unfolding lpm6_law_def by blast
  have "lpm6 E (map fst t) q = Some k"
  proof (cases "lpm6 E (map fst t) q")
    case None
    then show ?thesis using law k(1,2) by (auto simp: image_iff)
  next
    case (Some j)
    then have "j \<in> fst ` set t" "lpm6_match j (addr6 q)" "prefixlen6 k \<le> prefixlen6 j"
      using law k(1,2) by (auto simp: image_iff)
    then show ?thesis using Some k(4) by force
  qed
  then show ?thesis using k(1,3) by (simp add: lpm6_lookup_def map_of_is_SomeI)
qed

text \<open>The rule that applies to an address under a transport protocol, in the active copy.\<close>

definition src_rule_is :: "state \<Rightarrow> XfwFilterCfg \<Rightarrow> u8 \<Rightarrow> u32 \<Rightarrow> XfwSrcRule \<Rightarrow> bool" where
  "src_rule_is s cf proto a r \<longleftrightarrow>
     best4 (SELECT_SHADOW_MAP (if proto = XFW_L4_PROTO_UDP then map_src_4_udp (ro s) else map_src_4_tcp (ro s))
        (amap_src cf)) a r"

lemma populate_src_info_best4:
  assumes "lpm4_law E" "ipver c = bpf_htons ETH_P_IP" "src_rule_is s (cfg c) (l4_proto c) (addr4 (key4 key)) r"
  shows "fst (populate_src_info E c key s) = Some r"
  using assms lpm4_lookup_best[OF assms(1), of _ "key4 key" r]
  by (auto simp: populate_src_info_def src_rule_is_def split: if_splits)

lemma src_filter_ip_blocked:
  assumes "fst (populate_src_info E c key s) = Some r" "sr_action r = XFW_ACTION_BLOCK"
  shows "src_filter_ip E c key s = XFW_MAKE_CTX_DROP E c XFW_DROP_SRC_IP_BLOCKED s"
  using assms by (simp add: src_filter_ip_def case_prod_beta)

lemma src_filter_ip_allowed:
  assumes "fst (populate_src_info E c key s) = Some r" "sr_action r = XFW_ACTION_ALLOW"
  shows "src_filter_ip E c key s = XFW_MAKE_CTX_PASS c XFW_SRC_IP_ALLOWED s"
  using assms by (simp add: src_filter_ip_def case_prod_beta)

end
