(* ===== verification/Parsing.thy ===== *)
theory Parsing
  imports Ctx
begin

text \<open>
  The header parsers of \<open>bpf/parsing_helpers.h\<close>. A pointer into the packet is an
  offset, and a parser takes the cursor and returns an error code (\<open>Inl\<close>) or its result
  (\<open>Inr\<close>) with the new cursor. Shown here: every parser moves the cursor forward and
  stays inside the packet, the offset bounds the later stages rely on, and what chains of
  IPv6 extension headers are accepted.
\<close>

type_synonym 'a parsed = "(int + 'a) \<times> XfwHdrCursor"

definition VLAN_MAX_DEPTH :: nat where "VLAN_MAX_DEPTH = 2"
definition IPV6_EXT_MAX_CHAIN :: nat where "IPV6_EXT_MAX_CHAIN = 6"
definition IPV6_EXT_HDR_MAXLEN :: nat where "IPV6_EXT_HDR_MAXLEN = (255 + 1) * 8"

text \<open>Sizes of \<open>struct ethhdr\<close>, \<open>vlan_hdr\<close>, \<open>ipv6hdr\<close>: 14, 4 and 40 bytes.\<close>

definition L3_OFF_MAX :: nat where "L3_OFF_MAX = 14 + VLAN_MAX_DEPTH * 4"

definition L4_OFF_MAX :: nat where
  "L4_OFF_MAX = L3_OFF_MAX + 40 + IPV6_EXT_MAX_CHAIN * IPV6_EXT_HDR_MAXLEN"

lemmas parse_limits = VLAN_MAX_DEPTH_def IPV6_EXT_MAX_CHAIN_def IPV6_EXT_HDR_MAXLEN_def
  L3_OFF_MAX_def L4_OFF_MAX_def

definition IPPROTO_HOPOPTS :: u8 where "IPPROTO_HOPOPTS = 0"
definition IPPROTO_ROUTING :: u8 where "IPPROTO_ROUTING = 43"
definition IPPROTO_FRAGMENT :: u8 where "IPPROTO_FRAGMENT = 44"
definition IPPROTO_AH :: u8 where "IPPROTO_AH = 51"
definition IPPROTO_DSTOPTS :: u8 where "IPPROTO_DSTOPTS = 60"
definition IPPROTO_MH :: u8 where "IPPROTO_MH = 135"

lemmas ipproto_defs = IPPROTO_HOPOPTS_def IPPROTO_ROUTING_def IPPROTO_FRAGMENT_def
  IPPROTO_AH_def IPPROTO_DSTOPTS_def IPPROTO_MH_def


section \<open>Header fields\<close>

text \<open>Fields of \<open>struct iphdr\<close> at offset \<open>i\<close>.\<close>

definition ip_version :: "packet \<Rightarrow> nat \<Rightarrow> u8" where "ip_version p i = drop_bit 4 (ld8 p i)"
definition ip_ihl :: "packet \<Rightarrow> nat \<Rightarrow> u8" where "ip_ihl p i = ld8 p i AND 0xF"
definition ip_frag_off :: "packet \<Rightarrow> nat \<Rightarrow> u16" where "ip_frag_off p i = ld16 p (i + 6)"
definition ip_protocol :: "packet \<Rightarrow> nat \<Rightarrow> u8" where "ip_protocol p i = ld8 p (i + 9)"
definition ip_saddr :: "packet \<Rightarrow> nat \<Rightarrow> u32" where "ip_saddr p i = ld32 p (i + 12)"
definition ip_daddr :: "packet \<Rightarrow> nat \<Rightarrow> u32" where "ip_daddr p i = ld32 p (i + 16)"

text \<open>Fields of \<open>struct ipv6hdr\<close>.\<close>

definition ld_ip6 :: "packet \<Rightarrow> nat \<Rightarrow> XfwIp" where
  "ld_ip6 p i = XfwIp (ld32 p i) (ld32 p (i + 4)) (ld32 p (i + 8)) (ld32 p (i + 12))"

definition ip6_version :: "packet \<Rightarrow> nat \<Rightarrow> u8" where "ip6_version p i = drop_bit 4 (ld8 p i)"
definition ip6_nexthdr :: "packet \<Rightarrow> nat \<Rightarrow> u8" where "ip6_nexthdr p i = ld8 p (i + 6)"
definition ip6_saddr :: "packet \<Rightarrow> nat \<Rightarrow> XfwIp" where "ip6_saddr p i = ld_ip6 p (i + 8)"
definition ip6_daddr :: "packet \<Rightarrow> nat \<Rightarrow> XfwIp" where "ip6_daddr p i = ld_ip6 p (i + 24)"

text \<open>Fields of \<open>struct tcphdr\<close> and of the first words of \<open>struct udphdr\<close>.\<close>

definition l4_source :: "packet \<Rightarrow> nat \<Rightarrow> u16" where "l4_source p i = ld16 p i"
definition l4_dest :: "packet \<Rightarrow> nat \<Rightarrow> u16" where "l4_dest p i = ld16 p (i + 2)"
definition udp_len :: "packet \<Rightarrow> nat \<Rightarrow> u16" where "udp_len p i = ld16 p (i + 4)"
definition tcp_seq :: "packet \<Rightarrow> nat \<Rightarrow> u32" where "tcp_seq p i = ld32 p (i + 4)"
definition tcp_doff :: "packet \<Rightarrow> nat \<Rightarrow> u8" where "tcp_doff p i = drop_bit 4 (ld8 p (i + 12))"
definition tcp_flags_byte :: "packet \<Rightarrow> nat \<Rightarrow> u8" where "tcp_flags_byte p i = ld8 p (i + 13)"
definition tcp_fin :: "packet \<Rightarrow> nat \<Rightarrow> bool" where "tcp_fin p i = bit (tcp_flags_byte p i) 0"
definition tcp_syn :: "packet \<Rightarrow> nat \<Rightarrow> bool" where "tcp_syn p i = bit (tcp_flags_byte p i) 1"
definition tcp_rst :: "packet \<Rightarrow> nat \<Rightarrow> bool" where "tcp_rst p i = bit (tcp_flags_byte p i) 2"
definition tcp_ack :: "packet \<Rightarrow> nat \<Rightarrow> bool" where "tcp_ack p i = bit (tcp_flags_byte p i) 4"
definition tcp_ece :: "packet \<Rightarrow> nat \<Rightarrow> bool" where "tcp_ece p i = bit (tcp_flags_byte p i) 6"


section \<open>Parsers\<close>

definition CUR_ADVANCE :: "XfwHdrCursor \<Rightarrow> nat \<Rightarrow> XfwHdrCursor option" where
  "CUR_ADVANCE cur len = (if cur_end cur < pos cur + len then None else Some (cur\<lparr>pos := pos cur + len\<rparr>))"

definition proto_is_vlan :: "u16 \<Rightarrow> bool" where
  "proto_is_vlan pn \<longleftrightarrow> pn = bpf_htons ETH_P_8021Q \<or> pn = bpf_htons ETH_P_8021AD"

text \<open>The unrolled loop over VLAN headers: the protocol and the position after them.\<close>

primrec parse_vlans :: "nat \<Rightarrow> packet \<Rightarrow> nat \<Rightarrow> u16 \<Rightarrow> nat \<Rightarrow> u16 \<times> nat" where
  "parse_vlans 0 p e h_proto vlh = (h_proto, vlh)"
| "parse_vlans (Suc n) p e h_proto vlh =
     (if \<not> proto_is_vlan h_proto then (h_proto, vlh)
      else if e < vlh + 4 then (h_proto, vlh)
      else parse_vlans n p e (ld16 p (vlh + 2)) (vlh + 4))"

definition parse_ethhdr :: "packet \<Rightarrow> XfwHdrCursor \<Rightarrow> u16 parsed" where
  "parse_ethhdr p cur =
     (case CUR_ADVANCE cur 14 of
        None \<Rightarrow> (Inl (- EINVAL), cur)
      | Some cur' \<Rightarrow>
          (let (h_proto, vlh) = parse_vlans VLAN_MAX_DEPTH p (cur_end cur) (ld16 p (pos cur + 12)) (pos cur')
           in (Inr h_proto, cur'\<lparr>pos := vlh\<rparr>)))"

text \<open>\<open>skip_ip6hdrext\<close> with the number of iterations left.\<close>

primrec skip_ip6hdrext_loop :: "nat \<Rightarrow> packet \<Rightarrow> XfwHdrCursor \<Rightarrow> u8 \<Rightarrow> u8 parsed" where
  "skip_ip6hdrext_loop 0 p cur next_hdr_t = (Inl (- EINVAL), cur)"
| "skip_ip6hdrext_loop (Suc n) p cur next_hdr_t =
     (let hdr = pos cur in
      if cur_end cur < hdr + 2 then (Inl (- EINVAL), cur)
      else if next_hdr_t = IPPROTO_FRAGMENT then (Inl (- EFBIG), cur)
      else if next_hdr_t = IPPROTO_AH
      then skip_ip6hdrext_loop n p (cur\<lparr>pos := hdr + (unat (ld8 p (hdr + 1)) + 2) * 4\<rparr>) (ld8 p hdr)
      else if next_hdr_t \<noteq> IPPROTO_HOPOPTS \<and> next_hdr_t \<noteq> IPPROTO_DSTOPTS
           \<and> next_hdr_t \<noteq> IPPROTO_ROUTING \<and> next_hdr_t \<noteq> IPPROTO_MH
      then (Inr next_hdr_t, cur)
      else skip_ip6hdrext_loop n p (cur\<lparr>pos := hdr + (unat (ld8 p (hdr + 1)) + 1) * 8\<rparr>) (ld8 p hdr))"

definition skip_ip6hdrext :: "packet \<Rightarrow> XfwHdrCursor \<Rightarrow> u8 \<Rightarrow> u8 parsed" where
  "skip_ip6hdrext = skip_ip6hdrext_loop IPV6_EXT_MAX_CHAIN"

text \<open>The parsers with an out-parameter return it in \<open>Inr\<close>: the offset of the header.\<close>

definition parse_ip6hdr :: "packet \<Rightarrow> XfwHdrCursor \<Rightarrow> nat parsed" where
  "parse_ip6hdr p cur =
     (let ip6h = pos cur in
      if cur_end cur < ip6h + 40 then (Inl (- EINVAL), cur)
      else if ip6_version p ip6h \<noteq> 6 then (Inl (- EINVAL), cur)
      else (Inr ip6h, cur\<lparr>pos := ip6h + 40\<rparr>))"

definition parse_iphdr :: "packet \<Rightarrow> XfwHdrCursor \<Rightarrow> (u8 \<times> nat) parsed" where
  "parse_iphdr p cur =
     (let iph = pos cur in
      if cur_end cur < iph + 20 then (Inl (- EINVAL), cur)
      else if ip_version p iph \<noteq> 4 then (Inl (- EINVAL), cur)
      else let hdr_sz = unat (ip_ihl p iph) * 4 in
      if hdr_sz < 20 then (Inl (- EINVAL), cur)
      else case CUR_ADVANCE cur hdr_sz of
        None \<Rightarrow> (Inl (- EINVAL), cur)
      | Some cur' \<Rightarrow> (Inr (ip_protocol p iph, iph), cur'))"

text \<open>\<open>struct icmphdr\<close> and \<open>struct icmp6hdr\<close> both take 8 bytes.\<close>

definition parse_icmphdr_common :: "packet \<Rightarrow> XfwHdrCursor \<Rightarrow> u8 \<Rightarrow> (u8 \<times> nat) parsed" where
  "parse_icmphdr_common p cur proto =
     (let h = pos cur; hdr_sz = (if proto = XFW_L4_PROTO_ICMP then 8 else 8) in
      case CUR_ADVANCE cur hdr_sz of
        None \<Rightarrow> (Inl (- EINVAL), cur)
      | Some cur' \<Rightarrow> (Inr (ld8 p h, h), cur'))"

definition parse_udphdr :: "packet \<Rightarrow> XfwHdrCursor \<Rightarrow> (int \<times> nat) parsed" where
  "parse_udphdr p cur =
     (let h = pos cur in
      if cur_end cur < h + 8 then (Inl (- EINVAL), cur)
      else let cur' = cur\<lparr>pos := h + 8\<rparr>; len = uint (bpf_ntohs (udp_len p h)) - 8 in
      if len < 0 then (Inl (- EINVAL), cur') else (Inr (len, h), cur'))"

definition parse_tcphdr :: "packet \<Rightarrow> XfwHdrCursor \<Rightarrow> (int \<times> nat) parsed" where
  "parse_tcphdr p cur =
     (let h = pos cur in
      if cur_end cur < h + 20 then (Inl (- EINVAL), cur)
      else let len = unat (tcp_doff p h) * 4 in
      if len < 20 then (Inl (- EINVAL), cur)
      else case CUR_ADVANCE cur len of
        None \<Rightarrow> (Inl (- EINVAL), cur)
      | Some cur' \<Rightarrow> (Inr (int len, h), cur'))"


lemma unat_doff: "unat (tcp_doff p th) \<le> 15"
proof -
  have "unat (ld8 p (th + 12)) < 256" using unsigned_less[of "ld8 p (th + 12)", where ?'a = nat] by simp
  then show ?thesis using unat_drop_bit[of 4 "ld8 p (th + 12)"] by (simp add: tcp_doff_def)
qed


section \<open>Every parser stays inside the packet\<close>

text \<open>
  The contract the callers rely on: a parser that succeeds leaves the cursor at or after
  where it was and not beyond the end of the packet, and no parser moves the end.
\<close>

locale header_parser =
  fixes prs :: "packet \<Rightarrow> XfwHdrCursor \<Rightarrow> 'a parsed"
  assumes prs_end: "cur_end (snd (prs p cur)) = cur_end cur"
    and prs_pos: "pos cur \<le> pos (snd (prs p cur))"
    and prs_in_bounds: "prs p cur = (Inr x, cur') \<Longrightarrow> pos cur' \<le> cur_end cur'"
begin

lemma prs_success:
  "prs p cur = (Inr x, cur') \<Longrightarrow>
     pos cur \<le> pos cur' \<and> pos cur' \<le> cur_end cur' \<and> cur_end cur' = cur_end cur"
  using prs_end[of p cur] prs_pos[of cur p] prs_in_bounds[of p cur x cur'] by simp

end

lemma CUR_ADVANCE_Some:
  "CUR_ADVANCE cur n = Some cur' \<longleftrightarrow> cur' = cur\<lparr>pos := pos cur + n\<rparr> \<and> pos cur + n \<le> cur_end cur"
  by (auto simp: CUR_ADVANCE_def)

lemma parse_vlans_bounds:
  "parse_vlans n p e pr vlh = (pr', vlh') \<Longrightarrow> vlh \<le> e \<Longrightarrow>
     vlh \<le> vlh' \<and> vlh' \<le> e \<and> vlh' \<le> vlh + 4 * n"
proof (induction n arbitrary: pr vlh)
  case (Suc n)
  then show ?case by (fastforce split: if_splits)
qed simp

lemma skip_loop_bounds:
  "skip_ip6hdrext_loop n p cur nh = (r, cur') \<Longrightarrow>
     cur_end cur' = cur_end cur \<and> pos cur \<le> pos cur' \<and> (\<forall>x. r = Inr x \<longrightarrow> pos cur' + 2 \<le> cur_end cur')"
proof (induction n arbitrary: cur nh)
  case (Suc n)
  then show ?case by (fastforce simp: Let_def split: if_splits)
qed auto

lemma parse_ethhdr_bounds:
  assumes "parse_ethhdr p cur = (r, cur')"
  shows "cur_end cur' = cur_end cur \<and> pos cur \<le> pos cur' \<and>
     (\<forall>x. r = Inr x \<longrightarrow> pos cur + 14 \<le> pos cur' \<and> pos cur' \<le> cur_end cur' \<and> pos cur' \<le> pos cur + L3_OFF_MAX)"
proof -
  obtain pr' v where v:
    "parse_vlans VLAN_MAX_DEPTH p (cur_end cur) (ld16 p (pos cur + 12)) (pos cur + 14) = (pr', v)"
    by fastforce
  show ?thesis
    using assms parse_vlans_bounds[OF v]
    by (auto simp: parse_ethhdr_def CUR_ADVANCE_Some v L3_OFF_MAX_def split: option.splits)
qed

interpretation eth: header_parser parse_ethhdr
  by unfold_locales (use parse_ethhdr_bounds[OF prod.collapse[symmetric]] parse_ethhdr_bounds in fastforce)+

interpretation ip4: header_parser parse_iphdr
  by unfold_locales
    (auto simp: parse_iphdr_def Let_def CUR_ADVANCE_Some split: option.splits if_splits)

interpretation ip6: header_parser parse_ip6hdr
  by unfold_locales (auto simp: parse_ip6hdr_def Let_def split: if_splits)

interpretation ip6ext: header_parser "\<lambda>p cur. skip_ip6hdrext p cur nh" for nh
  unfolding skip_ip6hdrext_def
  by unfold_locales
    (use skip_loop_bounds[OF prod.collapse[symmetric]] skip_loop_bounds in fastforce)+

interpretation icmp: header_parser "\<lambda>p cur. parse_icmphdr_common p cur proto" for proto
  by unfold_locales
    (auto simp: parse_icmphdr_common_def Let_def CUR_ADVANCE_Some split: option.splits if_splits)

interpretation udp: header_parser parse_udphdr
  by unfold_locales (auto simp: parse_udphdr_def Let_def split: if_splits)

interpretation tcp: header_parser parse_tcphdr
  by unfold_locales
    (auto simp: parse_tcphdr_def Let_def CUR_ADVANCE_Some split: option.splits if_splits)


section \<open>Chains of IPv6 extension headers\<close>

text \<open>
  RFC 8200 as a relation, for the extension headers the parser knows:
  \<open>ext_chain p e nh off n l4 off'\<close> says that a header of type \<open>nh\<close> at \<open>off\<close> starts
  a chain of \<open>n\<close> extension headers that ends at \<open>off'\<close> with a header of type \<open>l4\<close>,
  each of them starting with at least two bytes before \<open>e\<close>.
\<close>

definition is_ext_hdr :: "u8 \<Rightarrow> bool" where
  "is_ext_hdr nh \<longleftrightarrow> nh \<in> {IPPROTO_AH, IPPROTO_HOPOPTS, IPPROTO_DSTOPTS, IPPROTO_ROUTING, IPPROTO_MH}"

definition ext_hdr_len :: "packet \<Rightarrow> u8 \<Rightarrow> nat \<Rightarrow> nat" where
  "ext_hdr_len p nh off =
     (if nh = IPPROTO_AH then (unat (ld8 p (off + 1)) + 2) * 4 else (unat (ld8 p (off + 1)) + 1) * 8)"

inductive ext_chain :: "packet \<Rightarrow> nat \<Rightarrow> u8 \<Rightarrow> nat \<Rightarrow> nat \<Rightarrow> u8 \<Rightarrow> nat \<Rightarrow> bool" for p e where
  last: "off + 2 \<le> e \<Longrightarrow> \<not> is_ext_hdr nh \<Longrightarrow> ext_chain p e nh off 0 nh off"
| more: "off + 2 \<le> e \<Longrightarrow> is_ext_hdr nh \<Longrightarrow>
     ext_chain p e (ld8 p off) (off + ext_hdr_len p nh off) n l4 off' \<Longrightarrow>
     ext_chain p e nh off (Suc n) l4 off'"

inductive_cases ext_chain_0E: "ext_chain p e nh off 0 l4 off'"
inductive_cases ext_chain_SucE: "ext_chain p e nh off (Suc n) l4 off'"

lemma ext_chain_0: "ext_chain p e nh off 0 l4 off' \<longleftrightarrow>
    off + 2 \<le> e \<and> \<not> is_ext_hdr nh \<and> l4 = nh \<and> off' = off"
  by (auto elim: ext_chain_0E intro: ext_chain.intros)

lemma ext_chain_Suc: "ext_chain p e nh off (Suc n) l4 off' \<longleftrightarrow>
    off + 2 \<le> e \<and> is_ext_hdr nh \<and> ext_chain p e (ld8 p off) (off + ext_hdr_len p nh off) n l4 off'"
  by (auto elim: ext_chain_SucE intro: ext_chain.intros)

lemma skip_loop_Suc:
  "skip_ip6hdrext_loop (Suc n) p cur nh =
     (if cur_end cur < pos cur + 2 then (Inl (- EINVAL), cur)
      else if nh = IPPROTO_FRAGMENT then (Inl (- EFBIG), cur)
      else if is_ext_hdr nh
      then skip_ip6hdrext_loop n p (cur\<lparr>pos := pos cur + ext_hdr_len p nh (pos cur)\<rparr>) (ld8 p (pos cur))
      else (Inr nh, cur))"
  by (auto simp: Let_def is_ext_hdr_def ext_hdr_len_def ipproto_defs)

declare skip_ip6hdrext_loop.simps(2) [simp del]

lemma ext_chain_bound:
  "ext_chain p e nh off n l4 off' \<Longrightarrow> off' + 2 \<le> e \<and> off' \<le> off + n * IPV6_EXT_HDR_MAXLEN"
proof (induction rule: ext_chain.induct)
  case (more off nh n l4 off')
  have "unat (ld8 p (off + 1)) \<le> 255" using unsigned_less[of "ld8 p (off + 1)", where ?'a = nat] by simp
  then have "ext_hdr_len p nh off \<le> IPV6_EXT_HDR_MAXLEN"
    by (simp add: ext_hdr_len_def IPV6_EXT_HDR_MAXLEN_def)
  then show ?case using more.IH by simp
qed simp

lemma skip_loop_iff:
  "skip_ip6hdrext_loop m p cur nh = (Inr l4, cur') \<longleftrightarrow>
     l4 \<noteq> IPPROTO_FRAGMENT \<and>
     (\<exists>n < m. ext_chain p (cur_end cur) nh (pos cur) n l4 (pos cur') \<and> cur' = cur\<lparr>pos := pos cur'\<rparr>)"
proof (induction m arbitrary: cur nh)
  case (Suc m)
  show ?case
  proof (cases "is_ext_hdr nh")
    case True
    then show ?thesis
      using Suc.IH[of "cur\<lparr>pos := pos cur + ext_hdr_len p nh (pos cur)\<rparr>" "ld8 p (pos cur)"]
      by (auto simp: skip_loop_Suc ext_chain_0 ext_chain_Suc Ex_less_Suc2 is_ext_hdr_def ipproto_defs)
  next
    case False
    then show ?thesis
      by (auto simp: skip_loop_Suc ext_chain_0 ext_chain_Suc Ex_less_Suc2)
  qed
qed simp

lemma skip_loop_frag:
  "fst (skip_ip6hdrext_loop m p cur nh) = Inl (- EFBIG) \<longleftrightarrow>
     (\<exists>n < m. \<exists>off. ext_chain p (cur_end cur) nh (pos cur) n IPPROTO_FRAGMENT off)"
proof (induction m arbitrary: cur nh)
  case (Suc m)
  show ?case
  proof (cases "is_ext_hdr nh")
    case True
    then show ?thesis
      using Suc.IH[of "cur\<lparr>pos := pos cur + ext_hdr_len p nh (pos cur)\<rparr>" "ld8 p (pos cur)"]
      by (auto simp: skip_loop_Suc ext_chain_0 ext_chain_Suc Ex_less_Suc2 is_ext_hdr_def ipproto_defs)
  next
    case False
    then show ?thesis
      by (auto simp: skip_loop_Suc ext_chain_0 ext_chain_Suc Ex_less_Suc2)
  qed
qed simp

text \<open>
  The IPv6 parser accepts a packet exactly if its extension headers form a chain of
  at most five that ends, inside the packet, with a protocol other than the fragment
  header; it then reports that protocol and the position of its header. It reports a
  fragment exactly if such a chain ends with the fragment header.
\<close>

theorem skip_ip6hdrext_correct:
  "(skip_ip6hdrext p cur nh = (Inr l4, cur') \<longleftrightarrow>
     l4 \<noteq> IPPROTO_FRAGMENT \<and> cur' = cur\<lparr>pos := pos cur'\<rparr> \<and>
     (\<exists>n. n \<le> 5 \<and> ext_chain p (cur_end cur) nh (pos cur) n l4 (pos cur'))) \<and>
   (fst (skip_ip6hdrext p cur nh) = Inl (- EFBIG) \<longleftrightarrow>
     (\<exists>n off. n \<le> 5 \<and> ext_chain p (cur_end cur) nh (pos cur) n IPPROTO_FRAGMENT off))"
  unfolding skip_ip6hdrext_def skip_loop_iff skip_loop_frag IPV6_EXT_MAX_CHAIN_def
  by (auto simp: less_Suc_eq_le[of _ 5, simplified])

lemma skip_ip6hdrext_bound:
  assumes "skip_ip6hdrext p cur nh = (Inr l4, cur')"
  shows "pos cur' \<le> pos cur + IPV6_EXT_MAX_CHAIN * IPV6_EXT_HDR_MAXLEN"
proof -
  obtain n where "n < IPV6_EXT_MAX_CHAIN" "ext_chain p (cur_end cur) nh (pos cur) n l4 (pos cur')"
    using assms by (auto simp: skip_ip6hdrext_def skip_loop_iff)
  then have "pos cur' \<le> pos cur + n * IPV6_EXT_HDR_MAXLEN"
    "n * IPV6_EXT_HDR_MAXLEN \<le> IPV6_EXT_MAX_CHAIN * IPV6_EXT_HDR_MAXLEN"
    using ext_chain_bound by (blast, simp)
  then show ?thesis by linarith
qed

end
