(* ===== verification/DstFilter.thy ===== *)
theory DstFilter
  imports PacketFilter Parsing
begin

text \<open>
  The destination filter of \<open>bpf/dst.h\<close>, which both programs run: the key of address,
  protocol and port is read back from the packet at the offsets the parsers recorded.
\<close>

definition populate_dst_info :: "XfwGlobalCtx \<Rightarrow> state \<Rightarrow> (XfwDstKey \<times> DefaultIndex) option" where
  "populate_dst_info c s =
     (let p = pkt s; ip = unat (ip_off c); l4 = unat (l4_off c); e = cur_end (hdr_cur c) in
      if \<not> l4 \<le> L4_OFF_MAX then None
      else if ipver c = bpf_ntohs ETH_P_IP
      then if \<not> ip + 20 \<le> e then None
           else let key = \<lparr>dk_ipver = XFW_IP_VER_4, dk_proto = l4_proto c, dk_port = l4_dest p l4,
                           dk_addr = xfw_assign_ip4_addr (ip_daddr p ip)\<rparr> in
           if l4_proto c = XFW_L4_PROTO_TCP
           then if \<not> l4 + 20 \<le> e then None else Some (key, XFW_DEFAULT_DST_TCP_IP4)
           else if l4_proto c = XFW_L4_PROTO_UDP
           then if \<not> l4 + 8 \<le> e then None else Some (key, XFW_DEFAULT_DST_UDP_IP4)
           else None
      else if ipver c = bpf_ntohs ETH_P_IPV6
      then if \<not> ip + 40 \<le> e then None
           else let key = \<lparr>dk_ipver = XFW_IP_VER_6, dk_proto = l4_proto c, dk_port = l4_dest p l4,
                           dk_addr = ip6_daddr p ip\<rparr> in
           if l4_proto c = XFW_L4_PROTO_TCP
           then if \<not> l4 + 20 \<le> e then None else Some (key, XFW_DEFAULT_DST_TCP_IP6)
           else if l4_proto c = XFW_L4_PROTO_UDP
           then if \<not> l4 + 8 \<le> e then None else Some (key, XFW_DEFAULT_DST_UDP_IP6)
           else None
      else None)"

definition xfw_dst_filter :: "env \<Rightarrow> XfwGlobalCtx \<Rightarrow> state \<Rightarrow> verdict \<times> state" where
  "xfw_dst_filter E c s =
     (case populate_dst_info c s of
        None \<Rightarrow> XFW_MAKE_CTX_PASS c XFW_ASSERT_FAILED s
      | Some (dst_key, dst_default) \<Rightarrow>
          (case SELECT_SHADOW_MAP (map_dst (ro s)) (amap_dst (cfg c)) dst_key of
             None \<Rightarrow>
               (let default_rule = defaults (rules (cfg c)) dst_default in
                if action default_rule = XFW_ACTION_BLOCK then XFW_MAKE_CTX_DROP E c XFW_DROP_DST_BLOCKED s
                else if action default_rule = XFW_ACTION_ALLOW then (XFW_CTX_CONTINUE, s)
                else XFW_ASSERT (action default_rule = XFW_ACTION_RATE_LIMIT) c s (\<lambda>_.
                  let (ok, s1) = xfw_is_allowed_by_rlimits c (Some (rlimit default_rule)) s
                  in if ok then (XFW_CTX_CONTINUE, s1)
                     else XFW_MAKE_CTX_DROP E c XFW_DROP_DST_RATE_LIMITED s1))
           | Some rule \<Rightarrow>
               if action rule = XFW_ACTION_BLOCK then XFW_MAKE_CTX_DROP E c XFW_DROP_DST_BLOCKED s
               else if action rule = XFW_ACTION_ALLOW then (XFW_CTX_CONTINUE, s)
               else XFW_ASSERT (action rule = XFW_ACTION_RATE_LIMIT) c s (\<lambda>_.
                 let (ok, s1) = xfw_is_allowed_by_rlimits c (Some (rlimit rule)) s
                 in if ok then (XFW_CTX_CONTINUE, s1)
                    else XFW_MAKE_CTX_DROP E c XFW_DROP_DST_RATE_LIMITED s1)))"

interpretation dst: packet_filter E "pkt_sz c" "xfw_dst_filter E c" for E c
  unfolding xfw_dst_filter_def case_prod_beta[of _ "_ :: XfwDstKey \<times> DefaultIndex"] Let_def[of "defaults _ _"]
  by unfold_locales (intro acc_intros; simp)

text \<open>The destination filter never transmits, and passes only on a broken invariant.\<close>

lemma dst_filter_verdict: "fst (xfw_dst_filter E c s) \<noteq> XDP_TX"
  by (simp add: xfw_dst_filter_def XFW_MAKE_CTX_DROP_def XFW_MAKE_CTX_PASS_def XFW_ASSERT_def Let_def
      case_prod_beta split: option.split)

end
