(* ===== verification/Bitset.thy ===== *)
theory Bitset
  imports Uapi
begin

text \<open>
  The bit sets of the two sides: \<open>BitSet\<close> of \<open>lib/bitset.hh\<close> over bytes, which the
  client and the manager use and send over the wire (\<open>lib/proto/bitset_helper.hh\<close>), and
  the 64-bit words the eBPF programs test (\<open>bpf/bitset_tools.h\<close>); the sets of bad TCP
  flag combinations the manager builds (\<open>manager/xfw/tcp_anomaly_flags.cc\<close>).
\<close>


section \<open>The byte sets of user space\<close>

type_synonym BitSet = "u8 list"

text \<open>\<open>ByteCount\<close> for the largest bit index \<open>MaxBit\<close>.\<close>

definition byte_size :: "nat \<Rightarrow> nat" where
  "byte_size max_bit = (max_bit + 1 + 7) div 8"

definition bs_default :: "nat \<Rightarrow> BitSet" where
  "bs_default max_bit = replicate (byte_size max_bit) 0"

definition bs_of_buffer :: "nat \<Rightarrow> u8 list \<Rightarrow> BitSet" where
  "bs_of_buffer max_bit data =
     (let copy_size = min (length data) (byte_size max_bit)
      in take copy_size data @ drop copy_size (bs_default max_bit))"

definition bs_set :: "BitSet \<Rightarrow> nat \<Rightarrow> BitSet" where
  "bs_set bs idx = bs[idx div 8 := bs ! (idx div 8) OR push_bit (idx mod 8) 1]"

definition bs_unset :: "BitSet \<Rightarrow> nat \<Rightarrow> BitSet" where
  "bs_unset bs idx = bs[idx div 8 := bs ! (idx div 8) AND NOT (push_bit (idx mod 8) 1)]"

definition bs_clear :: "BitSet \<Rightarrow> BitSet" where
  "bs_clear bs = replicate (length bs) 0"

definition bs_test :: "BitSet \<Rightarrow> nat \<Rightarrow> bool" where
  "bs_test bs idx \<longleftrightarrow> bs ! (idx div 8) AND push_bit (idx mod 8) 1 \<noteq> 0"

definition bs_or :: "BitSet \<Rightarrow> BitSet \<Rightarrow> BitSet" where
  "bs_or a b = map2 (\<lambda>x y. x OR y) a b"

text \<open>\<open>operator<<\<close>: the digits printed for each byte, most significant bit first.\<close>

definition bs_print :: "nat \<Rightarrow> BitSet \<Rightarrow> bool list" where
  "bs_print max_bit bs =
     concat (map (\<lambda>byte. map (\<lambda>b. bit (bs ! byte) (7 - b))
       (takeWhile (\<lambda>b. byte * 8 + b < max_bit + 1) [0..<8])) [0..<byte_size max_bit])"

definition bitset_serialize :: "BitSet \<Rightarrow> u8 list" where
  "bitset_serialize bs = bs"

definition bitset_deserialize :: "nat \<Rightarrow> u8 list \<Rightarrow> BitSet option" where
  "bitset_deserialize max_bit vec = (if length vec \<noteq> byte_size max_bit then None else Some vec)"


section \<open>The word sets of the eBPF programs\<close>

definition bpf_bitset64_set :: "u64 list \<Rightarrow> u8 \<Rightarrow> u64 list" where
  "bpf_bitset64_set bits idx =
     bits[unat idx div 64 := bits ! (unat idx div 64) OR push_bit (unat idx mod 64) 1]"

definition bpf_bitset64_test :: "u64 list \<Rightarrow> u8 \<Rightarrow> bool" where
  "bpf_bitset64_test bits idx \<longleftrightarrow> bits ! (unat idx div 64) AND push_bit (unat idx mod 64) 1 \<noteq> 0"

text \<open>\<open>memcpy\<close> of bytes over an array of \<open>n\<close> words on a little-endian host.\<close>

definition bytes_u64 :: "u8 list \<Rightarrow> u64" where
  "bytes_u64 bs = foldr (\<lambda>b acc. ucast b OR push_bit 8 acc) bs 0"

definition memcpy_u64s :: "nat \<Rightarrow> u8 list \<Rightarrow> u64 list" where
  "memcpy_u64s n bs = map (\<lambda>k. bytes_u64 (take 8 (drop (8 * k) bs))) [0..<n]"


section \<open>Bad TCP flag combinations\<close>

definition XFW_BIT_FIN :: u8 where "XFW_BIT_FIN = 0x01"
definition XFW_BIT_SYN :: u8 where "XFW_BIT_SYN = 0x02"
definition XFW_BIT_RST :: u8 where "XFW_BIT_RST = 0x04"
definition XFW_BIT_PSH :: u8 where "XFW_BIT_PSH = 0x08"
definition XFW_BIT_ACK :: u8 where "XFW_BIT_ACK = 0x10"
definition XFW_BIT_URG :: u8 where "XFW_BIT_URG = 0x20"
definition XFW_BIT_NONE :: u8 where "XFW_BIT_NONE = 0x00"
definition XFW_BIT_CONTROL_MAX :: nat where "XFW_BIT_CONTROL_MAX = 0xFF"

lemmas control_bit_defs = XFW_BIT_FIN_def XFW_BIT_SYN_def XFW_BIT_RST_def XFW_BIT_PSH_def
  XFW_BIT_ACK_def XFW_BIT_URG_def XFW_BIT_NONE_def

definition flags_match :: "u8 \<Rightarrow> u8 \<Rightarrow> bool" where
  "flags_match val m \<longleftrightarrow> val AND m = m"

definition is_rfc_prohibited_combination :: "u8 \<Rightarrow> bool" where
  "is_rfc_prohibited_combination c \<longleftrightarrow>
     flags_match c (XFW_BIT_SYN OR XFW_BIT_FIN) \<or> flags_match c (XFW_BIT_SYN OR XFW_BIT_RST)
     \<or> flags_match c (XFW_BIT_RST OR XFW_BIT_FIN)"

definition is_suspicious_combination :: "u8 \<Rightarrow> bool" where
  "is_suspicious_combination flag \<longleftrightarrow>
     flag = XFW_BIT_FIN \<or> flag = XFW_BIT_NONE
     \<or> flags_match flag (XFW_BIT_FIN OR XFW_BIT_PSH OR XFW_BIT_URG)
     \<or> flags_match flag (XFW_BIT_SYN OR XFW_BIT_PSH) \<or> flags_match flag (XFW_BIT_SYN OR XFW_BIT_URG)
     \<or> flags_match flag (XFW_BIT_RST OR XFW_BIT_PSH) \<or> flags_match flag (XFW_BIT_RST OR XFW_BIT_URG)"

definition make_rules_bitset :: "(u8 \<Rightarrow> bool) \<Rightarrow> BitSet" where
  "make_rules_bitset check =
     fold (\<lambda>i bs. if check (word_of_nat i) then bs_set bs i else bs)
       [0..<XFW_BIT_CONTROL_MAX] (bs_default XFW_BIT_CONTROL_MAX)"

definition xfw_prohibited_rules :: BitSet where
  "xfw_prohibited_rules = make_rules_bitset is_rfc_prohibited_combination"

definition xfw_suspicious_rules :: BitSet where
  "xfw_suspicious_rules = make_rules_bitset is_suspicious_combination"


section \<open>What a bit set is\<close>

text \<open>
  The contract both representations keep, over the sets they can represent: the elements
  up to \<open>max_bit\<close>.
\<close>

locale bit_set =
  fixes wf :: "'s \<Rightarrow> bool" and dom_ok :: "'i \<Rightarrow> bool"
    and add :: "'s \<Rightarrow> 'i \<Rightarrow> 's" and mem :: "'s \<Rightarrow> 'i \<Rightarrow> bool"
  assumes wf_add: "wf s \<Longrightarrow> dom_ok i \<Longrightarrow> wf (add s i)"
    and mem_add: "wf s \<Longrightarrow> dom_ok i \<Longrightarrow> dom_ok j \<Longrightarrow> mem (add s i) j \<longleftrightarrow> i = j \<or> mem s j"
begin

lemma wf_fold: "wf s \<Longrightarrow> list_all dom_ok xs \<Longrightarrow> wf (fold (\<lambda>i s. if c i then add s i else s) xs s)"
  by (induction xs arbitrary: s) (auto simp: wf_add)

lemma mem_fold:
  "wf s \<Longrightarrow> list_all dom_ok xs \<Longrightarrow> dom_ok j \<Longrightarrow>
     mem (fold (\<lambda>i s. if c i then add s i else s) xs s) j \<longleftrightarrow> (j \<in> set xs \<and> c j) \<or> mem s j"
  by (induction xs arbitrary: s) (auto simp: wf_add mem_add)

end

lemma and_push_bit_1: "(x AND push_bit n 1 \<noteq> 0) = bit (x :: 'a::len word) n"
  by (rule bit_iff_and_push_bit_not_eq_0[symmetric])

lemma bit_or_push_bit_1:
  "n < LENGTH('a) \<Longrightarrow> bit (x OR push_bit n 1) m \<longleftrightarrow> bit (x :: 'a::len word) m \<or> m = n"
  by (auto simp: bit_or_iff bit_exp_iff)

lemma bs_test_bit: "bs_test bs i = bit (bs ! (i div 8)) (i mod 8)"
  unfolding bs_test_def and_push_bit_1 ..

lemma bpf_bitset64_test_bit: "bpf_bitset64_test bits i = bit (bits ! (unat i div 64)) (unat i mod 64)"
  unfolding bpf_bitset64_test_def and_push_bit_1 ..

lemma div_mod_eq: "(i div m = j div m \<and> i mod m = j mod m) \<longleftrightarrow> i = (j :: nat)"
  by (metis div_mult_mod_eq)

lemma div_mod_split: "8 * (i div 64) + i mod 64 div 8 = (i :: nat) div 8"
proof -
  have "i mod (8 * 8) = 8 * (i div 8 mod 8) + i mod 8" by (rule mod_mult2_eq)
  moreover have "i div (8 * 8) = i div 8 div 8" by (rule div_mult2_eq)
  ultimately show ?thesis by simp
qed

lemma byte_size_covers: "i \<le> max_bit \<Longrightarrow> i div 8 < byte_size max_bit"
  by (simp add: byte_size_def)

interpretation bytes: bit_set "\<lambda>bs. length bs = byte_size max_bit" "\<lambda>i. i \<le> max_bit" bs_set bs_test
  for max_bit
proof
  show "length (bs_set s i) = byte_size max_bit" if "length s = byte_size max_bit" for s i
    using that by (simp add: bs_set_def)
  show "bs_test (bs_set s i) j \<longleftrightarrow> i = j \<or> bs_test s j"
    if "length s = byte_size max_bit" "i \<le> max_bit" "j \<le> max_bit" for s i j
    unfolding bs_test_bit bs_set_def
    using that byte_size_covers[of i max_bit] div_mod_eq[of i 8 j]
      bit_or_push_bit_1[of "i mod 8" "s ! (i div 8)" "j mod 8"]
    by (cases "i div 8 = j div 8") auto
qed

interpretation words: bit_set "\<lambda>bits. length bits = 4" "\<lambda>_. True" bpf_bitset64_set bpf_bitset64_test
proof
  show "length (bpf_bitset64_set s i) = 4" if "length s = 4" for s i
    using that by (simp add: bpf_bitset64_set_def)
  show "bpf_bitset64_test (bpf_bitset64_set s i) j \<longleftrightarrow> i = j \<or> bpf_bitset64_test s j"
    if "length s = 4" for s i j
  proof -
    have "unat i < 256" using unsigned_less[of i, where ?'a = nat] by simp
    then show ?thesis
      unfolding bpf_bitset64_test_bit bpf_bitset64_set_def
      using that div_mod_eq[of "unat i" 64 "unat j"] word_unat_eq_iff[of i j]
        bit_or_push_bit_1[of "unat i mod 64" "s ! (unat i div 64)" "unat j mod 64"]
      by (cases "unat i div 64 = unat j div 64") auto
  qed
qed



section \<open>Properties\<close>

lemma bit_bytes_u64:
  "n < 64 \<Longrightarrow> bit (bytes_u64 bs) n \<longleftrightarrow> n div 8 < length bs \<and> bit (bs ! (n div 8)) (n mod 8)"
proof (induction bs arbitrary: n)
  case (Cons b bs)
  have step: "bit (bytes_u64 (b # bs)) n \<longleftrightarrow> (if n < 8 then bit b n else bit (bytes_u64 bs) (n - 8))"
    using Cons.prems by (auto simp: bytes_u64_def bit_or_iff bit_ucast_iff bit_push_bit_iff
        dest: bit_imp_le_length)
  show ?case
  proof (cases "n < 8")
    case False
    then have "n div 8 = Suc ((n - 8) div 8)" "n mod 8 = (n - 8) mod 8"
      by (simp_all add: le_div_geq le_mod_geq not_less)
    then show ?thesis using step False Cons.IH[of "n - 8"] Cons.prems by simp
  qed (use step in simp)
qed (simp add: bytes_u64_def)

text \<open>
  What the manager sets is what the datapath sees: a byte set copied over the
  configuration's word array answers every membership query as the byte set does.
\<close>

theorem bitset_copy_agrees:
  assumes "length bs = 32"
  shows "bpf_bitset64_test (memcpy_u64s 4 bs) i = bs_test bs (unat i)"
proof -
  let ?i = "unat i"
  have i: "?i < 256" using unsigned_less[of i, where ?'a = nat] by simp
  then have "?i div 64 < 4" by simp
  then have "memcpy_u64s 4 bs ! (?i div 64) = bytes_u64 (take 8 (drop (8 * (?i div 64)) bs))"
    by (simp add: memcpy_u64s_def nth_upt del: upt_Suc)
  moreover have j: "8 * (?i div 64) + ?i mod 64 div 8 = ?i div 8" "?i mod 64 div 8 < 8"
    by (rule div_mod_split) (simp add: less_mult_imp_div_less)
  then have "?i mod 64 div 8 < length (take 8 (drop (8 * (?i div 64)) bs))"
    using i assms by (simp add: less_diff_conv)
  moreover from j have "take 8 (drop (8 * (?i div 64)) bs) ! (?i mod 64 div 8) = bs ! (?i div 8)"
    using i assms by simp
  moreover have "?i mod 64 mod 8 = ?i mod 8" by (simp add: mod_mod_cancel)
  ultimately show ?thesis
    by (simp add: bpf_bitset64_test_bit bs_test_bit bit_bytes_u64)
qed

lemma bs_test_default: "i \<le> max_bit \<Longrightarrow> \<not> bs_test (bs_default max_bit) i"
  using byte_size_covers[of i max_bit] by (simp add: bs_test_bit bs_default_def)

lemma make_rules_bitset_mem:
  "bs_test (make_rules_bitset check) (unat c) \<longleftrightarrow> check c \<and> c \<noteq> 0xFF"
proof -
  have c: "unat c \<le> 255" using unsigned_less[of c, where ?'a = nat] by simp
  have "unat c < 255 \<longleftrightarrow> c \<noteq> 0xFF"
    using c by (auto simp: word_unat_eq_iff)
  then show ?thesis
    using bytes.mem_fold[of "bs_default 255" 255 "[0..<255]" "unat c" "\<lambda>i. check (word_of_nat i)"] c
    by (simp add: conj_commute make_rules_bitset_def XFW_BIT_CONTROL_MAX_def bs_default_def list_all_iff
        bs_test_default[unfolded bs_default_def])
qed

text \<open>
  C33. The set of RFC-prohibited flag combinations the manager installs has every
  prohibited combination except 0xFF: the loop that builds it stops before the byte in
  which all eight flags are set, although that combination is prohibited.
\<close>

theorem prohibited_rules_miss_all_flags:
  "(bs_test xfw_prohibited_rules (unat c) \<longleftrightarrow> is_rfc_prohibited_combination c \<and> c \<noteq> 0xFF) \<and>
   is_rfc_prohibited_combination 0xFF \<and> \<not> bs_test xfw_prohibited_rules 0xFF
   \<and> \<not> bs_test xfw_suspicious_rules 0xFF"
  using make_rules_bitset_mem[of _ c] make_rules_bitset_mem[of _ "0xFF"]
  by (simp add: xfw_prohibited_rules_def xfw_suspicious_rules_def is_rfc_prohibited_combination_def
      flags_match_def control_bit_defs)

text \<open>The 0x03 combination, SYN and FIN, copied to the datapath.\<close>

theorem bitset_copy_agrees_witness:
  "bpf_bitset64_test (memcpy_u64s 4 (bs_set (bs_default 255) 3)) 3
   \<and> \<not> bpf_bitset64_test (memcpy_u64s 4 (bs_set (bs_default 255) 3)) 200"
proof -
  have "length (bs_set (bs_default 255) 3) = 32"
    by (simp add: bs_set_def bs_default_def byte_size_def)
  from bitset_copy_agrees[OF this, of 3] bitset_copy_agrees[OF this, of 200]
  show ?thesis
    by (simp add: bs_test_bit bs_set_def bs_default_def byte_size_def bit_or_iff bit_exp_iff)
qed

text \<open>
  A bit set survives the wire: deserialising what was serialised gives back the set,
  and a vector of any other length is refused.
\<close>

lemma bitset_roundtrip:
  "bitset_deserialize max_bit (bitset_serialize bs) =
     (if length bs = byte_size max_bit then Some bs else None)"
  by (simp add: bitset_deserialize_def bitset_serialize_def)


end
