(* ===== verification/TcpAnomaly.thy ===== *)
theory TcpAnomaly
  imports PacketFilter Parsing Bitset
begin

text \<open>
  The TCP anomaly filter of \<open>bpf/tcp_anomaly_filter.h\<close>: forbidden flag combinations,
  port 0, and SYN packets without options, with payload or with a given sequence number.
\<close>

definition tcp_anomaly_filter :: "env \<Rightarrow> XfwGlobalCtx \<Rightarrow> nat \<Rightarrow> state \<Rightarrow> verdict \<times> state" where
  "tcp_anomaly_filter E c th s =
     (let p = pkt s; ta = tcp_anomaly (rules (cfg c)) in
      if \<not> ta_enabled ta then (XFW_CTX_CONTINUE, s)
      else let tcp_flags = ucast (drop_bit 8 (ld32 p (th + 12))) in
      if bpf_bitset64_test (bad_flags ta) tcp_flags then XFW_MAKE_CTX_DROP E c XFW_DROP_TCP_ANOM_BAD_FLAGS s
      else if l4_source p th = 0 \<or> l4_dest p th = 0
      then XFW_MAKE_CTX_DROP E c XFW_DROP_TCP_ANOM_ZERO_PORT s
      else if \<not> tcp_syn p th then (XFW_CTX_CONTINUE, s)
      else if syn_without_opt_enabled ta \<and> tcp_doff p th \<le> 5
      then XFW_MAKE_CTX_DROP E c XFW_DROP_TCP_ANOM_SYN_NO_OPTIONS s
      else if syn_with_payload_enabled ta \<and> th + unat (tcp_doff p th) * 4 < cur_end (hdr_cur c)
      then XFW_MAKE_CTX_DROP E c XFW_DROP_TCP_ANOM_SYN_HAS_DATA s
      else if syn_seqno_enabled ta \<and> tcp_seq p th = syn_seqno_value ta
      then XFW_MAKE_CTX_DROP E c XFW_DROP_TCP_ANOM_SYN_BAD_SEQ s
      else (XFW_CTX_CONTINUE, s))"

interpretation tcp_anom: packet_filter E "pkt_sz c" "tcp_anomaly_filter E c th" for E c th
  unfolding tcp_anomaly_filter_def Let_def by unfold_locales (intro acc_intros)

text \<open>The byte taken from the fourth word of the header is the flags byte.\<close>

lemma tcp_flag_word_byte: "ucast (drop_bit 8 (ld32 p (th + 12))) = tcp_flags_byte p th"
proof (rule bit_word_eqI)
  fix n assume "n < LENGTH(8)"
  then show "bit (ucast (drop_bit 8 (ld32 p (th + 12))) :: u8) n = bit (tcp_flags_byte p th) n"
    by (auto simp: ld32_def tcp_flags_byte_def bit_ucast_iff bit_drop_bit_eq bit_or_iff bit_push_bit_iff
        add.commute[of 13] dest: bit_imp_le_length)
qed

lemma tcp_anomaly_verdict: "fst (tcp_anomaly_filter E c th s) \<in> {XFW_CTX_CONTINUE, XFW_CTX_DROP}"
  by (simp add: tcp_anomaly_filter_def XFW_MAKE_CTX_DROP_def Let_def)

text \<open>
  With the anomaly filter on, a TCP packet gets past it exactly if its flags byte is
  not in the configured set, neither port is 0 and, for a SYN, none of the enabled checks
  on options, payload and sequence number applies; otherwise it is dropped.
\<close>

theorem tcp_anomaly_decides:
  assumes "ta_enabled (tcp_anomaly (rules (cfg c)))"
  shows "fst (tcp_anomaly_filter E c th s) =
     (if \<not> bpf_bitset64_test (bad_flags (tcp_anomaly (rules (cfg c)))) (tcp_flags_byte (pkt s) th) \<and>
         l4_source (pkt s) th \<noteq> 0 \<and> l4_dest (pkt s) th \<noteq> 0 \<and>
         (tcp_syn (pkt s) th \<longrightarrow>
            \<not> (syn_without_opt_enabled (tcp_anomaly (rules (cfg c))) \<and> tcp_doff (pkt s) th \<le> 5) \<and>
            \<not> (syn_with_payload_enabled (tcp_anomaly (rules (cfg c))) \<and>
               th + unat (tcp_doff (pkt s) th) * 4 < cur_end (hdr_cur c)) \<and>
            \<not> (syn_seqno_enabled (tcp_anomaly (rules (cfg c))) \<and>
               tcp_seq (pkt s) th = syn_seqno_value (tcp_anomaly (rules (cfg c)))))
      then XFW_CTX_CONTINUE else XFW_CTX_DROP)"
  using assms by (auto simp: tcp_anomaly_filter_def XFW_MAKE_CTX_DROP_def Let_def tcp_flag_word_byte)

text \<open>A configuration that forbids the empty flags byte and a SYN without options.\<close>

definition anomaly_ctx :: XfwGlobalCtx where
  "anomaly_ctx = (ref_ctx 0 20)\<lparr>cfg := ref_cfg\<lparr>rules := ref_rules\<lparr>tcp_anomaly :=
     \<lparr>ta_enabled = True, syn_without_opt_enabled = True, syn_with_payload_enabled = True,
      syn_seqno_enabled = False, syn_seqno_value = 0, bad_flags = [1, 0, 0, 0]\<rparr>\<rparr>\<rparr>\<rparr>"

theorem tcp_anomaly_decides_witness:
  "fst (tcp_anomaly_filter ref_env anomaly_ctx 0
      (ref_state ref_cfg [1, 2, 3, 4, 0, 0, 0, 1, 0, 0, 0, 0, 0x50, 2, 0, 0, 0, 0, 0, 0])) = XFW_CTX_DROP \<and>
   fst (tcp_anomaly_filter ref_env anomaly_ctx 0
      (ref_state ref_cfg [1, 2, 3, 4, 0, 0, 0, 1, 0, 0, 0, 0, 0x50, 16, 0, 0, 0, 0, 0, 0])) = XFW_CTX_CONTINUE"
proof -
  have e: "ta_enabled (tcp_anomaly (rules (cfg anomaly_ctx)))" by (simp add: anomaly_ctx_def)
  show ?thesis
    unfolding tcp_anomaly_decides[OF e]
    by (simp add: anomaly_ctx_def ref_ctx_def ref_state_def l4_source_def l4_dest_def tcp_syn_def tcp_doff_def
        tcp_flags_byte_def ld16_def ld8_def bpf_bitset64_test_def drop_bit_eq_div)
qed

end
