(* ===== verification/TcpAuth.thy ===== *)
theory TcpAuth
  imports PacketFilter Parsing
begin

text \<open>
  The TCP authentication filter of \<open>bpf/tcp_auth.h\<close>: a map of known flows, filled by the
  egress program (and by \<open>xdp.c\<close> after a valid SYN cookie), that the ingress program
  requires a packet to belong to.
\<close>

definition TCP_AUTH_CONN_CLOSE_TIMEOUT_JIFF :: "env \<Rightarrow> u64" where
  "TCP_AUTH_CONN_CLOSE_TIMEOUT_JIFF E = 60 * CONFIG_HZ E"

definition TCP_AUTH_CONN_MAX_FIN_TIME_JIFF :: "env \<Rightarrow> u64" where
  "TCP_AUTH_CONN_MAX_FIN_TIME_JIFF E = 18446744073709551615 - TCP_AUTH_CONN_CLOSE_TIMEOUT_JIFF E"

definition tcp_auth_conn_lookup :: "XfwSockAddr \<Rightarrow> state \<Rightarrow> XfwTcpConnState option" where
  "tcp_auth_conn_lookup addr s = tcp_conn s addr"

definition tcp_auth_conn_delete :: "XfwSockAddr \<Rightarrow> state \<Rightarrow> state" where
  "tcp_auth_conn_delete addr s = s\<lparr>tcp_conn := (tcp_conn s)(addr := None)\<rparr>"

definition tcp_auth_conn_add :: "env \<Rightarrow> XfwSockAddr \<Rightarrow> state \<Rightarrow> state" where
  "tcp_auth_conn_add E addr s =
     s\<lparr>tcp_conn := snd (update_tcp_conn E (tcp_conn s) addr
        \<lparr>last_fin_time_jiff = TCP_AUTH_CONN_MAX_FIN_TIME_JIFF E\<rparr>)\<rparr>"

text \<open>The entry is written through the pointer the lookup returned.\<close>

definition tcp_auth_conn_set_fin_time :: "XfwSockAddr \<Rightarrow> u64 \<Rightarrow> state \<Rightarrow> state" where
  "tcp_auth_conn_set_fin_time addr fin_time_jiff s =
     s\<lparr>tcp_conn := (tcp_conn s)(addr \<mapsto> \<lparr>last_fin_time_jiff = fin_time_jiff\<rparr>)\<rparr>"

definition tcp_auth_is_conn_outdated :: "env \<Rightarrow> XfwGlobalCtx \<Rightarrow> XfwTcpConnState \<Rightarrow> bool" where
  "tcp_auth_is_conn_outdated E c conn \<longleftrightarrow>
     last_fin_time_jiff conn + TCP_AUTH_CONN_CLOSE_TIMEOUT_JIFF E < ts_jiff c"

definition tcp_auth_has_conn_trusted :: "env \<Rightarrow> XfwGlobalCtx \<Rightarrow> XfwSockAddr \<Rightarrow> state \<Rightarrow> bool" where
  "tcp_auth_has_conn_trusted E c addr s \<longleftrightarrow>
     (case tcp_auth_conn_lookup addr s of
        None \<Rightarrow> False
      | Some conn \<Rightarrow> \<not> tcp_auth_is_conn_outdated E c conn)"

datatype XfwTcpAuthEvent = TCP_AUTH_EVENT_NORMAL | TCP_AUTH_EVENT_RST | TCP_AUTH_EVENT_FIN

definition tcp_auth_conn_ingress_filter ::
  "env \<Rightarrow> XfwGlobalCtx \<Rightarrow> XfwSockAddr \<Rightarrow> XfwTcpAuthEvent \<Rightarrow> state \<Rightarrow> verdict \<times> state" where
  "tcp_auth_conn_ingress_filter E c addr ev s =
     (if \<not> tcp_auth_enabled (rules (cfg c)) then (XFW_CTX_CONTINUE, s)
      else case tcp_auth_conn_lookup addr s of
        None \<Rightarrow> XFW_MAKE_CTX_DROP E c XFW_DROP_TCP_AUTH_FAILED s
      | Some conn \<Rightarrow>
          if tcp_auth_is_conn_outdated E c conn
          then XFW_MAKE_CTX_DROP E c XFW_DROP_TCP_AUTH_TIMEOUT (tcp_auth_conn_delete addr s)
          else (case ev of
                  TCP_AUTH_EVENT_RST \<Rightarrow> (XFW_CTX_CONTINUE, tcp_auth_conn_delete addr s)
                | TCP_AUTH_EVENT_FIN \<Rightarrow> (XFW_CTX_CONTINUE, tcp_auth_conn_set_fin_time addr (ts_jiff c) s)
                | TCP_AUTH_EVENT_NORMAL \<Rightarrow> (XFW_CTX_CONTINUE, s)))"

definition tcp_auth_conn_egress_learning :: "env \<Rightarrow> XfwGlobalCtx \<Rightarrow> state \<Rightarrow> state" where
  "tcp_auth_conn_egress_learning E c s =
     (let th = unat (l4_off c); p = pkt s in
      if \<not> th \<le> L4_OFF_MAX then s
      else if \<not> th + 20 \<le> cur_end (hdr_cur c) then s
      else let addr = \<lparr>sa_addr = ilog_addr c, sa_port = l4_dest p th\<rparr> in
      if tcp_rst p th then tcp_auth_conn_delete addr s
      else case tcp_auth_conn_lookup addr s of
        None \<Rightarrow> if \<not> tcp_auth_enabled (rules (cfg c)) \<or> tcp_syn p th
                then tcp_auth_conn_add E addr s else s
      | Some conn \<Rightarrow>
          if tcp_fin p th then tcp_auth_conn_set_fin_time addr (ts_jiff c) s
          else if tcp_auth_is_conn_outdated E c conn
          then tcp_auth_conn_set_fin_time addr (TCP_AUTH_CONN_MAX_FIN_TIME_JIFF E) s
          else s)"


section \<open>The accounting contract\<close>

lemma silent_conn [silent_intros]:
  "silent s (tcp_auth_conn_delete a s)" "silent s (tcp_auth_conn_add E a s)"
  "silent s (tcp_auth_conn_set_fin_time a t s)"
  by (simp_all add: tcp_auth_conn_delete_def tcp_auth_conn_add_def tcp_auth_conn_set_fin_time_def
      silent_updates)

lemma silent_egress_learning [silent_intros]: "silent s (tcp_auth_conn_egress_learning E c s)"
  by (simp add: tcp_auth_conn_egress_learning_def Let_def silent_conn silent_refl split: option.split)

interpretation auth: packet_filter E "pkt_sz c" "tcp_auth_conn_ingress_filter E c addr ev" for E c addr ev
proof
  show "accounted E (pkt_sz c) s (tcp_auth_conn_ingress_filter E c addr ev s)" for s
    using accounted_silent_trans[OF silent_conn(1) accounted_drop]
    by (auto simp: tcp_auth_conn_ingress_filter_def accounted_continue silent_conn silent_refl accounted_drop
        split: option.split XfwTcpAuthEvent.split)
qed


section \<open>Lifetime of a flow\<close>

text \<open>A flow that was added and never saw a FIN does not time out: the sum is the maximum.\<close>

lemma added_conn_not_outdated:
  "\<not> tcp_auth_is_conn_outdated E c \<lparr>last_fin_time_jiff = TCP_AUTH_CONN_MAX_FIN_TIME_JIFF E\<rparr>"
  using unsigned_less[of "ts_jiff c", where ?'a = nat]
  by (simp add: tcp_auth_is_conn_outdated_def TCP_AUTH_CONN_MAX_FIN_TIME_JIFF_def not_less word_le_nat_alt)

lemma ingress_verdict:
  assumes "tcp_auth_enabled (rules (cfg c))"
  shows "fst (tcp_auth_conn_ingress_filter E c addr ev s) =
     (if tcp_auth_has_conn_trusted E c addr s then XFW_CTX_CONTINUE else XFW_CTX_DROP)"
  using assms
  by (auto simp: tcp_auth_conn_ingress_filter_def tcp_auth_has_conn_trusted_def XFW_MAKE_CTX_DROP_def
      split: option.split XfwTcpAuthEvent.split)

text \<open>
  The flow table over time: the packets the egress program sends, the packets the ingress
  program checks, and the flows \<open>xdp.c\<close> adds after a valid SYN cookie.
\<close>

datatype auth_event =
    Egress XfwGlobalCtx packet
  | Ingress XfwGlobalCtx XfwSockAddr XfwTcpAuthEvent
  | Cookie XfwSockAddr

primrec auth_apply :: "env \<Rightarrow> auth_event \<Rightarrow> state \<Rightarrow> state" where
  "auth_apply E (Egress c p) s = tcp_auth_conn_egress_learning E c (s\<lparr>pkt := p\<rparr>)"
| "auth_apply E (Ingress c addr ev) s = snd (tcp_auth_conn_ingress_filter E c addr ev s)"
| "auth_apply E (Cookie addr) s = tcp_auth_conn_add E addr s"

inductive auth_step :: "env \<Rightarrow> state \<Rightarrow> auth_event list \<Rightarrow> state \<Rightarrow> bool" for E where
  init: "auth_step E s [] s"
| step: "auth_step E s tr s' \<Longrightarrow> auth_step E s (tr @ [e]) (auth_apply E e s')"

text \<open>The configuration of an event requires authentication.\<close>

primrec auth_on :: "auth_event \<Rightarrow> bool" where
  "auth_on (Egress c p) = tcp_auth_enabled (rules (cfg c))"
| "auth_on (Ingress c addr ev) = tcp_auth_enabled (rules (cfg c))"
| "auth_on (Cookie addr) = True"

text \<open>The events that may open a flow: an outgoing SYN to the peer, or a valid cookie from it.\<close>

primrec opens :: "auth_event \<Rightarrow> XfwSockAddr \<Rightarrow> bool" where
  "opens (Egress c p) a \<longleftrightarrow> tcp_syn p (unat (l4_off c)) \<and>
     a = \<lparr>sa_addr = ilog_addr c, sa_port = l4_dest p (unat (l4_off c))\<rparr>"
| "opens (Ingress c addr ev) a \<longleftrightarrow> False"
| "opens (Cookie addr) a \<longleftrightarrow> a = addr"

lemma add_conn_dom:
  assumes "update_law (update_tcp_conn E)"
  shows "dom (tcp_conn (tcp_auth_conn_add E a s)) \<subseteq> insert a (dom (tcp_conn s))"
proof -
  let ?v = "\<lparr>last_fin_time_jiff = TCP_AUTH_CONN_MAX_FIN_TIME_JIFF E\<rparr>"
  obtain r m where "update_tcp_conn E (tcp_conn s) a ?v = (r, m)" by fastforce
  then show ?thesis
    using update_lawD(3)[OF assms, of "tcp_conn s" a ?v r m]
    by (fastforce simp: tcp_auth_conn_add_def domIff)
qed

lemma auth_apply_dom:
  assumes "update_law (update_tcp_conn E)" "auth_on e"
  shows "a \<in> dom (tcp_conn (auth_apply E e s)) \<Longrightarrow> a \<in> dom (tcp_conn s) \<or> opens e a"
  using assms(2)
proof (cases e)
  case (Egress c p)
  then show "a \<in> dom (tcp_conn (auth_apply E e s)) \<Longrightarrow> ?thesis"
    using assms(2) add_conn_dom[OF assms(1), of "\<lparr>sa_addr = ilog_addr c, sa_port = l4_dest p (unat (l4_off c))\<rparr>" "s\<lparr>pkt := p\<rparr>"]
    by (auto simp: tcp_auth_conn_egress_learning_def Let_def tcp_auth_conn_delete_def
        tcp_auth_conn_lookup_def tcp_auth_conn_set_fin_time_def split: if_splits option.splits)
next
  case (Ingress c addr ev)
  then show "a \<in> dom (tcp_conn (auth_apply E e s)) \<Longrightarrow> ?thesis"
    by (auto simp: tcp_auth_conn_ingress_filter_def tcp_auth_conn_lookup_def tcp_auth_conn_delete_def
        tcp_auth_conn_set_fin_time_def XFW_MAKE_CTX_DROP_def
        split: if_splits option.splits XfwTcpAuthEvent.splits)
next
  case (Cookie addr)
  then show "a \<in> dom (tcp_conn (auth_apply E e s)) \<Longrightarrow> ?thesis"
    using add_conn_dom[OF assms(1), of addr s] by auto
qed

lemma auth_step_opened:
  assumes "auth_step E s tr s'" "update_law (update_tcp_conn E)" "list_all auth_on tr"
  shows "a \<in> dom (tcp_conn s') \<Longrightarrow> a \<in> dom (tcp_conn s) \<or> (\<exists>e \<in> set tr. opens e a)"
  using assms
proof (induction rule: auth_step.induct)
  case (step s tr s' e)
  then show ?case using auth_apply_dom[of E e a s'] by auto
qed simp


section \<open>Properties\<close>


definition auth_cfg :: XfwFilterCfg where
  "auth_cfg = ref_cfg\<lparr>rules := ref_rules\<lparr>tcp_auth_enabled := True\<rparr>\<rparr>"

definition auth_ctx :: XfwGlobalCtx where
  "auth_ctx = (ref_ctx 1000000 20)\<lparr>cfg := auth_cfg, hdr_cur := \<lparr>pos = 20, cur_end = 20\<rparr>,
     ilog_addr := xfw_ipv4_to_ipv6_mapped 0x010200C0, l4_proto := XFW_L4_PROTO_TCP\<rparr>"

text \<open>A SYN from port 4660 to port 80.\<close>

definition syn_pkt :: packet where
  "syn_pkt = [0x12, 0x34, 0, 80, 0, 0, 0, 1, 0, 0, 0, 0, 0x50, 0x02, 0xFF, 0xFF, 0, 0, 0, 0]"

definition syn_peer :: XfwSockAddr where
  "syn_peer = \<lparr>sa_addr = xfw_ipv4_to_ipv6_mapped 0x010200C0, sa_port = 0x5000\<rparr>"

lemma syn_pkt_fields:
  "tcp_syn syn_pkt 0" "\<not> tcp_rst syn_pkt 0" "\<not> tcp_fin syn_pkt 0" "l4_dest syn_pkt 0 = 0x5000"
  by (simp_all add: tcp_syn_def tcp_rst_def tcp_fin_def tcp_flags_byte_def l4_dest_def ld16_def ld8_def
      syn_pkt_def)

lemma auth_after_syn:
  "tcp_conn (auth_apply ref_env (Egress auth_ctx syn_pkt) (ref_state auth_cfg [])) =
     [syn_peer \<mapsto> \<lparr>last_fin_time_jiff = TCP_AUTH_CONN_MAX_FIN_TIME_JIFF ref_env\<rparr>]"
  by (simp add: tcp_auth_conn_egress_learning_def Let_def tcp_auth_conn_lookup_def tcp_auth_conn_add_def
      syn_pkt_fields ref_state_def ref_env_def plain_update_def auth_ctx_def ref_ctx_def syn_peer_def)

lemma auth_ctx_on: "tcp_auth_enabled (rules (cfg auth_ctx))"
  by (simp add: auth_ctx_def auth_cfg_def)

lemma auth_ctx_ts: "ts_jiff auth_ctx = 1000000"
  by (simp add: auth_ctx_def ref_ctx_def)

lemma ref_env_hz: "CONFIG_HZ ref_env = 250"
  by (simp add: ref_env_def)


text \<open>
  An outgoing SYN to a peer that is not in the table opens the flow for good: when
  the table takes the entry, packets of that peer get past the filter at any later time.
\<close>

theorem outgoing_syn_opens_flow:
  assumes "update_law (update_tcp_conn E)"
    "unat (l4_off c) \<le> L4_OFF_MAX" "unat (l4_off c) + 20 \<le> cur_end (hdr_cur c)"
    "tcp_syn (pkt s) (unat (l4_off c))" "\<not> tcp_rst (pkt s) (unat (l4_off c))"
    "a = \<lparr>sa_addr = ilog_addr c, sa_port = l4_dest (pkt s) (unat (l4_off c))\<rparr>"
    "tcp_conn s a = None"
    "0 \<le> fst (update_tcp_conn E (tcp_conn s) a \<lparr>last_fin_time_jiff = TCP_AUTH_CONN_MAX_FIN_TIME_JIFF E\<rparr>)"
  shows "fst (tcp_auth_conn_ingress_filter E c' a TCP_AUTH_EVENT_NORMAL
     (tcp_auth_conn_egress_learning E c s)) = XFW_CTX_CONTINUE"
proof -
  let ?v = "\<lparr>last_fin_time_jiff = TCP_AUTH_CONN_MAX_FIN_TIME_JIFF E\<rparr>"
  obtain r m where u: "update_tcp_conn E (tcp_conn s) a ?v = (r, m)" by fastforce
  then have "m a = Some ?v" using assms(1,8) update_lawD(1) by fastforce
  moreover have "tcp_auth_conn_egress_learning E c s = s\<lparr>tcp_conn := m\<rparr>"
    using assms(2-7) u by (simp add: tcp_auth_conn_egress_learning_def tcp_auth_conn_lookup_def
        tcp_auth_conn_add_def)
  ultimately show ?thesis
    by (cases "tcp_auth_enabled (rules (cfg c'))")
      (simp_all add: ingress_verdict tcp_auth_has_conn_trusted_def tcp_auth_conn_lookup_def
        added_conn_not_outdated tcp_auth_conn_ingress_filter_def)
qed

theorem outgoing_syn_opens_flow_witness:
  "fst (tcp_auth_conn_ingress_filter ref_env auth_ctx syn_peer TCP_AUTH_EVENT_NORMAL
     (tcp_auth_conn_egress_learning ref_env auth_ctx (ref_state auth_cfg syn_pkt))) = XFW_CTX_CONTINUE"
  by (rule outgoing_syn_opens_flow)
    (simp_all add: plain_update_law plain_update_def ref_env_def auth_ctx_def ref_ctx_def ref_state_def
      syn_pkt_fields syn_peer_def L4_OFF_MAX_def)

text \<open>
  C32. How a flow ends: after a FIN of a trusted flow its packets are accepted for sixty
  seconds and dropped from then on; after a RST they are dropped at once.
\<close>

theorem flow_teardown:
  assumes "tcp_auth_enabled (rules (cfg c))" "tcp_auth_enabled (rules (cfg c'))"
    "tcp_auth_has_conn_trusted E c a s" "unat (ts_jiff c) + 60 * unat (CONFIG_HZ E) < 2 ^ 64"
  shows "fst (tcp_auth_conn_ingress_filter E c' a ev
       (snd (tcp_auth_conn_ingress_filter E c a TCP_AUTH_EVENT_FIN s))) =
     (if unat (ts_jiff c') \<le> unat (ts_jiff c) + 60 * unat (CONFIG_HZ E) then XFW_CTX_CONTINUE
      else XFW_CTX_DROP) \<and>
   fst (tcp_auth_conn_ingress_filter E c' a ev
       (snd (tcp_auth_conn_ingress_filter E c a TCP_AUTH_EVENT_RST s))) = XFW_CTX_DROP"
proof -
  have "unat (60 * CONFIG_HZ E) = 60 * unat (CONFIG_HZ E)"
    using assms(4) by (subst unat_mult_no_wrap) simp_all
  then have t: "unat (ts_jiff c + TCP_AUTH_CONN_CLOSE_TIMEOUT_JIFF E) = unat (ts_jiff c) + 60 * unat (CONFIG_HZ E)"
    using assms(4) unfolding TCP_AUTH_CONN_CLOSE_TIMEOUT_JIFF_def by (subst unat_add_no_wrap) simp_all
  have "tcp_auth_conn_lookup a (snd (tcp_auth_conn_ingress_filter E c a TCP_AUTH_EVENT_FIN s))
      = Some \<lparr>last_fin_time_jiff = ts_jiff c\<rparr>"
    "tcp_auth_conn_lookup a (snd (tcp_auth_conn_ingress_filter E c a TCP_AUTH_EVENT_RST s)) = None"
    using assms(1,3)
    by (auto simp: tcp_auth_conn_ingress_filter_def tcp_auth_has_conn_trusted_def tcp_auth_conn_lookup_def
        tcp_auth_conn_set_fin_time_def tcp_auth_conn_delete_def split: option.splits)
  then show ?thesis
    by (simp add: ingress_verdict[OF assms(2)] tcp_auth_has_conn_trusted_def tcp_auth_is_conn_outdated_def
        word_less_nat_alt t)
qed

text \<open>At 250 jiffies per second: one minute after the FIN is in time, one jiffy more is late.\<close>

theorem flow_teardown_witness:
  "fst (tcp_auth_conn_ingress_filter ref_env (auth_ctx\<lparr>ts_jiff := 1015000\<rparr>) syn_peer TCP_AUTH_EVENT_NORMAL
     (snd (tcp_auth_conn_ingress_filter ref_env auth_ctx syn_peer TCP_AUTH_EVENT_FIN
       (auth_apply ref_env (Egress auth_ctx syn_pkt) (ref_state auth_cfg []))))) = XFW_CTX_CONTINUE \<and>
   fst (tcp_auth_conn_ingress_filter ref_env (auth_ctx\<lparr>ts_jiff := 1015001\<rparr>) syn_peer TCP_AUTH_EVENT_NORMAL
     (snd (tcp_auth_conn_ingress_filter ref_env auth_ctx syn_peer TCP_AUTH_EVENT_FIN
       (auth_apply ref_env (Egress auth_ctx syn_pkt) (ref_state auth_cfg []))))) = XFW_CTX_DROP"
proof -
  let ?s = "auth_apply ref_env (Egress auth_ctx syn_pkt) (ref_state auth_cfg [])"
  have "tcp_auth_has_conn_trusted ref_env auth_ctx syn_peer ?s"
    unfolding tcp_auth_has_conn_trusted_def tcp_auth_conn_lookup_def auth_after_syn
    by (simp add: added_conn_not_outdated)
  then show ?thesis
    using flow_teardown[OF auth_ctx_on, of "auth_ctx\<lparr>ts_jiff := 1015000\<rparr>" ref_env syn_peer ?s TCP_AUTH_EVENT_NORMAL]
      flow_teardown[OF auth_ctx_on, of "auth_ctx\<lparr>ts_jiff := 1015001\<rparr>" ref_env syn_peer ?s TCP_AUTH_EVENT_NORMAL]
    by (simp add: auth_ctx_on auth_ctx_ts ref_env_hz del: auth_apply.simps)
qed

end
