(* ===== verification/Csum.thy ===== *)
theory Csum
  imports Parsing
begin

text \<open>
  The Internet checksum code of \<open>bpf/tcp_syncookies.h\<close>. Sums are kept in 64 bits and
  folded to 16 at the end. Words are loaded in host order, as the code does; one's
  complement sums do not depend on it. Everything is stated modulo 0xFFFF, in which the
  complement of a word is its negation.
\<close>

definition csum_fold_step :: "u64 \<Rightarrow> u64" where
  "csum_fold_step csum64 =
     (if drop_bit 16 csum64 \<noteq> 0 then (csum64 AND 0xFFFF) + drop_bit 16 csum64 else csum64)"

definition csum_fold :: "u64 \<Rightarrow> u16" where
  "csum_fold csum64 = ucast (NOT ((csum_fold_step ^^ 4) csum64))"

definition csum_unfold :: "u16 \<Rightarrow> u64" where
  "csum_unfold csum = ucast (NOT csum) AND 0xFFFF"

definition XFW_DEFAULT_TTL :: u8 where "XFW_DEFAULT_TTL = 64"

text \<open>\<open>~(__be32)w\<close> for a 16-bit word, added to a 64-bit sum.\<close>

definition not_be32 :: "u16 \<Rightarrow> u64" where
  "not_be32 w = ucast (NOT (ucast w :: u32))"

definition ipv4_set_ttl_csum :: "nat \<Rightarrow> packet \<Rightarrow> u64 \<Rightarrow> packet \<times> u64" where
  "ipv4_set_ttl_csum iph p csum64 =
     (let old_w = bpf_htons (push_bit 8 (ucast (ld8 p (iph + 8))) OR ucast XFW_L4_PROTO_TCP);
          new_w = bpf_htons (push_bit 8 (ucast XFW_DEFAULT_TTL) OR ucast XFW_L4_PROTO_TCP)
      in (st8 p (iph + 8) XFW_DEFAULT_TTL, csum64 + not_be32 old_w + ucast new_w))"

definition ipv4_set_tot_len_csum :: "nat \<Rightarrow> u16 \<Rightarrow> packet \<Rightarrow> u64 \<Rightarrow> packet \<times> u64" where
  "ipv4_set_tot_len_csum iph len p csum64 =
     (st16 p (iph + 2) (bpf_htons len),
      csum64 + not_be32 (ld16 p (iph + 2)) + ucast (bpf_htons len))"

definition csum_fold32 :: "u64 \<Rightarrow> u64" where
  "csum_fold32 csum = (csum AND 0xFFFFFFFF) + drop_bit 32 csum"

definition tcp_ipv4_csum_update :: "nat \<Rightarrow> nat \<Rightarrow> u64 \<Rightarrow> packet \<Rightarrow> packet" where
  "tcp_ipv4_csum_update iph th csum p =
     (let csum = csum + ucast (ip_saddr p iph);
          csum = csum + ucast (ip_daddr p iph);
          csum = csum + push_bit 8 (ucast XFW_L4_PROTO_TCP + ucast (tcp_doff p th) * 4);
          csum = csum_fold32 (csum_fold32 csum)
      in st16 p (th + 16) (csum_fold (csum AND 0xFFFFFFFF)))"

definition ip_words :: "XfwIp \<Rightarrow> u64" where
  "ip_words a = ucast (addr32_0 a) + ucast (addr32_1 a) + ucast (addr32_2 a) + ucast (addr32_3 a)"

definition tcp_ipv6_csum_update :: "nat \<Rightarrow> nat \<Rightarrow> u64 \<Rightarrow> packet \<Rightarrow> packet" where
  "tcp_ipv6_csum_update iph th csum p =
     (let csum = csum + ip_words (ip6_saddr p iph);
          csum = csum + ip_words (ip6_daddr p iph);
          csum = csum + ucast (bpf_htonl (ucast (tcp_doff p th) * 4));
          csum = csum + ucast (bpf_htonl (ucast XFW_L4_PROTO_TCP));
          csum = csum_fold32 (csum_fold32 csum)
      in st16 p (th + 16) (csum_fold (csum AND 0xFFFFFFFF)))"

text \<open>
  The IPv4 part of \<open>tcp_syncookies_make_synack\<close>: new TTL and total length with the header
  checksum adjusted for them, and the addresses swapped.
\<close>

definition ipv4_reply_hdr :: "nat \<Rightarrow> u16 \<Rightarrow> packet \<Rightarrow> packet" where
  "ipv4_reply_hdr iph d_len p =
     (let ip_csum = csum_unfold (ld16 p (iph + 10));
          ip_len = bpf_ntohs (ld16 p (iph + 2)) + d_len;
          (p, ip_csum) = ipv4_set_ttl_csum iph p ip_csum;
          (p, ip_csum) = ipv4_set_tot_len_csum iph ip_len p ip_csum;
          p = st16 p (iph + 10) (csum_fold ip_csum);
          saddr = ip_saddr p iph; daddr = ip_daddr p iph
      in st32 (st32 p (iph + 12) daddr) (iph + 16) saddr)"


section \<open>Folding\<close>

lemma and_mask_64: "x AND 0xFFFF = take_bit 16 (x :: u64)" "x AND 0xFFFFFFFF = take_bit 32 x"
  by (simp_all add: take_bit_eq_mask mask_eq_exp_minus_1)

lemma unat_fold_step: "unat (csum_fold_step x) = unat x mod 65536 + unat x div 65536"
proof -
  have t: "unat (take_bit 16 x) = unat x mod 65536" and d: "unat (drop_bit 16 x) = unat x div 65536"
    using unat_take_bit[of 16 x] unat_drop_bit[of 16 x] by simp_all
  have "unat x mod 65536 < 65536" "unat x div 65536 < 2 ^ 48"
    using unsigned_less[of x, where ?'a = nat] by (simp_all add: less_mult_imp_div_less)
  then have "unat (take_bit 16 x + drop_bit 16 x) = unat x mod 65536 + unat x div 65536"
    using unat_add_no_wrap[of "take_bit 16 x" "drop_bit 16 x"] unfolding t d by simp
  moreover have "unat x div 65536 = 0 \<Longrightarrow> unat x mod 65536 = unat x" by (simp add: div_eq_0_iff)
  moreover have "drop_bit 16 x \<noteq> 0 \<longleftrightarrow> unat x div 65536 \<noteq> 0"
    unfolding d[symmetric] by (simp only: unat_eq_0)
  ultimately show ?thesis unfolding csum_fold_step_def and_mask_64 by auto
qed

lemma fold_nat_mod: "(x mod 65536 + x div 65536) mod 65535 = (x :: nat) mod 65535"
proof -
  obtain q r where q: "q = x div 65536" and r: "r = x mod 65536" by simp
  have "x = (r + q) + 65535 * q" unfolding q r by simp
  then have "x mod 65535 = ((r + q) + 65535 * q) mod 65535" by simp
  also have "\<dots> = (r + q) mod 65535" by (rule mod_mult_self2)
  finally show ?thesis unfolding q r ..
qed

lemma fold_nat_bound:
  assumes "x \<le> 65536 * b + 65534" "1 \<le> (b :: nat)"
  shows "x mod 65536 + x div 65536 \<le> b + 65534"
proof -
  obtain q r where q: "q = x div 65536" and r: "r = x mod 65536" by simp
  have "x = 65536 * q + r" "r < 65536" unfolding q r by simp_all
  then have "r + q \<le> b + 65534" using assms by linarith
  then show ?thesis unfolding q r .
qed

lemma fold_steps:
  defines "f n x \<equiv> (csum_fold_step ^^ n) x"
  shows "unat (f 4 x) \<le> 65535" "unat (f 4 x) mod 65535 = unat x mod 65535" "f 4 x = 0 \<longleftrightarrow> x = 0"
proof -
  have step: "unat (f (Suc n) x) = unat (f n x) mod 65536 + unat (f n x) div 65536" for n
    unfolding f_def by (simp add: unat_fold_step)
  have "unat (f 0 x) \<le> 65536 * 2 ^ 48 + 65534"
    using unsigned_less[of x, where ?'a = nat] by (simp add: f_def)
  then have "unat (f 1 x) \<le> 2 ^ 48 + 65534" using fold_nat_bound[of "unat (f 0 x)" "2 ^ 48"] step[of 0] by simp
  then have "unat (f 2 x) \<le> 2 ^ 32 + 65534"
    using fold_nat_bound[of "unat (f 1 x)" "2 ^ 32"] step[of 1]
    by (simp only: Suc_1) simp
  then have "unat (f 3 x) \<le> 2 ^ 16 + 65534"
    using fold_nat_bound[of "unat (f 2 x)" "2 ^ 16"] step[of 2] by simp
  then show "unat (f 4 x) \<le> 65535"
    using fold_nat_bound[of "unat (f 3 x)" 1] step[of 3] by simp
  have m: "unat (f n x) mod 65535 = unat x mod 65535" for n
    by (induction n) (simp_all add: step fold_nat_mod, simp add: f_def)
  show "unat (f 4 x) mod 65535 = unat x mod 65535" by (rule m)
  have z: "f n x = 0 \<longleftrightarrow> x = 0" for n
  proof (induction n)
    case (Suc n)
    have "f (Suc n) x = 0 \<longleftrightarrow> unat (f (Suc n) x) = 0" by (simp only: unat_eq_0)
    also have "\<dots> \<longleftrightarrow> unat (f n x) = 0"
      unfolding step by (metis add_is_0 div_mult_mod_eq mult_0 mod_0 div_0)
    finally show ?case using Suc by (simp only: unat_eq_0)
  qed (simp add: f_def)
  show "f 4 x = 0 \<longleftrightarrow> x = 0" by (rule z)
qed

lemma unat_ucast_not:
  assumes "unat (y :: u64) \<le> 65535"
  shows "unat (ucast (NOT y) :: u16) = 65535 - unat y"
proof -
  have z: "unat (ucast y :: u16) = unat y"
    using assms by (simp add: unsigned_ucast_eq take_bit_nat_eq_self)
  have "(ucast (NOT y) :: u16) = NOT (ucast y)"
    by (rule bit_word_eqI) (simp add: bit_not_iff bit_ucast_iff)
  then show ?thesis using z by (simp add: unat_not)
qed

lemma csum_fold_unat: "unat (csum_fold x) = 65535 - unat ((csum_fold_step ^^ 4) x)"
  unfolding csum_fold_def by (rule unat_ucast_not) (rule fold_steps)

lemma csum_fold_mod: "(unat (csum_fold x) + unat x) mod 65535 = 0"
proof -
  let ?y = "unat ((csum_fold_step ^^ 4) x)"
  have "?y mod 65535 = unat x mod 65535" by (rule fold_steps(2))
  then have "(unat (csum_fold x) + unat x) mod 65535 = (unat (csum_fold x) + ?y) mod 65535"
    by (metis mod_add_right_eq)
  also have "\<dots> = 0" using fold_steps(1)[of x] by (simp add: csum_fold_unat)
  finally show ?thesis .
qed


section \<open>The IPv4 header checksum\<close>

text \<open>The sum of \<open>n\<close> words from \<open>off\<close> on; a header is valid if its sum is 0 modulo 0xFFFF.\<close>

definition word_sum :: "packet \<Rightarrow> nat \<Rightarrow> nat \<Rightarrow> nat" where
  "word_sum p off n = (\<Sum>k < n. unat (ld16 p (off + 2 * k)))"

lemma unat_csum_unfold: "unat (csum_unfold x) = 65535 - unat x"
proof -
  have "unat (ucast (NOT x) :: u64) = unat (NOT x)" by (simp add: unat_ucast_up)
  moreover have "unat (NOT x) = 65535 - unat x" by (simp add: unat_not)
  moreover have "unat (csum_unfold x) = unat (ucast (NOT x) :: u64) mod 65536"
    using unat_take_bit[of 16 "ucast (NOT x) :: u64"] unfolding csum_unfold_def and_mask_64 by simp
  ultimately show ?thesis by simp
qed

lemma unat_not_be32: "unat (not_be32 w) = 4294967295 - unat w"
proof -
  have "unat (NOT (ucast w :: u32)) = 4294967295 - unat (ucast w :: u32)" by (simp add: unat_not)
  then show ?thesis by (simp add: not_be32_def unat_ucast_up)
qed

lemma st_other [ldst_simps]:
  "j + 1 < i \<or> i < j \<Longrightarrow> ld16 (st8 p i b) j = ld16 p j"
  "j + 1 < i \<or> i + 1 < j \<Longrightarrow> ld16 (st16 p i w) j = ld16 p j"
  "j + 1 < i \<or> i + 3 < j \<Longrightarrow> ld16 (st32 p i v) j = ld16 p j"
  by (auto simp: ld16_def ld8_st8 ld8_st16 ld8_st32)

text \<open>The words of the header after the update.\<close>

lemma htons_ttl_word: "bpf_htons (push_bit 8 (ucast t) OR ucast pr) = ucast (t :: u8) OR push_bit 8 (ucast (pr :: u8))"
  by (rule bit_word_eqI)
    (auto simp: bit_bswap16 bit_or_iff bit_push_bit_iff bit_ucast_iff dest: bit_imp_le_length)

lemma ipv4_reply_hdr_words:
  fixes d :: u16
  assumes "iph + 20 \<le> length p" "ip_protocol p iph = XFW_L4_PROTO_TCP"
  defines "q \<equiv> ipv4_reply_hdr iph d p" and "W k \<equiv> ld16 p (iph + 2 * k)"
    and "len' \<equiv> bpf_htons (bpf_ntohs (ld16 p (iph + 2)) + d)"
    and "ttl' \<equiv> ucast XFW_DEFAULT_TTL OR push_bit 8 (ucast XFW_L4_PROTO_TCP)"
  shows "ld16 q (iph + 2 * 0) = W 0" "ld16 q (iph + 2 * 1) = len'" "ld16 q (iph + 2 * 2) = W 2"
    "ld16 q (iph + 2 * 3) = W 3" "ld16 q (iph + 2 * 4) = ttl'"
    "ld16 q (iph + 2 * 5) = csum_fold (csum_unfold (W 5) + not_be32 (W 4) + ucast ttl' + not_be32 (W 1) + ucast len')"
    "ld16 q (iph + 2 * 6) = W 8" "ld16 q (iph + 2 * 7) = W 9" "ld16 q (iph + 2 * 8) = W 6"
    "ld16 q (iph + 2 * 9) = W 7" "10 \<le> k \<Longrightarrow> ld16 q (iph + 2 * k) = W k"
proof -
  have W4: "W 4 = ucast (ld8 p (iph + 8)) OR push_bit 8 (ucast XFW_L4_PROTO_TCP)"
    using assms(2) by (simp add: W_def ld16_def ip_protocol_def add.commute[of 9])
  define C where "C = csum_fold (csum_unfold (W 5) + not_be32 (W 4) + ucast ttl' + not_be32 (W 1) + ucast len')"
  define p1 where "p1 = st8 p (iph + 8) XFW_DEFAULT_TTL"
  define p3 where "p3 = st16 (st16 p1 (iph + 2) len') (iph + 10) C"
  have "ld16 p1 (iph + 2) = W 1" by (simp add: p1_def W_def ldst_simps)
  then have q: "q = st32 (st32 p3 (iph + 12) (ip_daddr p3 iph)) (iph + 16) (ip_saddr p3 iph)"
    unfolding q_def ipv4_reply_hdr_def ipv4_set_ttl_csum_def ipv4_set_tot_len_csum_def Let_def case_prod_conv
      p3_def C_def p1_def[symmetric] htons_ttl_word ttl'_def[symmetric] W4[symmetric] len'_def[symmetric]
    by (simp add: W_def)
  have p3: "ld16 p3 (iph + 2 * 0) = W 0" "ld16 p3 (iph + 2 * 1) = len'" "ld16 p3 (iph + 2 * 2) = W 2"
    "ld16 p3 (iph + 2 * 3) = W 3" "ld16 p3 (iph + 2 * 4) = ttl'" "ld16 p3 (iph + 2 * 5) = C"
    "6 \<le> j \<Longrightarrow> ld16 p3 (iph + 2 * j) = W j" for j
    using assms(1,2) by (simp_all add: p3_def p1_def W_def ldst_simps ttl'_def ip_protocol_def)
      (simp add: ld16_def ldst_simps add.commute[of 9])
  show "ld16 q (iph + 2 * 0) = W 0" "ld16 q (iph + 2 * 1) = len'" "ld16 q (iph + 2 * 2) = W 2"
    "ld16 q (iph + 2 * 3) = W 3" "ld16 q (iph + 2 * 4) = ttl'"
    "ld16 q (iph + 2 * 5) = csum_fold (csum_unfold (W 5) + not_be32 (W 4) + ucast ttl' + not_be32 (W 1) + ucast len')"
    "10 \<le> k \<Longrightarrow> ld16 q (iph + 2 * k) = W k"
    unfolding C_def[symmetric] using p3 by (simp_all add: q ldst_simps)
  have l: "iph + 20 \<le> length p3" using assms(1) by (simp add: p3_def p1_def)
  have "ld16 p3 (iph + 12) = W 6" "ld16 p3 (iph + 14) = W 7" "ld16 p3 (iph + 16) = W 8" "ld16 p3 (iph + 18) = W 9"
    using p3(7)[of 6] p3(7)[of 7] p3(7)[of 8] p3(7)[of 9] by simp_all
  then show "ld16 q (iph + 2 * 6) = W 8" "ld16 q (iph + 2 * 7) = W 9" "ld16 q (iph + 2 * 8) = W 6"
    "ld16 q (iph + 2 * 9) = W 7"
    using l ld16_st32(1)[of "iph + 12" p3 "ip_daddr p3 iph"] ld16_st32(2)[of "iph + 12" p3 "ip_daddr p3 iph"]
      ld16_st32(1)[of "iph + 16" "st32 p3 (iph + 12) (ip_daddr p3 iph)" "ip_saddr p3 iph"]
      ld16_st32(2)[of "iph + 16" "st32 p3 (iph + 12) (ip_daddr p3 iph)" "ip_saddr p3 iph"]
    by (simp_all add: q ldst_simps ip_daddr_def ip_saddr_def ld32_halves add.commute[of 14] add.commute[of 18])
qed

lemma csum_fold_dvd: "\<exists>k. unat (csum_fold x) + unat x = 65535 * k"
  using csum_fold_mod[of x] by (metis dvd_def mod_eq_0_iff_dvd)

lemma word_sum_split: "10 \<le> n \<Longrightarrow> word_sum p off n =
    (\<Sum>k < 10. unat (ld16 p (off + 2 * k))) + (\<Sum>k = 10..<n. unat (ld16 p (off + 2 * k)))"
  unfolding word_sum_def by (simp add: sum.atLeastLessThan_concat[of 0 10 n, symmetric] lessThan_atLeast0)

text \<open>The incremental update keeps the sum of the header's words modulo 0xFFFF.\<close>

lemma ipv4_reply_hdr_sum:
  assumes "iph + 20 \<le> length p" "ip_protocol p iph = XFW_L4_PROTO_TCP" "10 \<le> n"
  shows "word_sum (ipv4_reply_hdr iph d p) iph n mod 65535 = word_sum p iph n mod 65535"
proof -
  let ?q = "ipv4_reply_hdr iph d p"
  define l where "l = bpf_htons (bpf_ntohs (ld16 p (iph + 2)) + d)"
  define t where "t = (ucast XFW_DEFAULT_TTL OR push_bit 8 (ucast XFW_L4_PROTO_TCP) :: u16)"
  define x where "x = csum_unfold (ld16 p (iph + 2 * 5)) + not_be32 (ld16 p (iph + 2 * 4)) + ucast t
     + not_be32 (ld16 p (iph + 2 * 1)) + ucast l"
  note w = ipv4_reply_hdr_words[OF assms(1,2), where d = d, folded l_def t_def, folded x_def]
  define W where "W k = unat (ld16 p (iph + 2 * k))" for k
  have b: "W k \<le> 65535" "unat l \<le> 65535" "unat t \<le> 65535" for k
    using unsigned_less[of "ld16 p (iph + 2 * k)", where ?'a = nat] unsigned_less[of l, where ?'a = nat]
      unsigned_less[of t, where ?'a = nat] by (simp_all add: W_def)
  have "unat x = (65535 - W 5) + (4294967295 - W 4) + unat t + (4294967295 - W 1) + unat l"
    using b by (simp add: x_def W_def unat_add_no_wrap unat_csum_unfold unat_not_be32 unat_ucast_up)
  then have x: "unat x + W 5 + W 4 + W 1 = 65535 + 2 * 4294967295 + unat t + unat l"
    using b(1)[of 1] b(1)[of 4] b(1)[of 5] by simp
  obtain k where k: "unat (csum_fold x) + unat x = 65535 * k" using csum_fold_dvd by blast
  have tail: "(\<Sum>j = 10..<n. unat (ld16 ?q (iph + 2 * j))) = (\<Sum>j = 10..<n. W j)"
    by (rule sum.cong) (simp_all add: w W_def)
  define S where "S = (\<Sum>j < 10. W j)"
  define S' where "S' = (\<Sum>j < 10. unat (ld16 ?q (iph + 2 * j)))"
  have "S' = W 0 + unat l + W 2 + W 3 + unat t + unat (csum_fold x)
      + W 8 + W 9 + W 6 + W 7"
    using w by (simp add: S'_def W_def eval_nat_numeral)
  moreover have "S = W 0 + W 1 + W 2 + W 3 + W 4 + W 5 + W 6 + W 7 + W 8 + W 9"
    by (simp add: S_def eval_nat_numeral)
  ultimately have "S' + 65535 * (1 + 2 * 65537) = S + 65535 * k"
    using k x by simp
  then have "word_sum ?q iph n + 65535 * (1 + 2 * 65537) = word_sum p iph n + 65535 * k"
    using tail by (simp add: word_sum_split[OF assms(3)] W_def S_def S'_def)
  then show ?thesis by (metis mod_mult_self2)
qed


section \<open>The TCP checksum\<close>

lemma unat_fold32: "unat (csum_fold32 x) = unat x mod 4294967296 + unat x div 4294967296"
proof -
  have t: "unat (take_bit 32 x) = unat x mod 4294967296" and d: "unat (drop_bit 32 x) = unat x div 4294967296"
    using unat_take_bit[of 32 x] unat_drop_bit[of 32 x] by simp_all
  have "unat x mod 4294967296 < 4294967296" "unat x div 4294967296 < 4294967296"
    using unsigned_less[of x, where ?'a = nat] by (simp_all add: less_mult_imp_div_less)
  then show ?thesis
    using unat_add_no_wrap[of "take_bit 32 x" "drop_bit 32 x"] unfolding csum_fold32_def and_mask_64 t d by simp
qed

lemma fold32_nat_mod: "(x mod 4294967296 + x div 4294967296) mod 65535 = (x :: nat) mod 65535"
proof -
  obtain q r where q: "q = x div 4294967296" and r: "r = x mod 4294967296" by simp
  have "x = (r + q) + 65535 * (65537 * q)" unfolding q r by simp
  then have "x mod 65535 = ((r + q) + 65535 * (65537 * q)) mod 65535" by simp
  also have "\<dots> = (r + q) mod 65535" by (rule mod_mult_self2)
  finally show ?thesis unfolding q r ..
qed

lemma fold32_twice: "unat (csum_fold32 (csum_fold32 x)) < 4294967296"
proof -
  obtain y where y: "y = unat (csum_fold32 x)" by simp
  obtain q r where q: "q = y div 4294967296" and r: "r = y mod 4294967296" by simp
  have "unat x mod 4294967296 < 4294967296" "unat x div 4294967296 < 4294967296"
    using unsigned_less[of x, where ?'a = nat] by (simp_all add: less_mult_imp_div_less)
  then have "y \<le> 8589934590" unfolding y unat_fold32 by linarith
  moreover have "y = 4294967296 * q + r" "r < 4294967296" unfolding q r by simp_all
  ultimately have "r + q < 4294967296" by linarith
  then show ?thesis unfolding unat_fold32[of "csum_fold32 x"] q r y .
qed

text \<open>The value stored makes the whole sum 0 modulo 0xFFFF, whatever the 64-bit sum is.\<close>

lemma csum_finish:
  "(unat (csum_fold (csum_fold32 (csum_fold32 x) AND 0xFFFFFFFF)) + unat x) mod 65535 = 0"
proof -
  let ?y = "csum_fold32 (csum_fold32 x)"
  have "unat (take_bit 32 ?y) = unat ?y" using fold32_twice[of x] unat_take_bit[of 32 ?y] by simp
  then have "(unat (csum_fold (take_bit 32 ?y)) + unat ?y) mod 65535 = 0" using csum_fold_mod[of "take_bit 32 ?y"] by simp
  moreover have "unat ?y mod 65535 = unat x mod 65535" by (simp add: unat_fold32 fold32_nat_mod)
  ultimately show ?thesis unfolding and_mask_64 by (metis mod_add_right_eq)
qed

lemma word_sum_st16:
  assumes "i < n" "off + 2 * i + 1 < length p"
  shows "word_sum (st16 p (off + 2 * i) w) off n + unat (ld16 p (off + 2 * i)) = word_sum p off n + unat w"
proof -
  let ?f = "\<lambda>q k. unat (ld16 q (off + 2 * k))"
  have "ld16 (st16 p (off + 2 * i) w) (off + 2 * k) = ld16 p (off + 2 * k)" if "k \<noteq> i" for k
    by (rule st_other) (use that in linarith)
  then have "(\<Sum>k \<in> {..<n} - {i}. ?f (st16 p (off + 2 * i) w) k) = (\<Sum>k \<in> {..<n} - {i}. ?f p k)"
    by (intro sum.cong) auto
  moreover have "word_sum q off n = ?f q i + (\<Sum>k \<in> {..<n} - {i}. ?f q k)" for q
    unfolding word_sum_def using assms(1) by (simp add: sum.remove)
  ultimately show ?thesis using assms(2) by (simp add: ld16_st16)
qed

lemma ld32_mod: "unat (ld32 p i) mod 65535 = (unat (ld16 p i) + unat (ld16 p (i + 2))) mod 65535"
proof -
  have "unat (ld16 p i) = unat (ld32 p i) mod 65536"
    using unsigned_ucast_eq[of "ld32 p i", where ?'a = nat and ?'c = 16] unfolding ld32_halves(1) by (simp add: take_bit_eq_mod)
  moreover have "unat (ld32 p i) div 65536 < 65536"
    using unsigned_less[of "ld32 p i", where ?'a = nat] by (simp add: less_mult_imp_div_less)
  then have "unat (ld16 p (i + 2)) = unat (ld32 p i) div 65536"
    using unsigned_ucast_eq[of "drop_bit 16 (ld32 p i)", where ?'a = nat and ?'c = 16] unat_drop_bit[of 16 "ld32 p i"]
    unfolding ld32_halves(2) by (simp add: take_bit_nat_eq_self)
  ultimately show ?thesis by (simp add: fold_nat_mod)
qed

lemma unat_htons_small: "n < 256 \<Longrightarrow> unat (bpf_htons (word_of_nat n)) = 256 * n"
proof -
  assume n: "n < 256"
  have u: "unat (word_of_nat n :: u16) = n" using n by (simp add: unsigned_of_nat take_bit_nat_eq_self)
  have "unat (drop_bit 8 (word_of_nat n :: u16)) = 0" using n unat_drop_bit[of 8 "word_of_nat n :: u16"] u by simp
  then have "drop_bit 8 (word_of_nat n :: u16) = 0" by (simp only: unat_eq_0)
  moreover have "unat (push_bit 8 (word_of_nat n :: u16)) = 256 * n"
    using n u unat_mult_no_wrap[of "word_of_nat n :: u16" "2 ^ 8"] by (simp add: push_bit_eq_mult mult.commute)
  ultimately show ?thesis by (simp add: bswap16_def)
qed

lemma unat_htonl_small: "n < 256 \<Longrightarrow> unat (bpf_htonl (word_of_nat n)) = 16777216 * n"
proof -
  assume n: "n < 256"
  have u: "unat (word_of_nat n :: u32) = n" using n by (simp add: unsigned_of_nat take_bit_nat_eq_self)
  have "take_bit 8 (word_of_nat n :: u32) = word_of_nat n"
    using n u by (simp only: word_unat_eq_iff unat_take_bit) simp
  then have z: "\<not> bit (word_of_nat n :: u32) i" if "8 \<le> i" for i
    using that by (metis bit_take_bit_iff not_le)
  have "bpf_htonl (word_of_nat n) = push_bit 24 (word_of_nat n)"
    by (rule bit_word_eqI)
      (use z in \<open>auto simp: bit_bswap32 bit_push_bit_iff\<close>)
  moreover have "unat (push_bit 24 (word_of_nat n :: u32)) = 16777216 * n"
    using n u unat_mult_no_wrap[of "word_of_nat n :: u32" "2 ^ 24"] by (simp add: push_bit_eq_mult mult.commute)
  ultimately show ?thesis by simp
qed

text \<open>The pseudo-headers of RFC 9293 and RFC 8200 for a segment of \<open>len\<close> bytes, in words.\<close>

definition pseudo4 :: "packet \<Rightarrow> nat \<Rightarrow> nat \<Rightarrow> nat" where
  "pseudo4 p iph len = word_sum p (iph + 12) 4 + unat (bpf_htons 6) + unat (bpf_htons (word_of_nat len))"

definition pseudo6 :: "packet \<Rightarrow> nat \<Rightarrow> nat \<Rightarrow> nat" where
  "pseudo6 p iph len = word_sum p (iph + 8) 16 + unat (bpf_htons (word_of_nat len)) + unat (bpf_htons 6)"

lemma word_sum_4: "word_sum p off 4 = unat (ld16 p off) + unat (ld16 p (off + 2)) + unat (ld16 p (off + 4)) + unat (ld16 p (off + 6))"
  by (simp add: word_sum_def eval_nat_numeral)

lemma addr4_mod:
  "(unat (ip_saddr p iph) + unat (ip_daddr p iph)) mod 65535 = word_sum p (iph + 12) 4 mod 65535"
proof -
  have i: "iph + 12 + 4 = iph + 16" "iph + 12 + 6 = iph + 16 + 2" by simp_all
  show ?thesis
    unfolding ip_saddr_def ip_daddr_def word_sum_4 i add.assoc[of "_ + _"]
    by (rule mod_add_cong) (rule ld32_mod)+
qed

lemma word_sum_st16_other:
  "i + 1 < off \<or> off + 2 * n \<le> i \<Longrightarrow> word_sum (st16 p i w) off n = word_sum p off n"
  unfolding word_sum_def by (rule sum.cong) (auto simp: st_other)

lemma tcp_ipv4_csum_valid:
  assumes "iph + 20 \<le> th" "th + 20 \<le> length p" "9 \<le> n" "ld16 p (th + 16) = 0"
    "unat csum < 2 ^ 32" "unat csum mod 65535 = word_sum p th n mod 65535"
  defines "q \<equiv> tcp_ipv4_csum_update iph th csum p"
  shows "(word_sum q th n + pseudo4 q iph (unat (tcp_doff p th) * 4)) mod 65535 = 0"
proof -
  define len where "len = unat (tcp_doff p th) * 4"
  define a where "a = unat (ip_saddr p iph) + unat (ip_daddr p iph)"
  define y where "y = csum + ucast (ip_saddr p iph) + ucast (ip_daddr p iph)
     + push_bit 8 (ucast XFW_L4_PROTO_TCP + ucast (tcp_doff p th) * 4)"
  define w where "w = csum_fold (csum_fold32 (csum_fold32 y) AND 0xFFFFFFFF)"
  have q: "q = st16 p (th + 2 * 8) w"
    by (simp add: q_def tcp_ipv4_csum_update_def Let_def y_def w_def)
  have len: "len \<le> 60" using unat_doff[of p th] by (simp add: len_def)
  have "unat (push_bit 8 (ucast XFW_L4_PROTO_TCP + ucast (tcp_doff p th) * 4) :: u64) = 256 * (6 + len)"
    using unat_doff[of p th]
    by (simp add: push_bit_eq_mult unat_mult_no_wrap unat_add_no_wrap unat_ucast_up len_def XFW_L4_PROTO_TCP_def)
  then have y: "unat y = unat csum + a + 256 * (6 + len)"
    using assms(5) len unsigned_less[of "ip_saddr p iph", where ?'a = nat] unsigned_less[of "ip_daddr p iph", where ?'a = nat]
    by (simp add: y_def a_def unat_add_no_wrap unat_ucast_up)
  have "word_sum q th n = word_sum p th n + unat w"
    using word_sum_st16[of 8 n th p w] assms(2-4) by (simp add: q)
  moreover have "pseudo4 q iph len = word_sum p (iph + 12) 4 + 256 * (6 + len)"
    using assms(1) len unat_htons_small[of 6] unat_htons_small[of len]
    by (simp add: pseudo4_def q word_sum_st16_other)
  moreover have "(word_sum p th n + unat w + (word_sum p (iph + 12) 4 + 256 * (6 + len))) mod 65535
      = (unat csum + unat w + (a + 256 * (6 + len))) mod 65535"
    by (intro mod_add_cong refl assms(6)[symmetric] addr4_mod[of p iph, folded a_def, symmetric])
  moreover have "unat csum + unat w + (a + 256 * (6 + len)) = unat w + unat y" using y by simp
  ultimately have "(word_sum q th n + pseudo4 q iph len) mod 65535 = (unat w + unat y) mod 65535"
    by (simp only:)
  then show ?thesis using csum_finish[of y, folded w_def] by (simp only: len_def)
qed

lemma ld_ip6_mod:
  "unat (ip_words (ld_ip6 p i)) mod 65535 = word_sum p i 8 mod 65535 \<and> unat (ip_words (ld_ip6 p i)) < 4 * 2 ^ 32"
proof -
  let ?u = "\<lambda>k. unat (ld32 p (i + 4 * k))"
  have b: "?u k < 2 ^ 32" for k using unsigned_less[of "ld32 p (i + 4 * k)", where ?'a = nat] by simp
  have "unat (ip_words (ld_ip6 p i)) = ?u 0 + ?u 1 + ?u 2 + ?u 3"
    using b[of 0] b[of 1] b[of 2] b[of 3]
    by (simp add: ip_words_def ld_ip6_def unat_add_no_wrap unat_ucast_up)
  moreover have "(?u 0 + ?u 1 + ?u 2 + ?u 3) mod 65535 =
    ((unat (ld16 p (i + 4 * 0)) + unat (ld16 p (i + 4 * 0 + 2))) + (unat (ld16 p (i + 4 * 1)) + unat (ld16 p (i + 4 * 1 + 2)))
     + (unat (ld16 p (i + 4 * 2)) + unat (ld16 p (i + 4 * 2 + 2))) + (unat (ld16 p (i + 4 * 3)) + unat (ld16 p (i + 4 * 3 + 2)))) mod 65535"
    by (intro mod_add_cong ld32_mod)
  moreover have "word_sum p i 8 = (unat (ld16 p (i + 4 * 0)) + unat (ld16 p (i + 4 * 0 + 2))) + (unat (ld16 p (i + 4 * 1)) + unat (ld16 p (i + 4 * 1 + 2)))
     + (unat (ld16 p (i + 4 * 2)) + unat (ld16 p (i + 4 * 2 + 2))) + (unat (ld16 p (i + 4 * 3)) + unat (ld16 p (i + 4 * 3 + 2)))"
    by (simp add: word_sum_def eval_nat_numeral)
  ultimately show ?thesis using b[of 0] b[of 1] b[of 2] b[of 3] by simp
qed

lemma word_sum_append: "word_sum p off (m + n) = word_sum p off m + word_sum p (off + 2 * m) n"
  by (induction n) (simp_all add: word_sum_def algebra_simps)

lemma htonl_word_mod: "256 * m mod 65535 = (16777216 * m) mod (65535 :: nat)"
proof -
  have "16777216 * m = 256 * m + 65535 * (256 * m)" by simp
  then show ?thesis by (simp only: mod_mult_self2)
qed

lemma tcp_ipv6_csum_valid:
  assumes "iph + 40 \<le> th" "th + 20 \<le> length p" "9 \<le> n" "ld16 p (th + 16) = 0"
    "unat csum < 2 ^ 32" "unat csum mod 65535 = word_sum p th n mod 65535"
  defines "q \<equiv> tcp_ipv6_csum_update iph th csum p"
  shows "(word_sum q th n + pseudo6 q iph (unat (tcp_doff p th) * 4)) mod 65535 = 0"
proof -
  define len where "len = unat (tcp_doff p th) * 4"
  define a b where "a = unat (ip_words (ip6_saddr p iph))" and "b = unat (ip_words (ip6_daddr p iph))"
  define y where "y = csum + ip_words (ip6_saddr p iph) + ip_words (ip6_daddr p iph)
     + ucast (bpf_htonl (ucast (tcp_doff p th) * 4)) + ucast (bpf_htonl (ucast XFW_L4_PROTO_TCP))"
  define w where "w = csum_fold (csum_fold32 (csum_fold32 y) AND 0xFFFFFFFF)"
  have q: "q = st16 p (th + 2 * 8) w"
    by (simp add: q_def tcp_ipv6_csum_update_def Let_def y_def w_def)
  have len: "len \<le> 60" using unat_doff[of p th] by (simp add: len_def)
  have "(ucast (tcp_doff p th) * 4 :: u32) = word_of_nat len"
    using unat_doff[of p th]
    by (simp add: word_unat_eq_iff len_def unat_mult_no_wrap unat_ucast_up unsigned_of_nat take_bit_nat_eq_self)
  moreover have "(ucast XFW_L4_PROTO_TCP :: u32) = word_of_nat 6" by (simp add: XFW_L4_PROTO_TCP_def)
  ultimately have h: "unat (bpf_htonl (ucast (tcp_doff p th) * 4)) = 16777216 * len"
    "unat (bpf_htonl (ucast XFW_L4_PROTO_TCP)) = 16777216 * 6"
    using len unat_htonl_small[of len] unat_htonl_small[of 6] by simp_all
  have ab: "a mod 65535 = word_sum p (iph + 8) 8 mod 65535" "a < 4 * 2 ^ 32"
    "b mod 65535 = word_sum p (iph + 24) 8 mod 65535" "b < 4 * 2 ^ 32"
    using ld_ip6_mod by (simp_all add: a_def b_def ip6_saddr_def ip6_daddr_def)
  then have y: "unat y = unat csum + a + b + 16777216 * len + 16777216 * 6"
    using assms(5) len by (simp add: y_def unat_add_no_wrap unat_ucast_up h a_def b_def)
  have "word_sum q th n = word_sum p th n + unat w"
    using word_sum_st16[of 8 n th p w] assms(2-4) by (simp add: q)
  moreover have "pseudo6 q iph len = word_sum p (iph + 8) 8 + word_sum p (iph + 24) 8 + 256 * len + 256 * 6"
    using assms(1) len unat_htons_small[of 6] unat_htons_small[of len] word_sum_append[of p "iph + 8" 8 8]
    by (simp add: pseudo6_def q word_sum_st16_other add.commute[of 24])
  moreover have "(word_sum p th n + unat w + (word_sum p (iph + 8) 8 + word_sum p (iph + 24) 8 + 256 * len + 256 * 6)) mod 65535
      = (unat csum + unat w + (a + b + 16777216 * len + 16777216 * 6)) mod 65535"
    by (intro mod_add_cong refl assms(6)[symmetric] ab(1,3)[symmetric] htonl_word_mod)
  moreover have "unat csum + unat w + (a + b + 16777216 * len + 16777216 * 6) = unat w + unat y" using y by simp
  ultimately have "(word_sum q th n + pseudo6 q iph len) mod 65535 = (unat w + unat y) mod 65535"
    by (simp only:)
  then show ?thesis using csum_finish[of y, folded w_def] by (simp only: len_def)
qed


section \<open>Properties\<close>

text \<open>
  Four folding steps are enough for any 64-bit sum: the 16-bit value
  \<open>csum_fold\<close> returns is the complement of the sum modulo 0xFFFF, and it is 0xFFFF only
  for the sum 0.
\<close>

theorem csum_fold_complements:
  "(unat (csum_fold x) + unat x) mod 65535 = 0 \<and> (csum_fold x = 0xFFFF \<longleftrightarrow> x = 0)"
proof -
  have "csum_fold x = 0xFFFF \<longleftrightarrow> unat ((csum_fold_step ^^ 4) x) = 0"
    using fold_steps(1)[of x] by (auto simp: word_unat_eq_iff csum_fold_unat)
  then show ?thesis using csum_fold_mod[of x] fold_steps(3)[of x] by (simp only: unat_eq_0)
qed

end
