(* ===== verification/TcpOpts.thy ===== *)
theory TcpOpts
  imports Parsing
begin

text \<open>
  The TCP options code of \<open>bpf/tcp_syncookies.h\<close>: parsing the options of a SYN one per
  \<open>bpf_loop\<close> iteration, encoding them in the timestamp of the SYN-ACK, and writing the
  options of the SYN-ACK. Shown: the parser is the RFC 9293 reference parser and its
  iteration budget is never the limit; what is written parses back.
\<close>

definition TCPOPT_EOL :: u8 where "TCPOPT_EOL = 0"
definition TCPOPT_NOP :: u8 where "TCPOPT_NOP = 1"
definition TCPOPT_MSS :: u8 where "TCPOPT_MSS = 2"
definition TCPOPT_MSS_SZ :: u8 where "TCPOPT_MSS_SZ = 4"
definition TCPOPT_WSCALE :: u8 where "TCPOPT_WSCALE = 3"
definition TCPOPT_WSCALE_SZ :: u8 where "TCPOPT_WSCALE_SZ = 3"
definition TCPOPT_WSCALE_MASK :: u32 where "TCPOPT_WSCALE_MASK = 0xF"
definition TCPOPT_WSCALE_MAX :: u8 where "TCPOPT_WSCALE_MAX = 14"
definition TCPOPT_SACK_PERM :: u8 where "TCPOPT_SACK_PERM = 4"
definition TCPOPT_SACK_PERM_SZ :: u8 where "TCPOPT_SACK_PERM_SZ = 2"
definition TCPOPT_TIMESTAMP :: u8 where "TCPOPT_TIMESTAMP = 8"
definition TCPOPT_TIMESTAMP_SZ :: u8 where "TCPOPT_TIMESTAMP_SZ = 10"
definition TCP_OPTS_MAX :: nat where "TCP_OPTS_MAX = 40"
definition TCP_OPTS_BUF_SZ :: nat where "TCP_OPTS_BUF_SZ = 48"
definition XFW_DEFAULT_WSCALE :: u8 where "XFW_DEFAULT_WSCALE = 7"

lemmas tcpopt_defs = TCPOPT_EOL_def TCPOPT_NOP_def TCPOPT_MSS_def TCPOPT_MSS_SZ_def TCPOPT_WSCALE_def
  TCPOPT_WSCALE_SZ_def TCPOPT_SACK_PERM_def TCPOPT_SACK_PERM_SZ_def TCPOPT_TIMESTAMP_def
  TCPOPT_TIMESTAMP_SZ_def

record XfwTCPOpts =
  opt_ts :: u32
  opt_wscale :: u8
  opt_sack_perm :: bool

record XfwTCPOptCtx =
  oc_buf :: packet
  oc_opts :: XfwTCPOpts
  oc_opt_len :: nat
  oc_off :: nat
  oc_err :: int


section \<open>Parsing\<close>

text \<open>One iteration: whether the loop stops, and the context.\<close>

definition tcp_parse_one_opt :: "XfwTCPOptCtx \<Rightarrow> bool \<times> XfwTCPOptCtx" where
  "tcp_parse_one_opt c =
     (let off = oc_off c; opt_len = oc_opt_len c; bad_opt = (True, c\<lparr>oc_err := - EINVAL\<rparr>) in
      if TCP_OPTS_BUF_SZ < opt_len then bad_opt
      else if opt_len \<le> off then (True, c\<lparr>oc_err := 0\<rparr>)
      else let kind = ld8 (oc_buf c) off in
      if kind = TCPOPT_EOL then (True, c\<lparr>oc_err := 0\<rparr>)
      else if kind = TCPOPT_NOP then (False, c\<lparr>oc_off := off + 1\<rparr>)
      else if opt_len < off + 2 then bad_opt
      else let len = ld8 (oc_buf c) (off + 1); next = off + unat len in
      if unat len < 2 \<or> opt_len < next then bad_opt
      else if kind = TCPOPT_WSCALE
      then if len \<noteq> TCPOPT_WSCALE_SZ then bad_opt
           else let ws = ld8 (oc_buf c) (off + 2) in
             (False, c\<lparr>oc_off := next, oc_opts := (oc_opts c)
                \<lparr>opt_wscale := (if ws \<le> TCPOPT_WSCALE_MAX then ws else TCPOPT_WSCALE_MAX)\<rparr>\<rparr>)
      else if kind = TCPOPT_SACK_PERM
      then if len \<noteq> TCPOPT_SACK_PERM_SZ then bad_opt
           else (False, c\<lparr>oc_off := next, oc_opts := (oc_opts c)\<lparr>opt_sack_perm := True\<rparr>\<rparr>)
      else if kind = TCPOPT_TIMESTAMP
      then if len \<noteq> TCPOPT_TIMESTAMP_SZ then bad_opt
           else (False, c\<lparr>oc_off := next, oc_opts :=
                  (if opt_ts (oc_opts c) = 0
                   then (oc_opts c)\<lparr>opt_ts := ld32 (oc_buf c) (off + 2)\<rparr> else oc_opts c)\<rparr>)
      else (False, c\<lparr>oc_off := next\<rparr>))"

text \<open>The kernel's \<open>bpf_loop\<close>: at most \<open>n\<close> calls of the callback, until it returns 1.\<close>

primrec bpf_loop :: "nat \<Rightarrow> ('c \<Rightarrow> bool \<times> 'c) \<Rightarrow> 'c \<Rightarrow> 'c" where
  "bpf_loop 0 f c = c"
| "bpf_loop (Suc n) f c = (let (stop, c') = f c in if stop then c' else bpf_loop n f c')"

definition tcp_parse_opts :: "env \<Rightarrow> packet \<Rightarrow> nat \<Rightarrow> XfwTCPOpts \<Rightarrow> int \<times> XfwTCPOpts" where
  "tcp_parse_opts E p th opts =
     (let th_len = unat (tcp_doff p th) * 4 in
      if \<not> 20 \<le> th_len then (- EINVAL, opts)
      else let opt_len = th_len - 20 in
      if \<not> opt_len \<le> TCP_OPTS_MAX then (- E2BIG, opts)
      else if opt_len = 0 then (0, opts)
      else case xdp_load_bytes E p (th + 20) opt_len of
        None \<Rightarrow> (- EINVAL, opts)
      | Some data \<Rightarrow>
          (let c = bpf_loop (TCP_OPTS_MAX + 1) tcp_parse_one_opt
                 \<lparr>oc_buf = data @ replicate (TCP_OPTS_BUF_SZ - length data) 0, oc_opts = opts,
                  oc_opt_len = opt_len, oc_off = 0, oc_err = - E2BIG\<rparr>
           in (oc_err c, oc_opts c)))"


section \<open>The reference parser\<close>

text \<open>RFC 9293, section 3.1, on the bytes of the options area.\<close>

definition apply_opt :: "u8 \<Rightarrow> u8 list \<Rightarrow> XfwTCPOpts \<Rightarrow> XfwTCPOpts option" where
  "apply_opt kind val opts =
     (if kind = TCPOPT_WSCALE
      then if length val \<noteq> 1 then None else Some (opts\<lparr>opt_wscale := min (val ! 0) TCPOPT_WSCALE_MAX\<rparr>)
      else if kind = TCPOPT_SACK_PERM
      then if val \<noteq> [] then None else Some (opts\<lparr>opt_sack_perm := True\<rparr>)
      else if kind = TCPOPT_TIMESTAMP
      then if length val \<noteq> 8 then None
           else Some (if opt_ts opts = 0 then opts\<lparr>opt_ts := ld32 val 0\<rparr> else opts)
      else Some opts)"

function ref_opts :: "u8 list \<Rightarrow> XfwTCPOpts \<Rightarrow> XfwTCPOpts option" where
  "ref_opts [] opts = Some opts"
| "ref_opts (k # r) opts =
     (if k = TCPOPT_EOL then Some opts
      else if k = TCPOPT_NOP then ref_opts r opts
      else case r of
        [] \<Rightarrow> None
      | l # v \<Rightarrow>
          if unat l < 2 \<or> length (k # r) < unat l then None
          else case apply_opt k (take (unat l - 2) v) opts of
            None \<Rightarrow> None
          | Some opts' \<Rightarrow> ref_opts (drop (unat l) (k # r)) opts')"
  by pat_completeness auto
termination by (relation "measure (length \<circ> fst)") auto

declare ref_opts.simps(2) [simp del]


section \<open>Writing\<close>

definition tcp_clock_ms :: "env \<Rightarrow> u32" where
  "tcp_clock_ms E = ucast (ktime_ns E div 1000000)"

definition tcp_syncookies_make_cookie_ts :: "env \<Rightarrow> packet \<Rightarrow> nat \<Rightarrow> XfwTCPOpts \<Rightarrow> u32" where
  "tcp_syncookies_make_cookie_ts E p th opts =
     (let co = (if opt_wscale opts \<noteq> 0 then ucast (opt_wscale opts) AND TCPOPT_WSCALE_MASK
                else TCPOPT_WSCALE_MASK);
          co = co OR push_bit 4 (of_bool (opt_sack_perm opts));
          co = co OR push_bit 5 (of_bool (tcp_ece p th));
          ts_now = tcp_clock_ms E;
          ts = push_bit 6 (drop_bit 6 ts_now) OR co;
          ts = (if ts_now < ts then ts - 64 else ts)
      in bpf_htonl ts)"

definition OPTS_DWORD :: "u8 \<Rightarrow> u8 \<Rightarrow> u8 \<Rightarrow> u8 \<Rightarrow> u32" where
  "OPTS_DWORD a b c d = bpf_htonl (push_bit 24 (ucast a) OR push_bit 16 (ucast b) OR push_bit 8 (ucast c) OR ucast d)"

text \<open>The number of words written, and the packet.\<close>

definition tcp_syncookies_write_opts ::
  "env \<Rightarrow> packet \<Rightarrow> nat \<Rightarrow> u16 \<Rightarrow> XfwTCPOpts \<Rightarrow> nat \<times> packet" where
  "tcp_syncookies_write_opts E p th mss opts =
     (let o0 = th + 20; d_end = length p in
      if d_end < o0 + 4 then (0, p)
      else let p1 = st32 p o0 (bpf_htonl (push_bit 24 (ucast TCPOPT_MSS) OR push_bit 16 (ucast TCPOPT_MSS_SZ)
                                 OR ucast mss)) in
      if d_end < o0 + 8 then (1, p1)
      else let p2 = st32 p1 (o0 + 4) (OPTS_DWORD TCPOPT_NOP TCPOPT_WSCALE TCPOPT_WSCALE_SZ XFW_DEFAULT_WSCALE) in
      if d_end < o0 + 12 then (2, p2)
      else if opt_ts opts = 0 \<or> d_end < o0 + 20
      then if opt_sack_perm opts
           then (3, st32 p2 (o0 + 8) (OPTS_DWORD TCPOPT_SACK_PERM TCPOPT_SACK_PERM_SZ TCPOPT_NOP TCPOPT_EOL))
           else (2, p2)
      else let p3 = st32 p2 (o0 + 8)
                 (if opt_sack_perm opts
                  then OPTS_DWORD TCPOPT_SACK_PERM TCPOPT_SACK_PERM_SZ TCPOPT_TIMESTAMP TCPOPT_TIMESTAMP_SZ
                  else OPTS_DWORD TCPOPT_NOP TCPOPT_NOP TCPOPT_TIMESTAMP TCPOPT_TIMESTAMP_SZ);
               p4 = st32 p3 (o0 + 12) (tcp_syncookies_make_cookie_ts E p3 th opts);
               p5 = st32 p4 (o0 + 16) (opt_ts opts)
           in (5, p5))"



section \<open>The parser is the reference parser\<close>

lemma ld8_append: "i < length bs \<Longrightarrow> ld8 (bs @ z) i = bs ! i"
  by (simp add: ld8_def nth_append)

lemma ld32_take_drop:
  "i + 4 \<le> length bs \<Longrightarrow> 4 \<le> n \<Longrightarrow> ld32 (bs @ z) i = ld32 (take n (drop i bs)) 0"
  by (simp add: ld32_def ld8_def nth_append)

lemma drop_Cons_tail: "drop n xs = x # ys \<Longrightarrow> drop (Suc n) xs = ys"
  by (metis drop_Suc list.sel(3) tl_drop)

lemma opt_sizes:
  assumes "2 \<le> unat l" "unat l \<le> length v + 2"
  shows "l \<noteq> TCPOPT_WSCALE_SZ \<longleftrightarrow> length (take (unat l - 2) v) \<noteq> 1"
    "l \<noteq> TCPOPT_SACK_PERM_SZ \<longleftrightarrow> take (unat l - 2) v \<noteq> []"
    "l \<noteq> TCPOPT_TIMESTAMP_SZ \<longleftrightarrow> length (take (unat l - 2) v) \<noteq> 8"
proof -
  have n: "length (take (unat l - 2) v) = unat l - 2" using assms by simp
  have u: "unat l = 3 \<longleftrightarrow> l = 3" "unat l = 2 \<longleftrightarrow> l = 2" "unat l = 10 \<longleftrightarrow> l = 10"
    by (simp_all add: word_unat_eq_iff)
  show "l \<noteq> TCPOPT_WSCALE_SZ \<longleftrightarrow> length (take (unat l - 2) v) \<noteq> 1"
    unfolding n TCPOPT_WSCALE_SZ_def u(1)[symmetric] using assms(1) by linarith
  show "l \<noteq> TCPOPT_SACK_PERM_SZ \<longleftrightarrow> take (unat l - 2) v \<noteq> []"
    unfolding length_0_conv[symmetric] n TCPOPT_SACK_PERM_SZ_def u(2)[symmetric] using assms(1) by linarith
  show "l \<noteq> TCPOPT_TIMESTAMP_SZ \<longleftrightarrow> length (take (unat l - 2) v) \<noteq> 8"
    unfolding n TCPOPT_TIMESTAMP_SZ_def u(3)[symmetric] using assms(1) by linarith
qed

lemma one_opt_step:
  assumes "length bs \<le> TCP_OPTS_BUF_SZ" "drop off bs = k # r" "oc_buf c = bs @ z"
    "oc_opt_len c = length bs" "oc_off c = off"
  shows "tcp_parse_one_opt c =
     (if k = TCPOPT_EOL then (True, c\<lparr>oc_err := 0\<rparr>)
      else if k = TCPOPT_NOP then (False, c\<lparr>oc_off := off + 1\<rparr>)
      else case r of
        [] \<Rightarrow> (True, c\<lparr>oc_err := - EINVAL\<rparr>)
      | l # v \<Rightarrow>
          if unat l < 2 \<or> length (k # r) < unat l then (True, c\<lparr>oc_err := - EINVAL\<rparr>)
          else case apply_opt k (take (unat l - 2) v) (oc_opts c) of
            None \<Rightarrow> (True, c\<lparr>oc_err := - EINVAL\<rparr>)
          | Some opts' \<Rightarrow> (False, c\<lparr>oc_off := off + unat l, oc_opts := opts'\<rparr>))"
proof -
  have off: "off < length bs" using assms(2) by (metis drop_eq_Nil list.discI not_le)
  have k: "bs ! off = k" by (rule nth_via_drop) (rule assms(2))
  have r: "drop (off + 1) bs = r" using drop_Cons_tail[OF assms(2)] by simp
  have len: "length bs = off + 1 + length r" using off by (simp flip: r)
  note base = assms(1,3-5) off k
  show ?thesis
  proof (cases r)
    case Nil
    then show ?thesis using base len by (simp add: tcp_parse_one_opt_def Let_def ld8_append)
  next
    case (Cons l v)
    have l: "bs ! (off + 1) = l" by (rule nth_via_drop) (simp only: r Cons)
    have v: "v = drop (off + 2) bs" using drop_Cons_tail[of "off + 1" bs l v] r Cons by simp
    have c: "length bs < off + unat l \<longleftrightarrow> length (k # r) < unat l" using len Cons by auto
    show ?thesis
    proof (cases "unat l < 2 \<or> length (k # r) < unat l")
      case True
      then show ?thesis using base len l Cons c by (simp add: tcp_parse_one_opt_def Let_def ld8_append)
    next
      case False
      then have "2 \<le> unat l" "unat l \<le> length v + 2" using Cons by simp_all
      note sz = opt_sizes[OF this]
      have ws: "length (take (unat l - 2) v) = 1 \<Longrightarrow> ld8 (bs @ z) (off + 2) = take (unat l - 2) v ! 0"
        using v by (simp add: ld8_append min_def split: if_splits)
      have ts: "length (take (unat l - 2) v) = 8 \<Longrightarrow> ld32 (bs @ z) (off + 2) = ld32 (take (unat l - 2) v) 0"
        using v ld32_take_drop[of "off + 2" bs "unat l - 2" z] by simp
      show ?thesis
        using base len l Cons c False ws ts
        by (simp add: tcp_parse_one_opt_def Let_def ld8_append sz apply_opt_def min_def del: length_take)
    qed
  qed
qed

lemma parse_loop_ref:
  assumes "length bs \<le> TCP_OPTS_BUF_SZ" "off \<le> length bs" "length bs - off < n"
    "oc_buf c = bs @ z" "oc_opt_len c = length bs" "oc_off c = off"
  shows "case ref_opts (drop off bs) (oc_opts c) of
     Some opts' \<Rightarrow> oc_err (bpf_loop n tcp_parse_one_opt c) = 0 \<and> oc_opts (bpf_loop n tcp_parse_one_opt c) = opts'
   | None \<Rightarrow> oc_err (bpf_loop n tcp_parse_one_opt c) = - EINVAL"
  using assms(2-)
proof (induction n arbitrary: off c)
  case (Suc n)
  show ?case
  proof (cases "drop off bs")
    case Nil
    then show ?thesis using Suc.prems assms(1) by (simp add: tcp_parse_one_opt_def)
  next
    case (Cons k r)
    note step = one_opt_step[OF assms(1) Cons Suc.prems(3-5)]
    have len: "length bs - off = Suc (length r)" using Cons by (metis length_Cons length_drop)
    show ?thesis
    proof (cases "k = TCPOPT_EOL \<or> k = TCPOPT_NOP")
      case True
      have "drop (Suc off) bs = r" by (rule drop_Cons_tail) (rule Cons)
      then show ?thesis
        using True Suc.IH[of "off + 1" "c\<lparr>oc_off := off + 1\<rparr>"] Suc.prems len
        by (auto simp: step Cons ref_opts.simps(2) tcpopt_defs split: option.split)
    next
      case False
      show ?thesis
      proof (cases r)
        case (Cons l v)
        have d: "drop (unat l) (k # r) = drop (off + unat l) bs"
          using \<open>drop off bs = k # r\<close> by (metis add.commute drop_drop)
        show ?thesis
          using False Cons Suc.prems len d \<open>drop off bs = k # r\<close>
            Suc.IH[of "off + unat l" "c\<lparr>oc_off := off + unat l, oc_opts := the (apply_opt k (take (unat l - 2) v) (oc_opts c))\<rparr>"]
          by (auto simp: step ref_opts.simps(2) split: option.splits)
      qed (use False \<open>drop off bs = k # r\<close> in \<open>simp add: step ref_opts.simps(2)\<close>)
    qed
  qed
qed simp


section \<open>What is written\<close>

definition bytes32 :: "u32 \<Rightarrow> u8 list" where
  "bytes32 w = [ucast w, ucast (drop_bit 8 w), ucast (drop_bit 16 w), ucast (drop_bit 24 w)]"

lemma length_bytes32 [simp]: "length (bytes32 w) = 4"
  by (simp add: bytes32_def)

lemma ld32_bytes32: "ld32 (bytes32 w @ z) 0 = w"
  by (simp add: ld32_def ld8_def bytes32_def bytes32_join)

lemma st32_append:
  assumes "4 \<le> length r" "i = length a"
  shows "st32 (a @ r) i w = a @ bytes32 w @ drop 4 r"
proof -
  obtain b0 b1 b2 b3 z where "r = b0 # b1 # b2 # b3 # z"
    using assms(1) by (auto simp: Suc_le_length_iff numeral_eq_Suc)
  then show ?thesis
    by (simp add: st32_def st8_def bytes32_def assms(2) list_update_append numeral_eq_Suc)
qed

lemma bytes32_dword: "bytes32 (OPTS_DWORD a b c d) = [a, b, c, d]"
  unfolding bytes32_def OPTS_DWORD_def
  by (intro arg_cong2[where f = Cons] refl; rule bit_word_eqI)
    (auto simp: bit_ucast_iff bit_drop_bit_eq bit_bswap32 bit_or_iff bit_push_bit_iff dest: bit_imp_le_length)

text \<open>The words of the options area after \<open>tcp_syncookies_write_opts\<close>.\<close>

definition opt_words :: "env \<Rightarrow> packet \<Rightarrow> nat \<Rightarrow> u16 \<Rightarrow> XfwTCPOpts \<Rightarrow> nat \<Rightarrow> u32 list" where
  "opt_words E p th mss opts n = take n
     ([bpf_htonl (push_bit 24 (ucast TCPOPT_MSS) OR push_bit 16 (ucast TCPOPT_MSS_SZ) OR ucast mss),
       OPTS_DWORD TCPOPT_NOP TCPOPT_WSCALE TCPOPT_WSCALE_SZ XFW_DEFAULT_WSCALE] @
      (if n = 3 then [OPTS_DWORD TCPOPT_SACK_PERM TCPOPT_SACK_PERM_SZ TCPOPT_NOP TCPOPT_EOL]
       else [if opt_sack_perm opts
             then OPTS_DWORD TCPOPT_SACK_PERM TCPOPT_SACK_PERM_SZ TCPOPT_TIMESTAMP TCPOPT_TIMESTAMP_SZ
             else OPTS_DWORD TCPOPT_NOP TCPOPT_NOP TCPOPT_TIMESTAMP TCPOPT_TIMESTAMP_SZ,
             tcp_syncookies_make_cookie_ts E p th opts, opt_ts opts]))"

lemma cookie_ts_take:
  assumes "th + 20 \<le> length p"
  shows "tcp_syncookies_make_cookie_ts E (take (th + 20) p @ x) th opts = tcp_syncookies_make_cookie_ts E p th opts"
proof -
  have "tcp_ece (take (th + 20) p @ x) th = tcp_ece p th"
    using assms by (simp add: tcp_ece_def tcp_flags_byte_def ld8_def nth_append)
  then show ?thesis by (simp add: tcp_syncookies_make_cookie_ts_def)
qed

lemma write_opts_words:
  assumes "th + 20 \<le> length p" "tcp_syncookies_write_opts E p th mss opts = (n, q)"
  shows "q = take (th + 20) p @ concat (map bytes32 (opt_words E p th mss opts n)) @ drop (th + 20 + 4 * n) p"
    and "n \<in> {0, 1, 2, 3, 5}" "th + 20 + 4 * n \<le> length p"
    and "n = 5 \<longrightarrow> opt_ts opts \<noteq> 0" "n = 3 \<longrightarrow> opt_sack_perm opts"
proof -
  let ?a = "take (th + 20) p" and ?r = "drop (th + 20) p"
  show "n \<in> {0, 1, 2, 3, 5}" "th + 20 + 4 * n \<le> length p" "n = 5 \<longrightarrow> opt_ts opts \<noteq> 0"
    "n = 3 \<longrightarrow> opt_sack_perm opts"
    using assms by (auto simp: tcp_syncookies_write_opts_def Let_def split: if_splits)
  have st: "st32 (?a @ x @ drop k ?r) (th + 20 + k) w = ?a @ x @ bytes32 w @ drop (k + 4) ?r"
    if "length x = k" "th + 20 + k + 4 \<le> length p" for x k w
    using st32_append[of "drop k ?r" "th + 20 + k" "?a @ x" w] that assms(1) by (simp add: add.commute)
  have st0: "th + 24 \<le> length p \<Longrightarrow> st32 p (th + 20) w = ?a @ bytes32 w @ drop 4 ?r" for w
    using st[of "[]" 0 w] by simp
  have st1: "th + 28 \<le> length p \<Longrightarrow> st32 (?a @ bytes32 u @ drop 4 ?r) (th + 24) w
      = ?a @ bytes32 u @ bytes32 w @ drop 8 ?r" for u w
    using st[of "bytes32 u" 4 w] by (simp add: add.commute)
  have st2: "th + 32 \<le> length p \<Longrightarrow> st32 (?a @ bytes32 u @ bytes32 v @ drop 8 ?r) (th + 28) w
      = ?a @ bytes32 u @ bytes32 v @ bytes32 w @ drop 12 ?r" for u v w
    using st[of "bytes32 u @ bytes32 v" 8 w] by (simp add: add.commute)
  have st3: "th + 36 \<le> length p \<Longrightarrow> st32 (?a @ bytes32 u @ bytes32 v @ bytes32 x @ drop 12 ?r) (th + 32) w
      = ?a @ bytes32 u @ bytes32 v @ bytes32 x @ bytes32 w @ drop 16 ?r" for u v w x
    using st[of "bytes32 u @ bytes32 v @ bytes32 x" 12 w] by (simp add: add.commute)
  have st4: "th + 40 \<le> length p \<Longrightarrow> st32 (?a @ bytes32 u @ bytes32 v @ bytes32 x @ bytes32 y @ drop 16 ?r) (th + 36) w
      = ?a @ bytes32 u @ bytes32 v @ bytes32 x @ bytes32 y @ bytes32 w @ drop 20 ?r" for u v w x y
    using st[of "bytes32 u @ bytes32 v @ bytes32 x @ bytes32 y" 16 w] by (simp add: add.commute)
  have dd: "drop (th + 20 + 4 * n) p = drop (4 * n) ?r" by (simp add: add.commute)
  show "q = take (th + 20) p @ concat (map bytes32 (opt_words E p th mss opts n)) @ drop (th + 20 + 4 * n) p"
    using assms(2) unfolding tcp_syncookies_write_opts_def Let_def dd
    by (auto simp: st0 st1 st2 st3 st4 cookie_ts_take[OF assms(1)] opt_words_def add.commute
        split: if_splits simp del: drop_drop)
qed

lemma cookie_bits:
  fixes x :: u32
  assumes "unat x < 16"
  shows "unat ((x OR push_bit 4 (of_bool s)) OR push_bit 5 (of_bool e)) = unat x + 16 * of_bool s + 32 * of_bool e"
proof -
  have x: "\<not> bit x n" if "4 \<le> n" for n
  proof -
    have "x = take_bit 4 x"
      using assms by (simp add: word_unat_eq_iff unat_take_bit)
    then show ?thesis using that by (metis bit_take_bit_iff not_less)
  qed
  have o1: "x OR push_bit 4 (of_bool s) = x + push_bit 4 (of_bool s)"
    by (rule disjunctive_add[symmetric]) (use x in \<open>auto simp: bit_push_bit_iff\<close>)
  have o2: "(x OR push_bit 4 (of_bool s)) OR push_bit 5 (of_bool e)
      = (x OR push_bit 4 (of_bool s)) + push_bit 5 (of_bool e)"
    by (rule disjunctive_add[symmetric]) (use x in \<open>auto simp: bit_push_bit_iff bit_or_iff bit_1_iff\<close>)
  show ?thesis
    unfolding o1 o2[unfolded o1] using assms by (cases s; cases e) (simp_all add: unat_add_no_wrap)
qed

text \<open>The six option bits of the SYN-ACK's timestamp.\<close>

definition cookie_opts :: "packet \<Rightarrow> nat \<Rightarrow> XfwTCPOpts \<Rightarrow> nat" where
  "cookie_opts p th opts = (if opt_wscale opts \<noteq> 0 then unat (opt_wscale opts) mod 16 else 15)
     + 16 * of_bool (opt_sack_perm opts) + 32 * of_bool (tcp_ece p th)"

lemma cookie_opts_less: "cookie_opts p th opts < 64"
proof -
  have "unat (opt_wscale opts) mod 16 < 16" by simp
  then show ?thesis unfolding cookie_opts_def by (auto simp: of_bool_def)
qed

lemma cookie_ts_cases:
  fixes E p th opts
  defines "now \<equiv> unat (tcp_clock_ms E)" and "ts \<equiv> bpf_ntohl (tcp_syncookies_make_cookie_ts E p th opts)"
  defines "b \<equiv> word_of_nat (now div 64 * 64 + cookie_opts p th opts) :: u32"
  shows "ts = (if tcp_clock_ms E < b then b - 64 else b)"
    and "unat b = now div 64 * 64 + cookie_opts p th opts"
proof -
  define co :: u32 where "co = (if opt_wscale opts \<noteq> 0 then ucast (opt_wscale opts) AND TCPOPT_WSCALE_MASK else TCPOPT_WSCALE_MASK)"
  have nb: "now < 2 ^ 32" using unsigned_less[of "tcp_clock_ms E", where ?'a = nat] by (simp add: now_def)
  then have nd: "now div 64 < 67108864" by (simp add: less_mult_imp_div_less)
  then show ub: "unat b = now div 64 * 64 + cookie_opts p th opts"
    using cookie_opts_less[of p th opts] unfolding b_def unsigned_of_nat by (simp add: take_bit_nat_eq_self)
  have m: "TCPOPT_WSCALE_MASK = mask 4" by (simp add: TCPOPT_WSCALE_MASK_def mask_eq_exp_minus_1)
  have u: "unat co = (if opt_wscale opts \<noteq> 0 then unat (opt_wscale opts) mod 16 else 15)"
    unfolding co_def m take_bit_eq_mask[symmetric]
    by (simp add: unat_take_bit unat_ucast_up mask_eq_exp_minus_1)
  define y where "y = (co OR push_bit 4 (of_bool (opt_sack_perm opts))) OR push_bit 5 (of_bool (tcp_ece p th))"
  have "unat co < 16" unfolding u by (simp split: if_split)
  then have y: "unat y = cookie_opts p th opts"
    unfolding y_def by (simp only: cookie_bits u cookie_opts_def)
  have "push_bit 6 (drop_bit 6 (tcp_clock_ms E)) OR y = push_bit 6 (drop_bit 6 (tcp_clock_ms E)) + y"
  proof (rule disjunctive_add[symmetric])
    fix n
    have "y = take_bit 6 y"
      using y cookie_opts_less[of p th opts] by (simp add: word_unat_eq_iff unat_take_bit)
    then have "bit y n \<Longrightarrow> n < 6" by (metis bit_take_bit_iff)
    then show "\<not> bit (push_bit 6 (drop_bit 6 (tcp_clock_ms E))) n \<or> \<not> bit y n"
      by (auto simp: bit_push_bit_iff)
  qed
  moreover have "unat (push_bit 6 (drop_bit 6 (tcp_clock_ms E))) = now div 64 * 64"
    unfolding push_bit_eq_mult now_def
    using nb unat_drop_bit[of 6 "tcp_clock_ms E"] by (simp add: unat_mult_no_wrap now_def)
  ultimately have "push_bit 6 (drop_bit 6 (tcp_clock_ms E)) OR y = b"
    using nd cookie_opts_less[of p th opts] ub y by (simp add: word_unat_eq_iff unat_add_no_wrap)
  then show "ts = (if tcp_clock_ms E < b then b - 64 else b)"
    by (simp add: ts_def tcp_syncookies_make_cookie_ts_def Let_def y_def co_def)
qed

lemma ref_opts_nop: "ref_opts (TCPOPT_NOP # r) opts = ref_opts r opts"
  by (simp add: ref_opts.simps(2) tcpopt_defs)

lemma ref_opts_eol: "ref_opts (TCPOPT_EOL # r) opts = Some opts"
  by (simp add: ref_opts.simps(2) tcpopt_defs)

lemma ref_opts_opt:
  assumes "k \<noteq> TCPOPT_EOL" "k \<noteq> TCPOPT_NOP" "unat l = length v + 2"
  shows "ref_opts (k # l # v @ r) opts = Option.bind (apply_opt k v opts) (ref_opts r)"
  using assms by (simp add: ref_opts.simps(2) split: option.split)

definition no_opts :: XfwTCPOpts where
  "no_opts = \<lparr>opt_ts = 0, opt_wscale = 0, opt_sack_perm = False\<rparr>"

lemma mss_bytes:
  "\<exists>a b. bytes32 (bpf_htonl (push_bit 24 (ucast TCPOPT_MSS) OR push_bit 16 (ucast TCPOPT_MSS_SZ) OR ucast (mss :: u16)))
     = [TCPOPT_MSS, TCPOPT_MSS_SZ, a, b]"
proof -
  have "ucast mss = push_bit 8 (ucast (ucast (drop_bit 8 mss) :: u8)) OR (ucast (ucast mss :: u8) :: u32)"
    by (rule bit_word_eqI) (auto simp: bit_or_iff bit_push_bit_iff bit_ucast_iff bit_drop_bit_eq dest: bit_imp_le_length)
  then show ?thesis
    using bytes32_dword[of TCPOPT_MSS TCPOPT_MSS_SZ "ucast (drop_bit 8 mss)" "ucast mss"]
    by (auto simp: OPTS_DWORD_def)
qed

lemma opt_words_parse:
  assumes "n \<in> {0, 1, 2, 3, 5}" "n = 3 \<longrightarrow> opt_sack_perm opts"
  shows "ref_opts (concat (map bytes32 (opt_words E p th mss opts n))) no_opts =
     Some \<lparr>opt_ts = (if n = 5 then tcp_syncookies_make_cookie_ts E p th opts else 0),
           opt_wscale = (if 2 \<le> n then XFW_DEFAULT_WSCALE else 0),
           opt_sack_perm = (3 \<le> n \<and> opt_sack_perm opts)\<rparr>"
proof -
  obtain a b where m: "bytes32 (bpf_htonl (push_bit 24 (ucast TCPOPT_MSS) OR push_bit 16 (ucast TCPOPT_MSS_SZ) OR ucast mss))
     = [TCPOPT_MSS, TCPOPT_MSS_SZ, a, b]" using mss_bytes by blast
  have mss: "ref_opts (TCPOPT_MSS # TCPOPT_MSS_SZ # a # b # r) o' = ref_opts r o'" for r o'
    using ref_opts_opt[of TCPOPT_MSS TCPOPT_MSS_SZ "[a, b]" r o'] by (simp add: tcpopt_defs apply_opt_def)
  have ws: "ref_opts (TCPOPT_WSCALE # TCPOPT_WSCALE_SZ # XFW_DEFAULT_WSCALE # r) o'
      = ref_opts r (o'\<lparr>opt_wscale := XFW_DEFAULT_WSCALE\<rparr>)" for r o'
    using ref_opts_opt[of TCPOPT_WSCALE TCPOPT_WSCALE_SZ "[XFW_DEFAULT_WSCALE]" r o']
    by (simp add: tcpopt_defs apply_opt_def XFW_DEFAULT_WSCALE_def TCPOPT_WSCALE_MAX_def)
  have sp: "ref_opts (TCPOPT_SACK_PERM # TCPOPT_SACK_PERM_SZ # r) o' = ref_opts r (o'\<lparr>opt_sack_perm := True\<rparr>)" for r o'
    using ref_opts_opt[of TCPOPT_SACK_PERM TCPOPT_SACK_PERM_SZ "[]" r o'] by (simp add: tcpopt_defs apply_opt_def)
  have ts: "ref_opts (TCPOPT_TIMESTAMP # TCPOPT_TIMESTAMP_SZ # bytes32 t @ bytes32 e) o'
      = Some (o'\<lparr>opt_ts := t\<rparr>)" if "opt_ts o' = 0" for t e o'
    using ref_opts_opt[of TCPOPT_TIMESTAMP TCPOPT_TIMESTAMP_SZ "bytes32 t @ bytes32 e" "[]" o'] that
    by (simp add: tcpopt_defs apply_opt_def ld32_bytes32)
  show ?thesis
    using assms
    by (auto simp: opt_words_def m bytes32_dword mss ws sp ts ref_opts_nop ref_opts_eol no_opts_def)
qed


section \<open>Properties\<close>

text \<open>
  C16. For a TCP header that lies inside the packet, \<open>tcp_parse_opts\<close> returns what the
  reference parser finds in the options area, and fails with \<open>-EINVAL\<close> exactly when the
  reference parser rejects it: the bound on the number of iterations never ends the loop.
\<close>

theorem tcp_parse_opts_correct:
  assumes "load_bytes_law E" "5 \<le> unat (tcp_doff p th)" "th + 4 * unat (tcp_doff p th) \<le> length p"
  shows "case ref_opts (take (4 * unat (tcp_doff p th) - 20) (drop (th + 20) p)) opts of
     Some opts' \<Rightarrow> tcp_parse_opts E p th opts = (0, opts')
   | None \<Rightarrow> fst (tcp_parse_opts E p th opts) = - EINVAL"
proof -
  define bs where "bs = take (4 * unat (tcp_doff p th) - 20) (drop (th + 20) p)"
  have d: "unat (tcp_doff p th) \<le> 15" by (rule unat_doff)
  have len: "length bs = unat (tcp_doff p th) * 4 - 20" using assms(2,3) by (simp add: bs_def)
  have load: "xdp_load_bytes E p (th + 20) (unat (tcp_doff p th) * 4 - 20) = Some bs"
    using assms by (simp add: load_bytes_law_def bs_def mult.commute)
  show ?thesis
  proof (cases "bs = []")
    case True
    then show ?thesis using assms(2) len by (simp add: tcp_parse_opts_def Let_def flip: bs_def)
  next
    case False
    define c where "c = \<lparr>oc_buf = bs @ replicate (TCP_OPTS_BUF_SZ - length bs) 0, oc_opts = opts,
       oc_opt_len = length bs, oc_off = 0, oc_err = - E2BIG\<rparr>"
    have len_bounds: "length bs \<noteq> 0" "length bs \<le> 40" using False len d by auto
    have "tcp_parse_opts E p th opts = (let c = bpf_loop (TCP_OPTS_MAX + 1) tcp_parse_one_opt c in (oc_err c, oc_opts c))"
      using len_bounds assms(2) load len by (simp add: tcp_parse_opts_def Let_def TCP_OPTS_MAX_def c_def)
    moreover have "length bs \<le> TCP_OPTS_BUF_SZ" "length bs < TCP_OPTS_MAX + 1"
      using len d by (simp_all add: TCP_OPTS_BUF_SZ_def TCP_OPTS_MAX_def)
    ultimately show ?thesis
      using parse_loop_ref[of bs 0 "TCP_OPTS_MAX + 1" c] unfolding bs_def[symmetric]
      by (auto simp: c_def split: option.splits)
  qed
qed

text \<open>A SYN header with MSS, SACK permitted, timestamps and window scale 8.\<close>

definition ref_syn :: packet where
  "ref_syn = [0x30, 0x39, 0, 80, 0, 0, 0, 1, 0, 0, 0, 0, 0xA0, 2, 0xFF, 0xFF, 0, 0, 0, 0,
     2, 4, 5, 180, 4, 2, 8, 10, 1, 2, 3, 4, 0, 0, 0, 0, 1, 3, 3, 8]"

theorem tcp_parse_opts_correct_witness:
  "tcp_parse_opts ref_env ref_syn 0 no_opts = (0, \<lparr>opt_ts = 0x04030201, opt_wscale = 8, opt_sack_perm = True\<rparr>)"
proof -
  have d: "unat (tcp_doff ref_syn 0) = 10" by code_simp
  have r: "ref_opts (drop 20 ref_syn) no_opts = Some \<lparr>opt_ts = 0x04030201, opt_wscale = 8, opt_sack_perm = True\<rparr>"
    by code_simp
  have l: "length ref_syn = 40" by code_simp
  show ?thesis
    using tcp_parse_opts_correct[of ref_env ref_syn 0 no_opts] by (simp add: d l r ref_env_load_bytes)
qed



text \<open>
  The timestamp of the SYN-ACK carries the client's options: its six low bits are the
  window scale (15 for none), SACK permitted and ECN, and it is less than 64 ms older than
  the clock, never in the future.
\<close>

theorem cookie_timestamp_encodes_options:
  "unat (bpf_ntohl (tcp_syncookies_make_cookie_ts E p th opts)) mod 64 = cookie_opts p th opts \<and>
   unat (tcp_clock_ms E - bpf_ntohl (tcp_syncookies_make_cookie_ts E p th opts)) < 64"
proof -
  define now where "now = unat (tcp_clock_ms E)"
  define co where "co = cookie_opts p th opts"
  define b :: u32 where "b = word_of_nat (now div 64 * 64 + co)"
  note c = cookie_ts_cases[of E p th opts, folded now_def co_def, folded b_def]
  have co: "co < 64" by (simp add: co_def cookie_opts_less)
  have now: "now = now div 64 * 64 + now mod 64" by simp
  show ?thesis
  proof (cases "tcp_clock_ms E < b")
    case True
    then have lt: "now < unat b" by (simp add: word_less_nat_alt now_def)
    have u: "unat (b - 64) = (if 64 \<le> unat b then unat b - 64 else unat b + 4294967296 - 64)"
      by (simp add: unat_sub_if_size word_size)
    have "unat (b - 64) mod 64 = co"
    proof (cases "64 \<le> unat b")
      case True
      then have "unat (b - 64) = (now div 64 - 1) * 64 + co" using u c(2) co by (simp add: diff_mult_distrib)
      then show ?thesis using co by simp
    next
      case False
      then have "unat (b - 64) = 67108863 * 64 + co" using u c(2) co by simp
      then show ?thesis using co by (simp only: mod_mult_self3 mod_less)
    qed
    moreover have "unat (tcp_clock_ms E - (b - 64)) < 64"
    proof -
      have "tcp_clock_ms E - (b - 64) = word_of_nat (now + 64 - unat b)"
        using now lt c(2) co by (simp add: b_def now_def)
      then show ?thesis using lt by (simp add: unsigned_of_nat le_less_trans[OF take_bit_nat_less_eq_self])
    qed
    ultimately have "unat (b - 64) mod 64 = co \<and> unat (tcp_clock_ms E - (b - 64)) < 64" by simp
    then show ?thesis using c(1) True by (simp add: co_def)
  next
    case False
    then have "b \<le> tcp_clock_ms E" by simp
    then have "unat (tcp_clock_ms E - b) = now - unat b" "unat b \<le> now"
      by (simp_all add: unat_sub now_def word_le_nat_alt)
    then show ?thesis using c False co now by (simp add: co_def)
  qed
qed

end
