(* ===== verification/SynCookies.thy ===== *)
theory SynCookies
  imports PacketFilter Csum TcpOpts
begin

text \<open>
  SYN cookies (\<open>bpf/tcp_syncookies.h\<close>): when a cookie is tried, turning a received SYN
  into the SYN-ACK in place, and checking the cookie of an ACK. The socket and cookie
  services are the kernel's. Shown: the SYN-ACK has valid IP and TCP checksums and the
  fields RFC 9293 asks for, when cookies are sent, and what each outcome of the kernel
  services makes of the packet.
\<close>

definition XFW_DEFAULT_WINDOW :: u16 where "XFW_DEFAULT_WINDOW = 0xFFFF"
definition BPF_TCP_LISTEN :: u8 where "BPF_TCP_LISTEN = 10"


section \<open>Rate of attempts\<close>

definition tcp_syncookies_flood_mode :: "XfwGlobalCtx \<Rightarrow> XfwTcpSynCookieTs \<Rightarrow> bool \<times> XfwTcpSynCookieTs" where
  "tcp_syncookies_flood_mode c ts =
     (if ts_jiff c - last_gen_jiff ts \<le> flood_timer_jiff (syncookie (rules (cfg c)))
      then (True, ts\<lparr>last_try_jiff := ts_jiff c\<rparr>) else (False, ts))"

definition tcp_syncookies_passive_mode :: "XfwGlobalCtx \<Rightarrow> XfwTcpSynCookieTs \<Rightarrow> bool \<times> XfwTcpSynCookieTs" where
  "tcp_syncookies_passive_mode c ts =
     (if passive_timer_jiff (syncookie (rules (cfg c))) \<le> ts_jiff c - last_try_jiff ts
      then (True, ts\<lparr>last_try_jiff := ts_jiff c\<rparr>) else (False, ts))"


section \<open>The SYN-ACK\<close>

text \<open>Assignment to the 4-bit field \<open>th->doff\<close>.\<close>

definition set_doff :: "packet \<Rightarrow> nat \<Rightarrow> u8 \<Rightarrow> packet" where
  "set_doff p th d = st8 p (th + 12) (push_bit 4 d OR (ld8 p (th + 12) AND 0xF))"

text \<open>The TCP header fields \<open>tcp_syncookies_make_synack\<close> writes before it takes the sum.\<close>

definition synack_tcp :: "nat \<Rightarrow> nat \<Rightarrow> u32 \<Rightarrow> packet \<Rightarrow> packet" where
  "synack_tcp th new_doff cookie p =
     (let p = set_doff p th (word_of_nat new_doff);
          p = st16 p (th + 14) XFW_DEFAULT_WINDOW;
          p = st16 p (th + 16) 0;
          p = st8 p (th + 13) (ld8 p (th + 13) OR 0x10);
          p = st32 p (th + 8) (bpf_htonl (bpf_ntohl (tcp_seq p th) + 1))
      in st32 p (th + 4) (bpf_htonl cookie))"

definition swap_ports :: "nat \<Rightarrow> packet \<Rightarrow> packet" where
  "swap_ports th p = st16 (st16 p th (l4_dest p th)) (th + 2) (l4_source p th)"

definition swap_macs :: "packet \<Rightarrow> packet" where
  "swap_macs p = take 6 (drop 6 p) @ take 6 p @ drop 12 p"

definition st_ip6 :: "packet \<Rightarrow> nat \<Rightarrow> XfwIp \<Rightarrow> packet" where
  "st_ip6 p i a = st32 (st32 (st32 (st32 p i (addr32_0 a)) (i + 4) (addr32_1 a)) (i + 8) (addr32_2 a))
     (i + 12) (addr32_3 a)"

definition ipv6_reply_hdr :: "nat \<Rightarrow> u16 \<Rightarrow> packet \<Rightarrow> packet" where
  "ipv6_reply_hdr iph d_len p =
     (let p = st8 p (iph + 7) XFW_DEFAULT_TTL;
          payload_len = bpf_ntohs (ld16 p (iph + 4));
          p = st16 p (iph + 4) (bpf_htons (payload_len + d_len));
          saddr = ip6_saddr p iph; daddr = ip6_daddr p iph
      in st_ip6 (st_ip6 p (iph + 8) daddr) (iph + 24) saddr)"

definition tcp_syncookies_make_synack ::
  "env \<Rightarrow> XfwGlobalCtx \<Rightarrow> nat \<Rightarrow> u32 \<Rightarrow> u16 \<Rightarrow> XfwTCPOpts \<Rightarrow> packet \<Rightarrow> int \<times> packet" where
  "tcp_syncookies_make_synack E c th cookie mss opts p =
     (let (n, p) = tcp_syncookies_write_opts E p th mss opts;
          new_doff = 5 + n;
          d_len = (word_of_nat new_doff - ucast (tcp_doff p th)) * 4;
          tcplen = new_doff * 4;
          d_end = cur_end (hdr_cur c);
          iph = unat (ip_off c)
      in
      if \<not> th + tcplen \<le> d_end then (- EFBIG, p)
      else let p = synack_tcp th new_doff cookie p;
               csum = csum_diff E (take tcplen (drop th p))
      in
      if \<not> 0 \<le> csum then (csum, p)
      else let p = swap_ports th p in
      if \<not> 14 \<le> d_end then (- EFBIG, p)
      else let p = swap_macs p in
      if ipver c = bpf_ntohs ETH_P_IP
      then if \<not> iph + 20 \<le> d_end then (- EINVAL, p)
           else (0, tcp_ipv4_csum_update iph th (word_of_int csum) (ipv4_reply_hdr iph d_len p))
      else if ipver c = bpf_ntohs ETH_P_IPV6
      then if \<not> iph + 40 \<le> d_end then (- EINVAL, p)
           else (0, tcp_ipv6_csum_update iph th (word_of_int csum) (ipv6_reply_hdr iph d_len p))
      else (0, p))"


section \<open>The filters\<close>

definition tcp_sk_listen_lookup :: "env \<Rightarrow> XfwGlobalCtx \<Rightarrow> nat \<Rightarrow> packet \<Rightarrow> u8 option" where
  "tcp_sk_listen_lookup E c th p =
     (let iph = unat (ip_off c) in
      if ipver c = bpf_ntohs ETH_P_IP
      then if \<not> iph + 20 \<le> cur_end (hdr_cur c) then None
           else sk_lookup_tcp E \<lparr>tup_ipv4 = True, tup_sport = l4_source p th, tup_dport = l4_dest p th,
                  tup_saddr = XfwIp (ip_saddr p iph) 0 0 0, tup_daddr = XfwIp (ip_daddr p iph) 0 0 0\<rparr>
      else if ipver c = bpf_ntohs ETH_P_IPV6
      then if \<not> iph + 40 \<le> cur_end (hdr_cur c) then None
           else sk_lookup_tcp E \<lparr>tup_ipv4 = False, tup_sport = l4_source p th, tup_dport = l4_dest p th,
                  tup_saddr = ip6_saddr p iph, tup_daddr = ip6_daddr p iph\<rparr>
      else None)"

definition syncookie_failed :: "env \<Rightarrow> XfwGlobalCtx \<Rightarrow> state \<Rightarrow> verdict \<times> state" where
  "syncookie_failed E c s =
     XFW_MAKE_CTX_DROP E c XFW_DROP_SYNCOOKIE_FAILED (count_traffic_stat c XFW_SYNCOOKIE_FAILED s)"

text \<open>The last part of the SYN filter, once the kernel has answered with a sequence number or an error.\<close>

definition syncookie_reply :: "env \<Rightarrow> XfwGlobalCtx \<Rightarrow> nat \<Rightarrow> int \<Rightarrow> state \<Rightarrow> verdict \<times> state" where
  "syncookie_reply E c th seq_mss s =
     (if seq_mss < 0 then syncookie_failed E c s
      else let (r, opts) = tcp_parse_opts E (pkt s) th no_opts in
      if r \<noteq> 0 then syncookie_failed E c s
      else let (r, p) = tcp_syncookies_make_synack E c th (word_of_int seq_mss)
                          (word_of_int (seq_mss div 2 ^ 32)) opts (pkt s);
               s = s\<lparr>pkt := p\<rparr>
      in
      if r \<noteq> 0 then syncookie_failed E c s
      else MAKE_XDP_TX c XFW_SYNCOOKIE_GENERATED s)"

text \<open>The part that runs when a cookie is to be tried, with the timestamps already updated.\<close>

definition syncookie_try :: "env \<Rightarrow> XfwGlobalCtx \<Rightarrow> nat \<Rightarrow> XfwTcpSynCookieTs \<Rightarrow> state \<Rightarrow> verdict \<times> state" where
  "syncookie_try E c th ts s =
     (let iph = unat (ip_off c); iph_len = (if ipver c = bpf_htons ETH_P_IP then 20 else 40);
          gen_ts = Some (ts\<lparr>last_gen_jiff := ts_jiff c\<rparr>)
      in XFW_ASSERT (iph + iph_len \<le> cur_end (hdr_cur c)) c s (\<lambda>_.
      let old_doff = tcp_doff (pkt s) th;
          p = set_doff (pkt s) th 5
      in case tcp_sk_listen_lookup E c th p of
        None \<Rightarrow> syncookie_failed E c (s\<lparr>syncookies := gen_ts, pkt := p\<rparr>)
      | Some _ \<Rightarrow>
     (let seq_mss = tcp_gen_syncookie E (take iph_len (drop iph p)) (take 20 (drop th p));
          p = set_doff p th old_doff
      in
      if seq_mss = - ENOENT then (XFW_CTX_CONTINUE, s\<lparr>pkt := p\<rparr>)
      else syncookie_reply E c th seq_mss (s\<lparr>syncookies := gen_ts, pkt := p\<rparr>))))"

definition tcp_syncookies_syn_filter :: "env \<Rightarrow> XfwGlobalCtx \<Rightarrow> nat \<Rightarrow> state \<Rightarrow> verdict \<times> state" where
  "tcp_syncookies_syn_filter E c th s =
     (case syncookies s of
        None \<Rightarrow> XFW_MAKE_CTX_PASS c XFW_ASSERT_FAILED s
      | Some ts \<Rightarrow>
          (let (flood, ts) = tcp_syncookies_flood_mode c ts;
               (passive, ts) = (if flood then (False, ts) else tcp_syncookies_passive_mode c ts);
               s = s\<lparr>syncookies := Some ts\<rparr>
           in if \<not> flood \<and> \<not> passive then (XFW_CTX_CONTINUE, s)
              else syncookie_try E c th ts s))"

definition tcp_syncookies_ack_filter :: "env \<Rightarrow> XfwGlobalCtx \<Rightarrow> nat \<Rightarrow> state \<Rightarrow> verdict \<times> state" where
  "tcp_syncookies_ack_filter E c th s =
     (let iph = unat (ip_off c); p = pkt s; tcph = take 20 (drop th p);
          failed = syncookie_failed E c s;
          received = (XFW_CTX_CONTINUE, count_traffic_stat c XFW_SYNCOOKIE_RECEIVED s)
      in case tcp_sk_listen_lookup E c th p of
        None \<Rightarrow> failed
      | Some sk_state \<Rightarrow>
          if sk_state \<noteq> BPF_TCP_LISTEN then (XFW_CTX_CONTINUE, s)
          else if ipver c = bpf_ntohs ETH_P_IP
          then XFW_ASSERT (iph + 20 \<le> cur_end (hdr_cur c)) c s (\<lambda>_.
                 if raw_check_syncookie_ipv4 E (take 20 (drop iph p)) tcph < 0 then failed else received)
          else if ipver c = bpf_ntohs ETH_P_IPV6
          then XFW_ASSERT (iph + 40 \<le> cur_end (hdr_cur c)) c s (\<lambda>_.
                 if raw_check_syncookie_ipv6 E (take 40 (drop iph p)) tcph < 0 then failed else received)
          else received)"


section \<open>Accounting\<close>

lemma length_set_doff [simp, len_simps]: "length (set_doff p th d) = length p"
  by (simp add: set_doff_def)

lemma length_synack_tcp [simp, len_simps]: "length (synack_tcp th n ck p) = length p"
  by (simp add: synack_tcp_def Let_def)

lemma length_swap_ports [simp, len_simps]: "length (swap_ports th p) = length p"
  by (simp add: swap_ports_def)

lemma length_swap_macs [simp, len_simps]: "length (swap_macs p) = length p"
  by (simp add: swap_macs_def min_def)

lemma length_st_ip6 [simp, len_simps]: "length (st_ip6 p i a) = length p"
  by (simp add: st_ip6_def)

lemma length_reply_hdr [simp, len_simps]:
  "length (ipv4_reply_hdr iph d p) = length p" "length (ipv6_reply_hdr iph d p) = length p"
  by (simp_all add: ipv4_reply_hdr_def ipv6_reply_hdr_def ipv4_set_ttl_csum_def ipv4_set_tot_len_csum_def Let_def)

lemma length_csum_update [simp, len_simps]:
  "length (tcp_ipv4_csum_update iph th x p) = length p" "length (tcp_ipv6_csum_update iph th x p) = length p"
  by (simp_all add: tcp_ipv4_csum_update_def tcp_ipv6_csum_update_def Let_def)

lemma length_write_opts [simp, len_simps]: "length (snd (tcp_syncookies_write_opts E p th mss opts)) = length p"
  by (simp add: tcp_syncookies_write_opts_def Let_def)

lemma length_make_synack [simp, len_simps]:
  "length (snd (tcp_syncookies_make_synack E c th ck mss opts p)) = length p"
  by (simp add: tcp_syncookies_make_synack_def Let_def case_prod_beta)

lemma accounted_failed: "silent s s' \<Longrightarrow> accounted E sz s (syncookie_failed E c s')"
  unfolding syncookie_failed_def
  by (erule accounted_silent_trans) (rule accounted_count_traffic[OF _ accounted_drop], simp add: entry_stats_def)

lemma accounted_received: "accounted E sz s (XFW_CTX_CONTINUE, count_traffic_stat c XFW_SYNCOOKIE_RECEIVED s)"
  by (simp add: accounted_continue silent_count_traffic entry_stats_def)

lemma silent_sc:
  "silent s (s\<lparr>syncookies := x\<rparr>)"
  "length p = length (pkt s) \<Longrightarrow> silent s (s\<lparr>syncookies := x, pkt := p\<rparr>)"
  by (simp_all add: silent_def)

interpretation sc_ack: packet_filter E "pkt_sz c" "tcp_syncookies_ack_filter E c th" for E c th
  unfolding tcp_syncookies_ack_filter_def Let_def
  by unfold_locales (intro acc_intros accounted_failed accounted_received silent_refl refl)

lemma accounted_reply: "accounted E (pkt_sz c) s (syncookie_reply E c th sm s)"
  unfolding syncookie_reply_def Let_def case_prod_beta
  by (intro acc_intros accounted_failed silent_refl silent_pkt accounted_silent_trans[OF silent_pkt accounted_tx]
      length_make_synack refl)

lemma accounted_try: "accounted E (pkt_sz c) s (syncookie_try E c th ts s)"
  unfolding syncookie_try_def Let_def
  by (intro acc_intros accounted_failed silent_sc accounted_silent_trans[OF silent_sc(2) accounted_reply] refl)
    (simp_all add: accounted_continue silent_pkt)

interpretation sc_syn: packet_filter E "pkt_sz c" "tcp_syncookies_syn_filter E c th" for E c th
proof unfold_locales
  fix s
  show "accounted E (pkt_sz c) s (tcp_syncookies_syn_filter E c th s)"
    unfolding tcp_syncookies_syn_filter_def Let_def case_prod_beta
    by (intro acc_intros refl accounted_silent_trans[OF silent_sc(1) accounted_try])
      (simp add: accounted_continue silent_sc)
qed


section \<open>Bytes the steps leave alone\<close>

named_theorems other_simps

lemma ld8_other:
  "i < k \<or> k < i \<Longrightarrow> ld8 (st8 p k b) i = ld8 p i"
  "i < k \<or> k + 1 < i \<Longrightarrow> ld8 (st16 p k w) i = ld8 p i"
  "i < k \<or> k + 3 < i \<Longrightarrow> ld8 (st32 p k v) i = ld8 p i"
  by (auto simp: ldst_simps)

lemma ld8_reply_hdr4 [other_simps]:
  "i < iph \<or> iph + 20 \<le> i \<Longrightarrow> ld8 (ipv4_reply_hdr iph d p) i = ld8 p i"
  by (elim disjE; simp add: ipv4_reply_hdr_def ipv4_set_ttl_csum_def ipv4_set_tot_len_csum_def Let_def ld8_other)

lemma ld8_st_ip6 [other_simps]: "i < k \<or> k + 16 \<le> i \<Longrightarrow> ld8 (st_ip6 p k a) i = ld8 p i"
  by (elim disjE; simp add: st_ip6_def ld8_other)

lemma ld8_reply_hdr6 [other_simps]:
  "i < iph \<or> iph + 40 \<le> i \<Longrightarrow> ld8 (ipv6_reply_hdr iph d p) i = ld8 p i"
  by (elim disjE; simp add: ipv6_reply_hdr_def Let_def ld8_st_ip6 ld8_other)

lemma ld8_swap_macs [other_simps]: "12 \<le> i \<Longrightarrow> ld8 (swap_macs p) i = ld8 p i"
  by (auto simp: ld8_def swap_macs_def nth_append min_def)

lemma ld8_csum_update [other_simps]:
  "i \<noteq> th + 16 \<Longrightarrow> i \<noteq> th + 17 \<Longrightarrow> ld8 (tcp_ipv4_csum_update iph th x p) i = ld8 p i"
  "i \<noteq> th + 16 \<Longrightarrow> i \<noteq> th + 17 \<Longrightarrow> ld8 (tcp_ipv6_csum_update iph th x p) i = ld8 p i"
  by (simp_all add: tcp_ipv4_csum_update_def tcp_ipv6_csum_update_def Let_def ld8_st16)

lemma ld8_swap_ports [other_simps]: "i < th \<or> th + 4 \<le> i \<Longrightarrow> ld8 (swap_ports th p) i = ld8 p i"
  by (elim disjE; simp add: swap_ports_def ld8_other)

lemma ld8_synack_tcp [other_simps]:
  "i < th + 4 \<or> th + 18 \<le> i \<Longrightarrow> ld8 (synack_tcp th n ck p) i = ld8 p i"
  by (elim disjE; simp add: synack_tcp_def set_doff_def Let_def ld8_other)

lemma word_sum_cong:
  "(\<And>i. off \<le> i \<Longrightarrow> i < off + 2 * n \<Longrightarrow> ld8 p i = ld8 q i) \<Longrightarrow> word_sum p off n = word_sum q off n"
  unfolding word_sum_def by (intro sum.cong refl arg_cong[where f = unat] ld16_cong) auto

lemma word_sum_take_drop:
  "th + 2 * n \<le> length p \<Longrightarrow> word_sum (take (2 * n) (drop th p)) 0 n = word_sum p th n"
  unfolding word_sum_def
  by (intro sum.cong refl arg_cong[where f = unat]) (auto simp: ld16_def ld8_def add.commute[of 1])

lemma word_sum_swap_ports:
  assumes "2 \<le> n" "th + 4 \<le> length p"
  shows "word_sum (swap_ports th p) th n = word_sum p th n"
proof -
  have "word_sum (st16 p th (l4_dest p th)) th n + unat (l4_source p th) = word_sum p th n + unat (l4_dest p th)"
    using word_sum_st16[of 0 n th p] assms by (simp add: l4_source_def)
  moreover have "word_sum (swap_ports th p) th n + unat (l4_dest p th)
      = word_sum (st16 p th (l4_dest p th)) th n + unat (l4_source p th)"
    using word_sum_st16[of 1 n th "st16 p th (l4_dest p th)"] assms
    by (simp add: swap_ports_def l4_dest_def ldst_simps)
  ultimately show ?thesis by simp
qed

lemma nibble_mask: "(0xF :: u8) = mask 4"
  by (simp add: mask_eq_exp_minus_1)

lemma drop_bit_nibble: "drop_bit 4 (push_bit 4 d OR (x AND 0xF)) = (d AND 0xF :: u8)"
  unfolding nibble_mask
  by (rule bit_word_eqI)
    (auto simp: bit_drop_bit_eq bit_or_iff bit_and_iff bit_push_bit_iff bit_mask_iff dest: bit_imp_le_length)

lemma tcp_doff_set_doff: "th + 12 < length p \<Longrightarrow> tcp_doff (set_doff p th d) th = d AND 0xF"
  unfolding tcp_doff_def set_doff_def by (simp only: ld8_st8 drop_bit_nibble simp_thms if_True)

lemma set_doff_restore:
  assumes "th + 12 < length p"
  shows "set_doff (set_doff p th d) th (tcp_doff p th) = p"
proof -
  have "push_bit 4 (drop_bit 4 x) OR ((push_bit 4 d OR (x AND 0xF)) AND 0xF) = x" for x :: u8
    unfolding nibble_mask
    by (rule bit_word_eqI) (auto simp: bit_drop_bit_eq bit_or_iff bit_and_iff bit_push_bit_iff bit_mask_iff)
  then show ?thesis
    using assms unfolding set_doff_def tcp_doff_def
    by (simp only: ld8_st8 simp_thms if_True) (simp add: st8_def ld8_def)
qed


section \<open>The checksums of the SYN-ACK\<close>

text \<open>
  \<open>bpf_csum_diff\<close> from an empty buffer to \<open>bs\<close>, whose length is a multiple of 4 and at
  most 512: a non-negative 32-bit one's complement sum of the words of \<open>bs\<close>.
\<close>

definition csum_law :: "env \<Rightarrow> bool" where
  "csum_law E \<longleftrightarrow> (\<forall>bs. length bs mod 4 = 0 \<longrightarrow> length bs \<le> 512 \<longrightarrow>
     0 \<le> csum_diff E bs \<and> csum_diff E bs < 2 ^ 32 \<and>
     nat (csum_diff E bs) mod 65535 = word_sum bs 0 (length bs div 2) mod 65535)"

definition plain_csum :: "packet \<Rightarrow> int" where
  "plain_csum bs = int (word_sum bs 0 (length bs div 2))"

lemma word_sum_bound: "word_sum p off n \<le> 65535 * n"
proof -
  have "unat (w :: u16) \<le> 65535" for w using unsigned_less[of w, where ?'a = nat] by simp
  then have "word_sum p off n \<le> (\<Sum>k < n. 65535)" unfolding word_sum_def by (intro sum_mono)
  then show ?thesis by (simp add: mult.commute)
qed

lemma plain_csum_law: "csum_law (E\<lparr>csum_diff := plain_csum\<rparr>)"
proof -
  have "word_sum bs 0 (length bs div 2) < 4294967296" if "length bs \<le> 512" for bs
    using word_sum_bound[of bs 0 "length bs div 2"] that by linarith
  then show ?thesis by (simp add: csum_law_def plain_csum_def)
qed

text \<open>The packet between the TCP part and the IP part.\<close>

definition synack_l4 :: "nat \<Rightarrow> nat \<Rightarrow> u32 \<Rightarrow> packet \<Rightarrow> packet" where
  "synack_l4 th nd ck p = swap_macs (swap_ports th (synack_tcp th nd ck p))"

lemma make_synack_cases:
  assumes "tcp_syncookies_make_synack E c th ck mss opts p = (0, q)"
    "cur_end (hdr_cur c) = length p" "th + 20 \<le> length p"
  obtains n p1 csum where "tcp_syncookies_write_opts E p th mss opts = (n, p1)" "n \<le> 5"
    "th + 4 * (5 + n) \<le> length p"
    "csum = csum_diff E (take (4 * (5 + n)) (drop th (synack_tcp th (5 + n) ck p1)))"
    "ipver c = bpf_htons ETH_P_IP \<Longrightarrow>
       q = tcp_ipv4_csum_update (unat (ip_off c)) th (word_of_int csum)
         (ipv4_reply_hdr (unat (ip_off c)) ((word_of_nat (5 + n) - ucast (tcp_doff p1 th)) * 4) (synack_l4 th (5 + n) ck p1))"
    "ipver c = bpf_htons ETH_P_IPV6 \<Longrightarrow>
       q = tcp_ipv6_csum_update (unat (ip_off c)) th (word_of_int csum)
         (ipv6_reply_hdr (unat (ip_off c)) ((word_of_nat (5 + n) - ucast (tcp_doff p1 th)) * 4) (synack_l4 th (5 + n) ck p1))"
proof -
  obtain n p1 where w: "tcp_syncookies_write_opts E p th mss opts = (n, p1)" by fastforce
  have n: "n \<le> 5" using write_opts_words(2)[OF assms(3) w] by auto
  show thesis
    by (rule that[OF w n _ refl]; use assms(1,2) w in
      \<open>auto simp: tcp_syncookies_make_synack_def Let_def synack_l4_def mult.commute split: if_splits\<close>)
qed

lemma ld8_synack_l4 [other_simps]:
  "12 \<le> i \<Longrightarrow> i < th \<or> th + 4 \<le> i \<Longrightarrow> ld8 (synack_l4 th nd ck p) i = ld8 (synack_tcp th nd ck p) i"
  by (simp add: synack_l4_def other_simps)

lemma synack_l4_facts:
  assumes "14 \<le> th" "th + 20 \<le> length p" "nd < 16"
  shows "ld16 (synack_l4 th nd ck p) (th + 16) = 0" "unat (tcp_doff (synack_l4 th nd ck p) th) = nd"
    "2 \<le> n \<Longrightarrow> word_sum (synack_l4 th nd ck p) th n = word_sum (synack_tcp th nd ck p) th n"
proof -
  have "ld16 (synack_l4 th nd ck p) (th + 16) = ld16 (synack_tcp th nd ck p) (th + 16)"
    using assms(1) by (intro ld16_cong) (simp_all add: other_simps)
  also have "\<dots> = 0" using assms(2) by (simp add: synack_tcp_def Let_def ldst_simps set_doff_def)
  finally show "ld16 (synack_l4 th nd ck p) (th + 16) = 0" .
  have "tcp_doff (synack_l4 th nd ck p) th = tcp_doff (set_doff p th (word_of_nat nd)) th"
    using assms(1) by (simp add: tcp_doff_def other_simps) (simp add: synack_tcp_def Let_def ld8_other)
  also have "\<dots> = word_of_nat nd AND 0xF" using assms(2) by (intro tcp_doff_set_doff) simp
  finally show "unat (tcp_doff (synack_l4 th nd ck p) th) = nd"
    using assms(3) unfolding nibble_mask take_bit_eq_mask[symmetric]
    by (simp add: unat_take_bit unsigned_of_nat take_bit_nat_eq_self)
  have "word_sum (synack_l4 th nd ck p) th n = word_sum (swap_ports th (synack_tcp th nd ck p)) th n"
    using assms(1) unfolding synack_l4_def by (intro word_sum_cong) (simp add: other_simps)
  then show "2 \<le> n \<Longrightarrow> word_sum (synack_l4 th nd ck p) th n = word_sum (synack_tcp th nd ck p) th n"
    using assms(2) by (simp add: word_sum_swap_ports)
qed

text \<open>What the IP part and the checksum update start from, for either IP version.\<close>

lemma synack_hdr_sum:
  assumes "csum_law E" "14 \<le> th" "th + 4 * nd \<le> length p" "5 \<le> nd" "nd \<le> 10" "length r = length p"
    and csum: "csum = csum_diff E (take (4 * nd) (drop th (synack_tcp th nd ck p)))"
    and r: "\<And>i. th \<le> i \<Longrightarrow> ld8 r i = ld8 (synack_l4 th nd ck p) i"
  shows "ld16 r (th + 16) = 0" "unat (tcp_doff r th) = nd"
    "unat (word_of_int csum :: u64) < 2 ^ 32"
    "unat (word_of_int csum :: u64) mod 65535 = word_sum r th (2 * nd) mod 65535"
proof -
  note f = synack_l4_facts[OF assms(2), where p = p and nd = nd and ck = ck]
  have l: "th + 20 \<le> length p" "nd < 16" "2 \<le> 2 * nd" using assms by simp_all
  have "ld16 r (th + 16) = ld16 (synack_l4 th nd ck p) (th + 16)" by (intro ld16_cong) (simp_all add: r)
  then show "ld16 r (th + 16) = 0" using f(1) l by simp
  have "tcp_doff r th = tcp_doff (synack_l4 th nd ck p) th" by (simp add: tcp_doff_def r)
  then show "unat (tcp_doff r th) = nd" using f(2) l by simp
  have w: "word_sum r th (2 * nd) = word_sum (synack_tcp th nd ck p) th (2 * nd)"
    using word_sum_cong[of th "2 * nd" r "synack_l4 th nd ck p"] r f(3)[of "2 * nd"] l by simp
  have len: "length (take (4 * nd) (drop th (synack_tcp th nd ck p))) = 4 * nd" using assms(3) by simp
  have "word_sum (take (4 * nd) (drop th (synack_tcp th nd ck p))) 0 (2 * nd)
      = word_sum (synack_tcp th nd ck p) th (2 * nd)"
    using word_sum_take_drop[of th "2 * nd" "synack_tcp th nd ck p"] assms(3) by simp
  moreover have c: "0 \<le> csum \<and> csum < 2 ^ 32 \<and> nat csum mod 65535
      = word_sum (take (4 * nd) (drop th (synack_tcp th nd ck p))) 0 (2 * nd) mod 65535"
    using assms(1,5) len unfolding csum_law_def csum
    by (auto dest!: spec[of _ "take (4 * nd) (drop th (synack_tcp th nd ck p))"])
  ultimately show "unat (word_of_int csum :: u64) < 2 ^ 32"
    "unat (word_of_int csum :: u64) mod 65535 = word_sum r th (2 * nd) mod 65535"
    using w by (simp_all add: unsigned_of_int take_bit_int_eq_self nat_less_iff)
qed

lemma write_opts_ld8:
  assumes "th + 20 \<le> length p" "tcp_syncookies_write_opts E p th mss opts = (n, q)" "i < th + 20"
  shows "ld8 q i = ld8 p i"
  using write_opts_words(1)[OF assms(1,2)] assms(1,3) by (simp add: ld8_def nth_append)

lemma write_opts_length:
  "tcp_syncookies_write_opts E p th mss opts = (n, q) \<Longrightarrow> length q = length p"
  using length_write_opts[of E p th mss opts] by simp


text \<open>An IPv4 SYN from 10.0.0.1 to 10.0.0.2 with 20 bytes of options, and its context.\<close>

definition syn4 :: packet where
  "syn4 = [2, 0, 0, 0, 0, 2, 2, 0, 0, 0, 0, 1, 8, 0] @
     [0x45, 0, 0, 60, 0, 1, 0x40, 0, 60, 6, 0x2A, 0xB9, 10, 0, 0, 1, 10, 0, 0, 2] @ ref_syn"

definition sc_env :: env where
  "sc_env = ref_env\<lparr>sk_lookup_tcp := (\<lambda>t. Some BPF_TCP_LISTEN),
     tcp_gen_syncookie := (\<lambda>i t. 1460 * 2 ^ 32 + 0xCAFE), csum_diff := plain_csum\<rparr>"

definition sc_ctx :: XfwGlobalCtx where
  "sc_ctx = (ref_ctx 1000 74)\<lparr>hdr_cur := \<lparr>pos = 74, cur_end = 74\<rparr>, ipver := bpf_htons ETH_P_IP, ip_off := 14\<rparr>"

lemma sc_env_laws: "csum_law sc_env" "load_bytes_law sc_env"
  using plain_csum_law[of "ref_env\<lparr>sk_lookup_tcp := (\<lambda>t. Some BPF_TCP_LISTEN),
     tcp_gen_syncookie := (\<lambda>i t. 1460 * 2 ^ 32 + 0xCAFE)\<rparr>"] ref_env_load_bytes
  by (simp_all add: sc_env_def load_bytes_law_def)

lemma length_syn4 [simp]: "length syn4 = 74"
  by (simp add: syn4_def ref_syn_def)

lemma make_synack_ok:
  assumes "csum_law E" "cur_end (hdr_cur c) = length p" "th + 20 \<le> length p" "14 \<le> length p"
    "ipver c = bpf_htons ETH_P_IP \<and> unat (ip_off c) + 20 \<le> length p
      \<or> ipver c = bpf_htons ETH_P_IPV6 \<and> unat (ip_off c) + 40 \<le> length p"
  shows "fst (tcp_syncookies_make_synack E c th ck mss opts p) = 0"
proof -
  obtain n p1 where w: "tcp_syncookies_write_opts E p th mss opts = (n, p1)" by fastforce
  note ww = write_opts_words[OF assms(3) w]
  have "0 \<le> csum_diff E (take ((5 + n) * 4) (drop th (synack_tcp th (5 + n) ck p1)))"
    using assms(1) ww(2,3) write_opts_length[OF w] unfolding csum_law_def
    by (auto dest!: spec[of _ "take ((5 + n) * 4) (drop th (synack_tcp th (5 + n) ck p1))"])
  then show ?thesis
    using assms(2-) ww(3) by (auto simp: tcp_syncookies_make_synack_def w Let_def)
qed


text \<open>
  The SYN-ACK made from an IPv6 SYN has a correct TCP checksum, also behind extension
  headers.
\<close>

theorem synack_ipv6_checksum:
  assumes "csum_law E" "tcp_syncookies_make_synack E c th ck mss opts p = (0, q)"
    "ipver c = bpf_htons ETH_P_IPV6" "cur_end (hdr_cur c) = length p"
    "unat (ip_off c) + 40 \<le> th" "th + 20 \<le> length p"
  shows "(word_sum q th (2 * unat (tcp_doff q th)) + pseudo6 q (unat (ip_off c)) (4 * unat (tcp_doff q th))) mod 65535 = 0"
proof -
  define iph where "iph = unat (ip_off c)"
  obtain m p1 csum where w: "tcp_syncookies_write_opts E p th mss opts = (m, p1)" and m: "m \<le> 5"
    "th + 4 * (5 + m) \<le> length p"
    and csum: "csum = csum_diff E (take (4 * (5 + m)) (drop th (synack_tcp th (5 + m) ck p1)))"
    and q: "q = tcp_ipv6_csum_update iph th (word_of_int csum)
      (ipv6_reply_hdr iph ((word_of_nat (5 + m) - ucast (tcp_doff p1 th)) * 4) (synack_l4 th (5 + m) ck p1))"
    using make_synack_cases[OF assms(2,4,6)] assms(3) unfolding iph_def by metis
  define r where "r = ipv6_reply_hdr iph ((word_of_nat (5 + m) - ucast (tcp_doff p1 th)) * 4) (synack_l4 th (5 + m) ck p1)"
  have qr: "q = tcp_ipv6_csum_update iph th (word_of_int csum) r" by (simp add: q r_def)
  have th: "iph + 40 \<le> th" "14 \<le> th" using assms(5) by (simp_all add: iph_def)
  have len: "length p1 = length p" "length r = length p"
    using write_opts_length[OF w] by (simp_all add: r_def synack_l4_def)
  have "th \<le> i \<Longrightarrow> ld8 r i = ld8 (synack_l4 th (5 + m) ck p1) i" for i
    using th by (simp add: r_def other_simps)
  note sum = synack_hdr_sum[OF assms(1) th(2) m(2)[folded len(1)] _ _ _ csum this]
  have doff: "unat (tcp_doff r th) = 5 + m" "unat (tcp_doff q th) = 5 + m"
    using sum(2) len m by (simp_all add: qr tcp_doff_def other_simps)
  have "(word_sum q th (2 * (5 + m)) + pseudo6 q iph (unat (tcp_doff r th) * 4)) mod 65535 = 0"
    unfolding qr by (rule tcp_ipv6_csum_valid) (use th assms(6) len m sum in simp_all)
  then show ?thesis by (simp add: doff iph_def mult.commute)
qed

definition syn6 :: packet where
  "syn6 = [2, 0, 0, 0, 0, 2, 2, 0, 0, 0, 0, 1, 0x86, 0xDD] @ [0x60, 0, 0, 0, 0, 40, 6, 60] @
     replicate 15 0 @ [1] @ replicate 15 0 @ [2] @ ref_syn"

theorem synack_ipv6_checksum_witness:
  "\<exists>q. tcp_syncookies_make_synack sc_env (sc_ctx\<lparr>hdr_cur := \<lparr>pos = 94, cur_end = 94\<rparr>, ipver := bpf_htons ETH_P_IPV6\<rparr>)
       54 0xCAFE 1460 no_opts syn6 = (0, q) \<and>
     (word_sum q 54 (2 * unat (tcp_doff q 54)) + pseudo6 q 14 (4 * unat (tcp_doff q 54))) mod 65535 = 0"
proof -
  define c where "c = sc_ctx\<lparr>hdr_cur := \<lparr>pos = 94, cur_end = 94\<rparr>, ipver := bpf_htons ETH_P_IPV6\<rparr>"
  have l: "length syn6 = 94" by (simp add: syn6_def ref_syn_def)
  have "fst (tcp_syncookies_make_synack sc_env c 54 0xCAFE 1460 no_opts syn6) = 0"
    by (rule make_synack_ok[OF sc_env_laws(1)]) (simp_all add: l c_def sc_ctx_def)
  then obtain q where q: "tcp_syncookies_make_synack sc_env c 54 0xCAFE 1460 no_opts syn6 = (0, q)"
    by (metis prod.collapse)
  then show ?thesis
    using synack_ipv6_checksum[OF sc_env_laws(1) q] by (simp add: c_def sc_ctx_def l)
qed

text \<open>Fields the SYN-ACK must have.\<close>

lemma synack_tcp_fields:
  assumes "th + 20 \<le> length p"
  shows "ld32 (synack_tcp th nd ck p) (th + 4) = bpf_htonl ck"
    "ld32 (synack_tcp th nd ck p) (th + 8) = bpf_htonl (bpf_ntohl (ld32 p (th + 4)) + 1)"
    "ld8 (synack_tcp th nd ck p) (th + 13) = ld8 p (th + 13) OR 0x10"
proof -
  have seq: "ld32 (st8 (st16 (st16 (set_doff p th x) (th + 14) w) (th + 16) 0) (th + 13) y) (th + 4) = ld32 p (th + 4)" for x w y
    by (simp add: ld32_def set_doff_def ld8_other)
  show "ld32 (synack_tcp th nd ck p) (th + 4) = bpf_htonl ck"
    using assms by (simp add: synack_tcp_def Let_def ldst_simps)
  have "ld32 (st32 r (th + 4) v) (th + 8) = ld32 r (th + 8)" for r v
    by (simp add: ld32_def ld8_other)
  then show "ld32 (synack_tcp th nd ck p) (th + 8) = bpf_htonl (bpf_ntohl (ld32 p (th + 4)) + 1)"
    using assms by (simp add: synack_tcp_def Let_def tcp_seq_def seq ldst_simps del: of_nat_add)
  show "ld8 (synack_tcp th nd ck p) (th + 13) = ld8 p (th + 13) OR 0x10"
    using assms by (simp add: synack_tcp_def Let_def ld8_other ld8_st8 set_doff_def)
qed

lemma ld32_cong: "(\<And>k. k < 4 \<Longrightarrow> ld8 p (i + k) = ld8 q (i + k)) \<Longrightarrow> ld32 p i = ld32 q i"
proof -
  assume a: "\<And>k. k < 4 \<Longrightarrow> ld8 p (i + k) = ld8 q (i + k)"
  show "ld32 p i = ld32 q i" using a[of 0] a[of 1] a[of 2] a[of 3] by (simp add: ld32_def)
qed

lemma take_eq_ld8:
  assumes "length x = length y" "\<And>i. i < n \<Longrightarrow> ld8 x i = ld8 y i"
  shows "take n x = take n y"
proof (rule nth_equalityI)
  fix i assume "i < length (take n x)"
  then show "take n x ! i = take n y ! i" using assms(1) assms(2)[of i] by (simp add: ld8_def)
qed (simp add: assms(1))

lemma take_swap_macs: "12 \<le> length p \<Longrightarrow> take 12 (swap_macs p) = drop 6 (take 12 p) @ take 6 (take 12 p)"
  by (simp add: swap_macs_def drop_take)

lemma swap_ports_fields:
  assumes "th + 4 \<le> length p"
  shows "ld16 (swap_ports th p) th = l4_dest p th" "ld16 (swap_ports th p) (th + 2) = l4_source p th"
  using assms by (simp_all add: swap_ports_def ldst_simps)

text \<open>
  C30. A SYN-ACK answers its SYN: its sequence number is the cookie, it acknowledges the
  SYN's sequence number plus one, its flags are those of the SYN and ACK, its ports are
  the SYN's exchanged, and the Ethernet addresses are exchanged.
\<close>

theorem synack_answers_syn:
  assumes "tcp_syncookies_make_synack E c th ck mss opts p = (0, q)"
    "ipver c = bpf_htons ETH_P_IP \<and> unat (ip_off c) + 20 \<le> th \<or>
     ipver c = bpf_htons ETH_P_IPV6 \<and> unat (ip_off c) + 40 \<le> th"
    "cur_end (hdr_cur c) = length p" "14 \<le> unat (ip_off c)" "th + 20 \<le> length p"
  shows "bpf_ntohl (ld32 q (th + 4)) = ck \<and> bpf_ntohl (ld32 q (th + 8)) = bpf_ntohl (tcp_seq p th) + 1 \<and>
    tcp_flags_byte q th = tcp_flags_byte p th OR 0x10 \<and>
    l4_source q th = l4_dest p th \<and> l4_dest q th = l4_source p th \<and>
    take 12 q = take 6 (drop 6 p) @ take 6 p"
proof -
  obtain m p1 where w: "tcp_syncookies_write_opts E p th mss opts = (m, p1)"
    and q: "\<exists>iph d x. 14 \<le> iph \<and> (iph + 20 \<le> th \<and> q = tcp_ipv4_csum_update iph th x (ipv4_reply_hdr iph d (synack_l4 th (5 + m) ck p1))
       \<or> iph + 40 \<le> th \<and> q = tcp_ipv6_csum_update iph th x (ipv6_reply_hdr iph d (synack_l4 th (5 + m) ck p1)))"
    using make_synack_cases[OF assms(1,3,5)] assms(2,4) by metis
  define l4 where "l4 = synack_l4 th (5 + m) ck p1"
  have th: "34 \<le> th" using assms(2,4) by auto
  have q8: "ld8 q i = ld8 l4 i" if "th \<le> i \<and> i < th + 16 \<or> i < 14" for i
    using q th that by (auto simp: other_simps l4_def)
  have len: "length p1 = length p" using write_opts_length[OF w] .
  have lq: "length q = length p" using q len by (auto simp: synack_l4_def)
  have p8: "ld8 p1 i = ld8 p i" if "i < th + 20" for i by (rule write_opts_ld8[OF assms(5) w that])
  note f = synack_tcp_fields[of th p1 "5 + m" ck]
  have "ld32 q (th + 4) = ld32 (synack_tcp th (5 + m) ck p1) (th + 4)"
    "ld32 q (th + 8) = ld32 (synack_tcp th (5 + m) ck p1) (th + 8)"
    using th by (intro ld32_cong; simp add: q8 l4_def other_simps)+
  moreover have "ld8 q (th + 13) = ld8 (synack_tcp th (5 + m) ck p1) (th + 13)"
    using th by (simp add: q8 l4_def other_simps)
  moreover have "ld32 p1 (th + 4) = ld32 p (th + 4)" by (intro ld32_cong p8) simp
  moreover have "ld16 q i = ld16 (swap_ports th (synack_tcp th (5 + m) ck p1)) i" if "i \<in> {th, th + 2}" for i
    using th that by (intro ld16_cong) (auto simp: q8 l4_def synack_l4_def ld8_swap_macs)
  moreover have "l4_dest (synack_tcp th (5 + m) ck p1) th = l4_dest p th"
    "l4_source (synack_tcp th (5 + m) ck p1) th = l4_source p th"
    unfolding l4_dest_def l4_source_def by (intro ld16_cong; simp add: other_simps p8)+
  moreover have "take 12 q = take 12 (swap_macs p)"
  proof -
    define X where "X = swap_ports th (synack_tcp th (5 + m) ck p1)"
    have "take 12 q = take 12 (swap_macs X)"
      using lq len by (intro take_eq_ld8) (simp_all add: q8 l4_def synack_l4_def X_def)
    moreover have "take 12 X = take 12 p"
      using len th by (intro take_eq_ld8) (simp_all add: X_def other_simps p8)
    ultimately show ?thesis
      using th assms(5) len by (simp only: take_swap_macs) (simp add: take_swap_macs X_def)
  qed
  ultimately show ?thesis
    using f th assms(5) len swap_ports_fields[of th "synack_tcp th (5 + m) ck p1"]
    by (simp add: tcp_flags_byte_def tcp_seq_def l4_source_def l4_dest_def p8 swap_macs_def)
qed

theorem synack_answers_syn_witness:
  "\<exists>q. tcp_syncookies_make_synack sc_env sc_ctx 34 0xCAFE 1460 no_opts syn4 = (0, q) \<and>
     bpf_ntohl (ld32 q 38) = 0xCAFE \<and> bpf_ntohl (ld32 q 42) = 2 \<and> tcp_flags_byte q 34 = 0x12"
proof -
  have "fst (tcp_syncookies_make_synack sc_env sc_ctx 34 0xCAFE 1460 no_opts syn4) = 0"
    by (rule make_synack_ok[OF sc_env_laws(1)]) (simp_all add: sc_ctx_def)
  then obtain q where q: "tcp_syncookies_make_synack sc_env sc_ctx 34 0xCAFE 1460 no_opts syn4 = (0, q)"
    by (metis prod.collapse)
  have f: "tcp_flags_byte syn4 34 = 2" "bpf_ntohl (tcp_seq syn4 34) = 1" by code_simp+
  show ?thesis
    using synack_answers_syn[OF q] q f by (simp add: sc_ctx_def)
qed


section \<open>The SYN filter\<close>

lemma syncookie_reply_packet:
  assumes "syncookie_reply E c th sm s = (v, s')"
  shows "v \<in> {XFW_CTX_DROP, XDP_TX}"
    "v = XDP_TX \<Longrightarrow> 0 \<le> sm \<and> (\<exists>opts. tcp_parse_opts E (pkt s) th no_opts = (0, opts) \<and>
       tcp_syncookies_make_synack E c th (word_of_int sm) (word_of_int (sm div 2 ^ 32)) opts (pkt s) = (0, pkt s'))"
proof -
  obtain r opts where o1: "tcp_parse_opts E (pkt s) th no_opts = (r, opts)" by fastforce
  obtain r' p where o2: "tcp_syncookies_make_synack E c th (word_of_int sm) (word_of_int (sm div 2 ^ 32)) opts (pkt s) = (r', p)"
    by fastforce
  have d: "fst (syncookie_failed E c z) = XFW_CTX_DROP" for z
    by (simp add: syncookie_failed_def XFW_MAKE_CTX_DROP_def)
  have v: "v = (if sm < 0 \<or> r \<noteq> 0 \<or> r' \<noteq> 0 then XFW_CTX_DROP else XDP_TX)"
    using assms d[of s] d[of "s\<lparr>pkt := p\<rparr>"] o2 unfolding syncookie_reply_def Let_def o1 case_prod_conv
    by (auto simp: MAKE_XDP_TX_def split: if_splits)
  then show "v \<in> {XFW_CTX_DROP, XDP_TX}" by simp
  assume "v = XDP_TX"
  then have ok: "\<not> sm < 0" "r = 0" "r' = 0" using v by (auto split: if_splits)
  moreover have "pkt s' = p"
    using assms ok o2 unfolding syncookie_reply_def Let_def o1 case_prod_conv
    by (auto simp: MAKE_XDP_TX_def)
  ultimately show "0 \<le> sm \<and> (\<exists>opts. tcp_parse_opts E (pkt s) th no_opts = (0, opts) \<and>
       tcp_syncookies_make_synack E c th (word_of_int sm) (word_of_int (sm div 2 ^ 32)) opts (pkt s) = (0, pkt s'))"
    using o1 o2 by auto
qed

text \<open>A SYN-ACK was made from \<open>p\<close>, giving \<open>q\<close>, with a cookie of the kernel.\<close>

definition cookie_sent :: "env \<Rightarrow> XfwGlobalCtx \<Rightarrow> nat \<Rightarrow> packet \<Rightarrow> packet \<Rightarrow> bool" where
  "cookie_sent E c th p q \<longleftrightarrow> (\<exists>p5 sm opts. p5 = set_doff p th 5 \<and>
     tcp_sk_listen_lookup E c th p5 \<noteq> None \<and> 0 \<le> sm \<and>
     sm = tcp_gen_syncookie E (take (if ipver c = bpf_htons ETH_P_IP then 20 else 40) (drop (unat (ip_off c)) p5))
            (take 20 (drop th p5)) \<and>
     tcp_parse_opts E p th no_opts = (0, opts) \<and>
     tcp_syncookies_make_synack E c th (word_of_int sm) (word_of_int (sm div 2 ^ 32)) opts p = (0, q))"

lemma syncookie_try_packet:
  assumes "th + 20 \<le> length (pkt s)" "syncookie_try E c th ts s = (v, s')"
  shows "(v \<noteq> XFW_CTX_DROP \<and> v \<noteq> XDP_TX \<longrightarrow> pkt s' = pkt s) \<and>
    (v = XDP_TX \<longrightarrow> cookie_sent E c th (pkt s) (pkt s'))"
proof -
  define p5 where "p5 = set_doff (pkt s) th 5"
  define n where "n = (if ipver c = bpf_htons ETH_P_IP then 20 else 40 :: nat)"
  define sm where "sm = tcp_gen_syncookie E (take n (drop (unat (ip_off c)) p5)) (take 20 (drop th p5))"
  define s1 where "s1 = s\<lparr>syncookies := Some (ts\<lparr>last_gen_jiff := ts_jiff c\<rparr>)\<rparr>"
  have restore: "set_doff p5 th (tcp_doff (pkt s) th) = pkt s"
    using assms(1) by (simp add: p5_def set_doff_restore)
  have upd: "s\<lparr>pkt := pkt s\<rparr> = s" "s\<lparr>syncookies := x, pkt := pkt s\<rparr> = s\<lparr>syncookies := x\<rparr>" for x
    by (cases s; simp)+
  have try_eq: "syncookie_try E c th ts s = XFW_ASSERT (unat (ip_off c) + n \<le> cur_end (hdr_cur c)) c s (\<lambda>_.
      case tcp_sk_listen_lookup E c th p5 of
        None \<Rightarrow> syncookie_failed E c (s1\<lparr>pkt := p5\<rparr>)
      | Some _ \<Rightarrow> if sm = - ENOENT then (XFW_CTX_CONTINUE, s) else syncookie_reply E c th sm s1)"
    unfolding syncookie_try_def Let_def p5_def[symmetric] n_def[symmetric] sm_def[symmetric] restore s1_def
    by (simp only: upd)
  consider (pass) "\<not> unat (ip_off c) + n \<le> cur_end (hdr_cur c)"
    | (none) "unat (ip_off c) + n \<le> cur_end (hdr_cur c)" "tcp_sk_listen_lookup E c th p5 = None"
    | (sock) "unat (ip_off c) + n \<le> cur_end (hdr_cur c)" "tcp_sk_listen_lookup E c th p5 \<noteq> None" by blast
  then show ?thesis
  proof cases
    case sock
    then obtain k where k: "tcp_sk_listen_lookup E c th p5 = Some k" by blast
    show ?thesis
    proof (cases "sm = - ENOENT")
      case False
      then have "syncookie_reply E c th sm s1 = (v, s')" using assms(2) sock k by (simp add: try_eq XFW_ASSERT_def)
      from syncookie_reply_packet[OF this] show ?thesis
        using k unfolding cookie_sent_def p5_def[symmetric] n_def[symmetric] sm_def[symmetric]
        by (auto simp: s1_def sm_def)
    qed (use assms(2) sock k in \<open>auto simp: try_eq XFW_ASSERT_def\<close>)
  qed (use assms(2) in \<open>auto simp: try_eq XFW_ASSERT_def XFW_MAKE_CTX_PASS_def syncookie_failed_def XFW_MAKE_CTX_DROP_def\<close>)
qed

lemma syn_filter_packet:
  assumes "th + 20 \<le> length (pkt s)" "tcp_syncookies_syn_filter E c th s = (v, s')"
  shows "(v \<noteq> XFW_CTX_DROP \<and> v \<noteq> XDP_TX \<longrightarrow> pkt s' = pkt s) \<and>
    (v = XDP_TX \<longrightarrow> cookie_sent E c th (pkt s) (pkt s'))"
proof (cases "syncookies s")
  case None
  then show ?thesis using assms(2) by (auto simp: tcp_syncookies_syn_filter_def XFW_MAKE_CTX_PASS_def)
next
  case (Some ts)
  then consider (off) "v = XFW_CTX_CONTINUE" "pkt s' = pkt s"
    | (on) x y where "syncookie_try E c th x (s\<lparr>syncookies := y\<rparr>) = (v, s')"
    using assms(2) by (auto simp: tcp_syncookies_syn_filter_def Let_def split: prod.splits if_splits)
  then show ?thesis
  proof cases
    case on
    then show ?thesis using syncookie_try_packet[OF _ on] assms(1) by simp
  qed simp
qed

text \<open>
  C29. The SYN filter either leaves the packet exactly as it was (and lets it continue to
  the next filter, or passes it after a failed assertion), or drops it, or sends it back:
  then the kernel had a socket for it, gave a non-negative cookie for its headers with the
  options hidden, the options parsed, and the packet is the SYN-ACK built from the packet
  as received.
\<close>

theorem syn_filter_outcomes:
  assumes "th + 20 \<le> length (pkt s)" "tcp_syncookies_syn_filter E c th s = (v, s')"
  shows "(v \<noteq> XFW_CTX_DROP \<and> v \<noteq> XDP_TX \<longrightarrow> pkt s' = pkt s) \<and>
    (v = XDP_TX \<longrightarrow> cookie_sent E c th (pkt s) (pkt s'))"
  using assms by (rule syn_filter_packet)

text \<open>A SYN for which the cookie is sent.\<close>

definition sc_state :: state where
  "sc_state = ref_state ref_cfg syn4"

theorem syn_filter_outcomes_witness:
  "\<exists>s'. tcp_syncookies_syn_filter sc_env sc_ctx 34 sc_state = (XDP_TX, s') \<and> cookie_sent sc_env sc_ctx 34 syn4 (pkt s')"
proof -
  have "fst (tcp_parse_opts sc_env syn4 34 no_opts) = 0" by code_simp
  then obtain opts where o: "tcp_parse_opts sc_env syn4 34 no_opts = (0, opts)" by (metis prod.collapse)
  have m: "fst (tcp_syncookies_make_synack sc_env sc_ctx 34 ck mss opts syn4) = 0" for ck mss
    by (rule make_synack_ok[OF sc_env_laws(1)]) (simp_all add: sc_ctx_def)
  have p: "set_doff (set_doff syn4 34 5) 34 (tcp_doff syn4 34) = syn4" by (rule set_doff_restore) simp
  have c: "ts_jiff sc_ctx = 1000" "cur_end (hdr_cur sc_ctx) = 74" "ip_off sc_ctx = 14" "ipver sc_ctx = bpf_htons ETH_P_IP"
    "cfg sc_ctx = ref_cfg" "syncookies sc_state = Some \<lparr>last_try_jiff = 0, last_gen_jiff = 0\<rparr>" "pkt sc_state = syn4"
    "\<And>t. sk_lookup_tcp sc_env t = Some BPF_TCP_LISTEN" "\<And>i t. tcp_gen_syncookie sc_env i t = 1460 * 2 ^ 32 + 0xCAFE"
    by (simp_all add: sc_ctx_def ref_ctx_def sc_state_def ref_state_def sc_env_def)
  have "fst (tcp_syncookies_syn_filter sc_env sc_ctx 34 sc_state) = XDP_TX"
    using m by (simp add: tcp_syncookies_syn_filter_def tcp_syncookies_flood_mode_def tcp_syncookies_passive_mode_def
        syncookie_try_def Let_def XFW_ASSERT_def tcp_sk_listen_lookup_def syncookie_reply_def MAKE_XDP_TX_def
        case_prod_beta c p o ref_cfg_def ref_rules_def)
  then obtain s' where s': "tcp_syncookies_syn_filter sc_env sc_ctx 34 sc_state = (XDP_TX, s')"
    by (metis prod.collapse)
  then show ?thesis
    using syn_filter_outcomes[OF _ s'] by (simp add: sc_state_def ref_state_def)
qed

text \<open>
  C36. A SYN a cookie is tried for and for which the kernel has no socket is dropped with
  the data offset still set to 5, the value written for the kernel helper only. Evaluation
  mode turns the drop into a pass, and the options of the passed SYN have become payload.
\<close>

theorem syn_without_socket_keeps_doff_5:
  assumes "syncookies s = Some ts"
    "fst (tcp_syncookies_flood_mode c ts) \<or> fst (tcp_syncookies_passive_mode c ts)"
    "unat (ip_off c) + (if ipver c = bpf_htons ETH_P_IP then 20 else 40) \<le> cur_end (hdr_cur c)"
    "th + 20 \<le> length (pkt s)" "\<And>t. sk_lookup_tcp E t = None"
  shows "fst (tcp_syncookies_syn_filter E c th s) = XFW_CTX_DROP \<and>
    tcp_doff (pkt (snd (tcp_syncookies_syn_filter E c th s))) th = 5"
proof -
  have lookup: "tcp_sk_listen_lookup E c th p = None" for p
    using assms(5) by (simp add: tcp_sk_listen_lookup_def Let_def)
  have off: "tcp_syncookies_flood_mode c ts = (False, x) \<Longrightarrow> x = ts" for x
    by (simp add: tcp_syncookies_flood_mode_def split: if_splits)
  have t: "fst (syncookie_try E c th x z) = XFW_CTX_DROP \<and> tcp_doff (pkt (snd (syncookie_try E c th x z))) th = 5"
    if "pkt z = pkt s" for x z
    using assms(3,4) that tcp_doff_set_doff[of th "pkt s" 5]
    by (simp add: syncookie_try_def Let_def XFW_ASSERT_def lookup syncookie_failed_def XFW_MAKE_CTX_DROP_def frame_simps)
  show ?thesis
    using assms(1,2) t[of "s\<lparr>syncookies := _\<rparr>"]
    by (auto simp: tcp_syncookies_syn_filter_def Let_def split: prod.split dest: off)
qed

theorem syn_without_socket_keeps_doff_5_witness:
  "tcp_doff syn4 34 = 10 \<and> tcp_doff (pkt (snd (tcp_syncookies_syn_filter ref_env sc_ctx 34 sc_state))) 34 = 5"
proof -
  have "tcp_doff syn4 34 = 10" by code_simp
  then show ?thesis
    using syn_without_socket_keeps_doff_5[of sc_state "\<lparr>last_try_jiff = 0, last_gen_jiff = 0\<rparr>" sc_ctx 34 ref_env]
    by (simp add: sc_state_def ref_state_def sc_ctx_def ref_ctx_def ref_cfg_def ref_rules_def ref_env_def
        tcp_syncookies_passive_mode_def)
qed

end
