(* ===== verification/Dns.thy ===== *)
theory Dns
  imports PacketFilter Parsing
begin

text \<open>
  The DNS filter of \<open>bpf/dns.h\<close>: the ingress filter validates queries and lets in only
  responses to queries whose id was seen on the way out; the egress part records the ids.
  The position in the packet is handed to the name parser through the metadata area.
  Shown: the name parser is the RFC 1035 label walk and its iteration bound is never the
  limit, exactly which responses are let in, and which packets the filter never sees.
\<close>

definition DNS_PORT :: u16 where "DNS_PORT = 53"
definition OPCODE_QUERY :: u16 where "OPCODE_QUERY = 0"
definition RCODE_OK :: u16 where "RCODE_OK = 0"
definition QTYPE_IXFR :: u16 where "QTYPE_IXFR = 251"
definition DNS_NAME_COMPRESSION_LABEL :: u8 where "DNS_NAME_COMPRESSION_LABEL = 0xC0"
definition MAX_DNS_NAME :: nat where "MAX_DNS_NAME = 255"
definition MAX_ANCOUNT :: u16 where "MAX_ANCOUNT = 100"
definition L3_L4_IPV4_UDP_HDRS_MAXLEN :: nat where "L3_L4_IPV4_UDP_HDRS_MAXLEN = 68"
definition MAX_DNS_UDP_PACKET :: nat where "MAX_DNS_UDP_PACKET = 4096"
definition MAX_DNS_TTL :: u32 where "MAX_DNS_TTL = 604800"

text \<open>\<open>struct XfwDnsHdr\<close> (12 bytes) and the records, at offset \<open>i\<close>.\<close>

definition dns_id :: "packet \<Rightarrow> nat \<Rightarrow> u16" where "dns_id p i = ld16 p i"
definition dns_flags :: "packet \<Rightarrow> nat \<Rightarrow> u16" where "dns_flags p i = ld16 p (i + 2)"
definition dns_qdcount :: "packet \<Rightarrow> nat \<Rightarrow> u16" where "dns_qdcount p i = ld16 p (i + 4)"
definition dns_ancount :: "packet \<Rightarrow> nat \<Rightarrow> u16" where "dns_ancount p i = ld16 p (i + 6)"
definition dns_nscount :: "packet \<Rightarrow> nat \<Rightarrow> u16" where "dns_nscount p i = ld16 p (i + 8)"
definition dns_arcount :: "packet \<Rightarrow> nat \<Rightarrow> u16" where "dns_arcount p i = ld16 p (i + 10)"
definition dq_qtype :: "packet \<Rightarrow> nat \<Rightarrow> u16" where "dq_qtype p i = ld16 p i"
definition rr_ttl :: "packet \<Rightarrow> nat \<Rightarrow> u32" where "rr_ttl p i = ld32 p (i + 4)"
definition rr_rdata_len :: "packet \<Rightarrow> nat \<Rightarrow> u16" where "rr_rdata_len p i = ld16 p (i + 8)"

record XfwDnsCtx =
  dc_hdr_cur :: XfwHdrCursor
  dc_ilog_addr :: XfwIp
  dc_pkt_sz :: u32

text \<open>\<open>XFW_MAKE_CTX_DROP\<close> on a DNS context.\<close>

definition DNS_DROP :: "env \<Rightarrow> XfwDnsCtx \<Rightarrow> XfwDropStat \<Rightarrow> state \<Rightarrow> verdict \<times> state" where
  "DNS_DROP E d reason s = (XFW_CTX_DROP, register_incident E (dc_ilog_addr d) (dc_pkt_sz d) reason s)"

definition dns_get_qr :: "u16 \<Rightarrow> u16" where
  "dns_get_qr hflags = drop_bit 15 hflags AND 1"

text \<open>\<open>SIMPLE_PARSE_FUNC_DECL\<close>: a structure of a fixed size; its offset and the cursor after it.\<close>

definition parse_struct :: "nat \<Rightarrow> XfwHdrCursor \<Rightarrow> (nat \<times> XfwHdrCursor) option" where
  "parse_struct sz cur = map_option (\<lambda>cur'. (pos cur, cur')) (CUR_ADVANCE cur sz)"

definition parse_dnshdr :: "XfwHdrCursor \<Rightarrow> (nat \<times> XfwHdrCursor) option" where "parse_dnshdr = parse_struct 12"
definition parse_dns_question_record :: "XfwHdrCursor \<Rightarrow> (nat \<times> XfwHdrCursor) option" where
  "parse_dns_question_record = parse_struct 4"
definition parse_dns_rr :: "XfwHdrCursor \<Rightarrow> (nat \<times> XfwHdrCursor) option" where "parse_dns_rr = parse_struct 10"


section \<open>Names\<close>

datatype label_result = DNS_LABEL_CONTINUE | DNS_LABEL_FOUND | DNS_LABEL_NOTFOUND

definition process_label :: "packet \<Rightarrow> XfwHdrCursor \<Rightarrow> nat \<Rightarrow> label_result \<times> nat" where
  "process_label p c offset =
     (if MAX_DNS_NAME < offset then (DNS_LABEL_NOTFOUND, offset)
      else let ps = pos c + offset in
      if cur_end c < ps + 1 then (DNS_LABEL_NOTFOUND, offset)
      else let x = ld8 p ps in
      if x AND DNS_NAME_COMPRESSION_LABEL = DNS_NAME_COMPRESSION_LABEL then (DNS_LABEL_FOUND, offset + 2)
      else if 63 < x \<or> cur_end c < ps + unat x + 1 then (DNS_LABEL_NOTFOUND, offset)
      else (if x = 0 then DNS_LABEL_FOUND else DNS_LABEL_CONTINUE, offset + unat x + 1))"

text \<open>The loop with the iterations left: the offset behind the name, if there is one.\<close>

primrec process_labels :: "nat \<Rightarrow> packet \<Rightarrow> XfwHdrCursor \<Rightarrow> nat \<Rightarrow> nat option" where
  "process_labels 0 p c offset = None"
| "process_labels (Suc n) p c offset =
     (let (r, offset) = process_label p c offset in
      case r of
        DNS_LABEL_FOUND \<Rightarrow> Some offset
      | DNS_LABEL_NOTFOUND \<Rightarrow> None
      | DNS_LABEL_CONTINUE \<Rightarrow> process_labels n p c offset)"

text \<open>The result is whether the call succeeded (returned 0).\<close>

definition process_dname_global :: "state \<Rightarrow> bool \<times> state" where
  "process_dname_global s =
     (let cur = INIT_CURSOR_FROM_BPF_CONTEXT s in
      case meta s of
        None \<Rightarrow> (False, s)
      | Some md \<Rightarrow>
          if MAX_DNS_UDP_PACKET < unat (md_cur_pos md) then (False, s)
          else case process_labels MAX_DNS_NAME (pkt s) (cur\<lparr>pos := pos cur + unat (md_cur_pos md)\<rparr>) 0 of
            None \<Rightarrow> (False, s)
          | Some offset \<Rightarrow> (True, s\<lparr>meta := Some (md\<lparr>md_cur_pos := md_cur_pos md + word_of_nat offset\<rparr>)\<rparr>))"

definition process_dname :: "XfwHdrCursor \<Rightarrow> state \<Rightarrow> XfwHdrCursor option \<times> state" where
  "process_dname cur s =
     (case meta s of
        None \<Rightarrow> (None, s)
      | Some md \<Rightarrow>
          (let (ok, s) = process_dname_global (s\<lparr>meta := Some (md\<lparr>md_cur_pos := word_of_nat (pos cur)\<rparr>)\<rparr>) in
           if \<not> ok then (None, s)
           else case meta s of
             None \<Rightarrow> (None, s)
           | Some md \<Rightarrow>
               if MAX_DNS_UDP_PACKET < unat (md_cur_pos md) then (None, s)
               else let cur = cur\<lparr>pos := unat (md_cur_pos md)\<rparr> in
               if cur_end cur \<le> pos cur then (None, s) else (Some cur, s)))"

definition parse_single_dns_question :: "XfwHdrCursor \<Rightarrow> state \<Rightarrow> (nat \<times> XfwHdrCursor) option \<times> state" where
  "parse_single_dns_question cur s =
     (let (r, s) = process_dname cur s in
      case r of None \<Rightarrow> (None, s) | Some cur \<Rightarrow> (parse_dns_question_record cur, s))"

definition parse_full_dns_rr :: "XfwHdrCursor \<Rightarrow> state \<Rightarrow> (nat \<times> XfwHdrCursor) option \<times> state" where
  "parse_full_dns_rr cur s =
     (let (r, s) = process_dname cur s in
      case r of None \<Rightarrow> (None, s)
      | Some cur \<Rightarrow>
          (case parse_dns_rr cur of None \<Rightarrow> (None, s)
           | Some (dr, cur) \<Rightarrow>
               (let rdata_len = unat (bpf_ntohs (rr_rdata_len (pkt s) dr)) in
                if MAX_DNS_UDP_PACKET < rdata_len then (None, s)
                else case CUR_ADVANCE cur rdata_len of None \<Rightarrow> (None, s)
                | Some cur \<Rightarrow> (Some (dr, cur), s))))"


section \<open>The filters\<close>

definition process_ingress_dns_query :: "env \<Rightarrow> XfwDnsCtx \<Rightarrow> nat \<Rightarrow> state \<Rightarrow> verdict \<times> state" where
  "process_ingress_dns_query E d dh s =
     (let p = pkt s; hflags = bpf_ntohs (dns_flags p dh); opcode = drop_bit 11 hflags AND 0xF; rcode = hflags AND 0xF in
      if opcode \<noteq> OPCODE_QUERY then (XFW_CTX_CONTINUE, s)
      else if rcode \<noteq> RCODE_OK then DNS_DROP E d XFW_DROP_DNS_QRY_RCODE_NOT_OK s
      else if dns_qdcount p dh = 0 \<and> dns_ancount p dh = 0 \<and> dns_nscount p dh = 0 \<and> bpf_ntohs (dns_arcount p dh) = 1
      then (XFW_CTX_CONTINUE, s)
      else if dns_qdcount p dh \<noteq> bpf_htons 1 then DNS_DROP E d XFW_DROP_DNS_MULTIPLE_QUESTIONS s
      else let (dq, s) = parse_single_dns_question (dc_hdr_cur d) s in
      case dq of
        None \<Rightarrow> DNS_DROP E d XFW_DROP_DNS_BAD_QUESTION s
      | Some (dq, _) \<Rightarrow>
          if dns_nscount p dh \<noteq> 0 then DNS_DROP E d XFW_DROP_DNS_ANS_OR_AUTHS_IN_QUERY s
          else if dq_qtype p dq = bpf_ntohs QTYPE_IXFR then (XFW_CTX_CONTINUE, s)
          else if dns_ancount p dh \<noteq> 0 then DNS_DROP E d XFW_DROP_DNS_ANS_OR_AUTHS_IN_QUERY s
          else if 2 < bpf_ntohs (dns_arcount p dh) then DNS_DROP E d XFW_DROP_DNS_QRY_BAD_ARCOUNT s
          else (XFW_CTX_CONTINUE, s))"

text \<open>The loop over the answers, with the number left.\<close>

primrec process_answers :: "nat \<Rightarrow> env \<Rightarrow> XfwDnsCtx \<Rightarrow> state \<Rightarrow> verdict \<times> state" where
  "process_answers 0 E d s = (XFW_CTX_CONTINUE, s)"
| "process_answers (Suc n) E d s =
     (let (dr, s) = parse_full_dns_rr (dc_hdr_cur d) s in
      case dr of
        None \<Rightarrow> DNS_DROP E d XFW_DROP_DNS_BAD_RR s
      | Some (dr, cur) \<Rightarrow>
          if rr_ttl (pkt s) dr = 0 \<or> MAX_DNS_TTL < bpf_ntohl (rr_ttl (pkt s) dr)
          then DNS_DROP E d XFW_DROP_DNS_ANSWER_ANOMALY s
          else process_answers n E (d\<lparr>dc_hdr_cur := cur\<rparr>) s)"

definition process_ingress_dns_response :: "env \<Rightarrow> XfwDnsCtx \<Rightarrow> nat \<Rightarrow> state \<Rightarrow> verdict \<times> state" where
  "process_ingress_dns_response E d dh s =
     (let p = pkt s in
      if dns_egr s (dns_id p dh) = None then DNS_DROP E d XFW_DROP_DNS_NOT_ASKED_RESPONSE s
      else if MAX_DNS_UDP_PACKET < unat (dc_pkt_sz d) then DNS_DROP E d XFW_DROP_DNS_LARGE_RESPONSE s
      else if dns_qdcount p dh \<noteq> bpf_htons 1 then DNS_DROP E d XFW_DROP_DNS_MULTIPLE_QUESTIONS s
      else let (dq, s) = parse_single_dns_question (dc_hdr_cur d) s in
      case dq of
        None \<Rightarrow> DNS_DROP E d XFW_DROP_DNS_BAD_QUESTION s
      | Some (_, cur) \<Rightarrow>
          (let an_count = bpf_ntohs (dns_ancount p dh) in
           if MAX_ANCOUNT < an_count then DNS_DROP E d XFW_DROP_DNS_RESP_ANS_OVERLIMIT s
           else process_answers (unat an_count) E (d\<lparr>dc_hdr_cur := cur\<rparr>) s))"

definition init_dns_ctx :: "state \<Rightarrow> XfwDnsCtx option" where
  "init_dns_ctx s =
     (let cur = INIT_CURSOR_FROM_BPF_CONTEXT s; p = pkt s in
      case meta s of
        None \<Rightarrow> None
      | Some md \<Rightarrow>
          if L3_OFF_MAX + L3_L4_IPV4_UDP_HDRS_MAXLEN < unat (md_cur_pos md) then None
          else if L3_OFF_MAX < unat (md_ip_off md) then None
          else let cur = cur\<lparr>pos := pos cur + unat (md_cur_pos md)\<rparr>; ip_hdr = unat (md_ip_off md) in
          if cur_end cur < ip_hdr + (if md_is_ipv4 md \<noteq> 0 then 20 else 40) then None
          else Some \<lparr>dc_hdr_cur = cur,
                 dc_ilog_addr = (if md_is_ipv4 md \<noteq> 0 then xfw_ipv4_to_ipv6_mapped (ip_saddr p ip_hdr) else ip6_saddr p ip_hdr),
                 dc_pkt_sz = word_of_nat (length p)\<rparr>)"

definition ingress_dns_filter_global :: "env \<Rightarrow> state \<Rightarrow> verdict \<times> state" where
  "ingress_dns_filter_global E s =
     (if g_stats s = None then (XFW_CTX_CONTINUE, s)
      else case init_dns_ctx s of
        None \<Rightarrow> (XFW_CTX_CONTINUE, s)
      | Some d \<Rightarrow>
          (case parse_dnshdr (dc_hdr_cur d) of
             None \<Rightarrow> DNS_DROP E d XFW_DROP_DNS_BADHDR_INGRESS s
           | Some (dh, cur) \<Rightarrow>
               (let d = d\<lparr>dc_hdr_cur := cur\<rparr>; qr = dns_get_qr (bpf_ntohs (dns_flags (pkt s) dh)) in
                if qr = 0 then process_ingress_dns_query E d dh s
                else process_ingress_dns_response E d dh s)))"

definition ingress_dns_filter :: "env \<Rightarrow> XfwGlobalCtx \<Rightarrow> nat \<Rightarrow> state \<Rightarrow> verdict \<times> state" where
  "ingress_dns_filter E c uh s =
     (let p = pkt s in
      if \<not> dns_enabled (rules (cfg c)) then (XFW_CTX_CONTINUE, s)
      else if l4_dest p uh \<noteq> bpf_htons DNS_PORT \<and> l4_source p uh \<noteq> bpf_htons DNS_PORT then (XFW_CTX_CONTINUE, s)
      else if ipver c \<noteq> bpf_htons ETH_P_IP \<and> ipver c \<noteq> bpf_htons ETH_P_IPV6 then (XFW_CTX_CONTINUE, s)
      else case meta s of
        None \<Rightarrow> (XFW_CTX_CONTINUE, s)
      | Some md \<Rightarrow>
          (let s = s\<lparr>meta := Some (md\<lparr>md_cur_pos := word_of_nat (pos (hdr_cur c)), md_ip_off := ucast (ip_off c),
                       md_is_ipv4 := (if ipver c = bpf_htons ETH_P_IP then 1 else 0)\<rparr>)\<rparr>
           in if g_stats s = None then (XFW_CTX_CONTINUE, s) else ingress_dns_filter_global E s))"

definition egress_dns_filter :: "env \<Rightarrow> XfwGlobalCtx \<Rightarrow> nat \<Rightarrow> state \<Rightarrow> state" where
  "egress_dns_filter E c uh s =
     (let p = pkt s in
      if \<not> dns_enabled (rules (cfg c)) then s
      else if l4_dest p uh \<noteq> bpf_htons DNS_PORT \<and> l4_source p uh \<noteq> bpf_htons DNS_PORT then s
      else case parse_dnshdr (hdr_cur c) of
        None \<Rightarrow> s
      | Some (dh, _) \<Rightarrow>
          if dns_get_qr (bpf_ntohs (dns_flags p dh)) = 0
          then s\<lparr>dns_egr := snd (update_dns_egr E (dns_egr s) (dns_id p dh) 0)\<rparr>
          else s)"


section \<open>Accounting\<close>

lemma accounted_dns_drop [acc_intros]: "accounted E sz s (DNS_DROP E d reason s)"
  by (auto simp: accounted_def DNS_DROP_def)

text \<open>The parsers change the metadata area only.\<close>

lemma dname_global_frame: "\<exists>md. snd (process_dname_global s) = s\<lparr>meta := md\<rparr>"
  by (auto simp: process_dname_global_def Let_def split: option.split intro: exI[of _ "meta s"])

lemma dname_frame: "\<exists>md. snd (process_dname cur s) = s\<lparr>meta := md\<rparr>"
proof (cases "meta s")
  case (Some md)
  obtain md' where "snd (process_dname_global (s\<lparr>meta := Some (md\<lparr>md_cur_pos := word_of_nat (pos cur)\<rparr>)\<rparr>))
      = s\<lparr>meta := md'\<rparr>"
    using dname_global_frame[of "s\<lparr>meta := Some (md\<lparr>md_cur_pos := word_of_nat (pos cur)\<rparr>)\<rparr>"] by auto
  then show ?thesis using Some by (auto simp: process_dname_def Let_def case_prod_beta split: option.split)
qed (auto simp: process_dname_def intro: exI[of _ "meta s"])

lemma question_frame: "\<exists>md. snd (parse_single_dns_question cur s) = s\<lparr>meta := md\<rparr>"
  using dname_frame[of cur s] by (auto simp: parse_single_dns_question_def Let_def case_prod_beta split: option.split)

lemma rr_frame: "\<exists>md. snd (parse_full_dns_rr cur s) = s\<lparr>meta := md\<rparr>"
  using dname_frame[of cur s]
  by (auto simp: parse_full_dns_rr_def Let_def case_prod_beta split: option.split)

lemma silent_question: "silent s (snd (parse_single_dns_question cur s))"
  using question_frame[of cur s] by (auto intro: silent_updates)

lemma silent_rr: "silent s (snd (parse_full_dns_rr cur s))"
  using rr_frame[of cur s] by (auto intro: silent_updates)

lemma accounted_after_question:
  "(\<And>r s1. accounted E sz s1 (f r s1)) \<Longrightarrow> accounted E sz s (let (r, s1) = parse_single_dns_question cur s in f r s1)"
  by (auto simp: case_prod_beta intro: accounted_silent_trans[OF silent_question])

lemma accounted_after_rr:
  "(\<And>r s1. accounted E sz s1 (f r s1)) \<Longrightarrow> accounted E sz s (let (r, s1) = parse_full_dns_rr cur s in f r s1)"
  by (auto simp: case_prod_beta intro: accounted_silent_trans[OF silent_rr])

lemma accounted_prod: "(\<And>a b. accounted E sz s (f a b)) \<Longrightarrow> accounted E sz s (case x of (a, b) \<Rightarrow> f a b)"
  by (cases x) simp

lemma accounted_let: "(\<And>x. accounted E sz s (f x)) \<Longrightarrow> accounted E sz s (let x = y in f x)"
  by simp

lemma accounted_query: "accounted E sz s (process_ingress_dns_query E d dh s)"
  unfolding process_ingress_dns_query_def
  by (rule accounted_let)+ (intro acc_intros accounted_after_question accounted_prod)

lemma accounted_answers: "accounted E sz s (process_answers n E d s)"
proof (induction n arbitrary: d s)
  case (Suc n)
  then show ?case
    unfolding process_answers.simps by (intro acc_intros accounted_after_rr accounted_prod)
qed (simp add: acc_intros)

lemma accounted_response: "accounted E sz s (process_ingress_dns_response E d dh s)"
  unfolding process_ingress_dns_response_def
  by (rule accounted_let) (intro acc_intros accounted_after_question accounted_prod accounted_let accounted_answers)

lemma accounted_global: "accounted E sz s (ingress_dns_filter_global E s)"
  unfolding ingress_dns_filter_global_def
  by (intro acc_intros accounted_prod accounted_let accounted_query accounted_response)

interpretation dns: packet_filter E "pkt_sz c" "ingress_dns_filter E c uh" for E c uh
  unfolding ingress_dns_filter_def Let_def
  by unfold_locales (intro acc_intros accounted_silent_trans[OF _ accounted_global] silent_updates,
      simp add: accounted_continue silent_updates)

lemma silent_egress_dns: "silent s (egress_dns_filter E c uh s)"
  by (auto simp: egress_dns_filter_def Let_def intro: silent_intros split: option.split)


section \<open>Names and answers, as RFC 1035 has them\<close>

text \<open>
  A name that starts \<open>off\<close> bytes behind \<open>b\<close> and ends before offset \<open>n\<close>: labels of 1
  to 63 bytes up to the root label or a compression pointer, each starting at an offset of
  at most 255.
\<close>

inductive dname :: "packet \<Rightarrow> nat \<Rightarrow> nat \<Rightarrow> nat \<Rightarrow> nat \<Rightarrow> bool" for p b e where
  pointer: "off \<le> 255 \<Longrightarrow> b + off < e \<Longrightarrow> ld8 p (b + off) AND 0xC0 = 0xC0 \<Longrightarrow> dname p b e off (off + 2)"
| root: "off \<le> 255 \<Longrightarrow> b + off < e \<Longrightarrow> ld8 p (b + off) = 0 \<Longrightarrow> dname p b e off (off + 1)"
| label: "off \<le> 255 \<Longrightarrow> l = ld8 p (b + off) \<Longrightarrow> 0 < l \<Longrightarrow> l \<le> 63 \<Longrightarrow> b + off + unat l + 1 \<le> e \<Longrightarrow>
    dname p b e (off + unat l + 1) n \<Longrightarrow> dname p b e off n"

lemma dname_bound: "dname p b e off n \<Longrightarrow> off \<le> 255 \<and> n \<le> 257"
  by (induction rule: dname.induct) auto

lemma label_not_pointer:
  assumes "(l :: u8) \<le> 63"
  shows "l AND 0xC0 \<noteq> 0xC0"
proof -
  have "unat l < 64" using assms by (simp add: word_le_nat_alt)
  then have "l = take_bit 6 l" by (simp add: word_unat_eq_iff unat_take_bit)
  also have "\<dots> = l AND 0x3F" by (simp add: take_bit_eq_mask mask_eq_exp_minus_1)
  finally have "l AND 0xC0 = l AND (0x3F AND 0xC0)" by (metis and.assoc)
  then show ?thesis by simp
qed

text \<open>One step of the loop, by the label found.\<close>

lemma process_labels_step:
  fixes p c off
  defines "x \<equiv> ld8 p (pos c + off)"
  shows "process_labels (Suc k) p c off =
    (if 255 < off \<or> cur_end c \<le> pos c + off then None
     else if x AND 0xC0 = 0xC0 then Some (off + 2)
     else if 63 < x \<or> cur_end c < pos c + off + unat x + 1 then None
     else if x = 0 then Some (off + 1) else process_labels k p c (off + unat x + 1))"
  by (simp add: process_label_def MAX_DNS_NAME_def Let_def DNS_NAME_COMPRESSION_LABEL_def x_def less_Suc_eq_le)

declare process_labels.simps(2) [simp del]

lemma process_labels_sound:
  "process_labels k p c off = Some n \<Longrightarrow> dname p (pos c) (cur_end c) off n"
proof (induction k arbitrary: off)
  case (Suc k)
  let ?x = "ld8 p (pos c + off)"
  from Suc.prems have b: "off \<le> 255" "pos c + off < cur_end c"
    by (simp_all add: process_labels_step split: if_splits)
  show ?case
  proof (cases "?x AND 0xC0 = 0xC0")
    case True
    then have "n = off + 2" using Suc.prems b by (simp add: process_labels_step)
    then show ?thesis using dname.pointer[OF b True] by simp
  next
    case False
    then have x: "?x \<le> 63" "pos c + off + unat ?x + 1 \<le> cur_end c"
      using Suc.prems b by (simp_all add: process_labels_step split: if_splits)
    show ?thesis
    proof (cases "?x = 0")
      case True
      then have "n = off + 1" using Suc.prems b False x by (simp add: process_labels_step)
      then show ?thesis using dname.root[OF b True] by simp
    next
      case nz: False
      then have "process_labels k p c (off + unat ?x + 1) = Some n"
        using Suc.prems b False x by (simp add: process_labels_step split: if_splits)
      from Suc.IH[OF this] show ?thesis
        using b x nz by (intro dname.label[OF b(1) refl]) (simp_all add: word_neq_0_conv)
    qed
  qed
qed simp

lemma process_labels_complete:
  "dname p (pos c) (cur_end c) off n \<Longrightarrow> 256 - off < 2 * k \<Longrightarrow> process_labels k p c off = Some n"
proof (induction off n arbitrary: k rule: dname.induct)
  case (pointer off)
  then show ?case by (cases k) (simp_all add: process_labels_step)
next
  case (root off)
  then show ?case by (cases k) (simp_all add: process_labels_step)
next
  case (label off l n)
  obtain k' where k: "k = Suc k'" using label by (cases k) auto
  have l: "l AND 0xC0 \<noteq> 0xC0" "\<not> 63 < l" "l \<noteq> 0" using label_not_pointer label(3,4) by auto
  have "1 \<le> unat l" using label(3) by (simp add: word_less_nat_alt)
  then have "process_labels k' p c (off + unat l + 1) = Some n"
    using label dname_bound[OF label(6)] k by (intro label(7)) auto
  then show ?case using label(1,2,5) l k by (simp add: process_labels_step)
qed

lemma process_labels_dname: "process_labels MAX_DNS_NAME p c 0 = Some n \<longleftrightarrow> dname p (pos c) (cur_end c) 0 n"
  using process_labels_sound process_labels_complete[of p c 0 n MAX_DNS_NAME] by (auto simp: MAX_DNS_NAME_def)

text \<open>
  The cursor and the metadata a packet of at most 4096 bytes is parsed with: 16-bit
  positions then never wrap.
\<close>

definition dns_parsing :: "XfwHdrCursor \<Rightarrow> state \<Rightarrow> bool" where
  "dns_parsing cur s \<longleftrightarrow> meta s \<noteq> None \<and> cur_end cur = length (pkt s) \<and> pos cur \<le> cur_end cur \<and>
     length (pkt s) \<le> MAX_DNS_UDP_PACKET"

lemma dname_pos:
  assumes "dname p b e 0 k" "b \<le> 4096"
  shows "unat (word_of_nat b + word_of_nat k :: u16) = b + k"
  using dname_bound[OF assms(1)] assms(2) by (simp add: unat_add_no_wrap unsigned_of_nat take_bit_nat_eq_self)

lemma dname_global_eq:
  assumes "length (pkt s) = cur_end cur" "pos cur \<le> 4096"
  shows "process_dname_global (s\<lparr>meta := Some (md\<lparr>md_cur_pos := word_of_nat (pos cur)\<rparr>)\<rparr>) =
      (case process_labels MAX_DNS_NAME (pkt s) cur 0 of
         None \<Rightarrow> (False, s\<lparr>meta := Some (md\<lparr>md_cur_pos := word_of_nat (pos cur)\<rparr>)\<rparr>)
       | Some n \<Rightarrow> (True, s\<lparr>meta := Some (md\<lparr>md_cur_pos := word_of_nat (pos cur) + word_of_nat n\<rparr>)\<rparr>))"
proof -
  have c: "\<lparr>pos = pos cur, cur_end = cur_end cur\<rparr> = cur" by (cases cur) simp
  have u: "unat (word_of_nat (pos cur) :: u16) = pos cur"
    using assms(2) by (simp add: unsigned_of_nat take_bit_nat_eq_self)
  show ?thesis
    using assms(2)
    by (simp add: process_dname_global_def INIT_CURSOR_FROM_BPF_CONTEXT_def MAX_DNS_UDP_PACKET_def Let_def
        c u assms(1) not_less split: option.split)
qed

lemma process_dname_eq:
  assumes "dns_parsing cur s"
  shows "\<exists>s'. meta s' \<noteq> None \<and> process_dname cur s =
    (case process_labels MAX_DNS_NAME (pkt s) cur 0 of None \<Rightarrow> None
     | Some k \<Rightarrow> if pos cur + k < cur_end cur then Some (cur\<lparr>pos := pos cur + k\<rparr>) else None, s')"
proof -
  obtain md where md: "meta s = Some md" using assms by (auto simp: dns_parsing_def)
  have e: "length (pkt s) = cur_end cur" "pos cur \<le> 4096" "cur_end cur \<le> 4096"
    using assms by (simp_all add: dns_parsing_def MAX_DNS_UDP_PACKET_def)
  note g = dname_global_eq[OF e(1,2), of md]
  show ?thesis
  proof (cases "process_labels MAX_DNS_NAME (pkt s) cur 0")
    case None
    show ?thesis unfolding process_dname_def md option.case g None by simp
  next
    case (Some k)
    then have "dname (pkt s) (pos cur) (cur_end cur) 0 k" by (simp add: process_labels_dname)
    note n = dname_pos[OF this e(2)]
    show ?thesis unfolding process_dname_def md option.case g Some using e
      by (auto simp: n MAX_DNS_UDP_PACKET_def)
  qed
qed

lemma process_dname_dname:
  assumes "dns_parsing cur s"
  shows "fst (process_dname cur s) = Some cur' \<longleftrightarrow>
    (\<exists>n. dname (pkt s) (pos cur) (cur_end cur) 0 n \<and> pos cur + n < cur_end cur \<and> cur' = cur\<lparr>pos := pos cur + n\<rparr>)"
    and "meta (snd (process_dname cur s)) \<noteq> None"
proof -
  obtain s' where s': "meta s' \<noteq> None" and d: "process_dname cur s =
    (case process_labels MAX_DNS_NAME (pkt s) cur 0 of None \<Rightarrow> None
     | Some k \<Rightarrow> if pos cur + k < cur_end cur then Some (cur\<lparr>pos := pos cur + k\<rparr>) else None, s')"
    using process_dname_eq[OF assms] by blast
  show "meta (snd (process_dname cur s)) \<noteq> None" using s' by (simp add: d)
  show "fst (process_dname cur s) = Some cur' \<longleftrightarrow>
    (\<exists>n. dname (pkt s) (pos cur) (cur_end cur) 0 n \<and> pos cur + n < cur_end cur \<and> cur' = cur\<lparr>pos := pos cur + n\<rparr>)"
    unfolding d process_labels_dname[symmetric]
    by (cases "process_labels MAX_DNS_NAME (pkt s) cur 0") auto
qed

lemma parse_struct_iff:
  "parse_struct k cur = Some (h, cur') \<longleftrightarrow> pos cur + k \<le> cur_end cur \<and> h = pos cur \<and> cur' = cur\<lparr>pos := pos cur + k\<rparr>"
  by (auto simp: parse_struct_def CUR_ADVANCE_def)

lemma bind_name_iff:
  assumes "\<And>y. A = Some y \<longleftrightarrow> (\<exists>n. P n \<and> y = g n)"
  shows "Option.bind A f = Some r \<longleftrightarrow> (\<exists>n. P n \<and> f (g n) = Some r)"
  unfolding bind_eq_Some_conv assms by blast

lemma bind_dname_iff:
  assumes "dns_parsing cur s"
  shows "Option.bind (fst (process_dname cur s)) f = Some r \<longleftrightarrow>
    (\<exists>n. (dname (pkt s) (pos cur) (cur_end cur) 0 n \<and> pos cur + n < cur_end cur) \<and> f (cur\<lparr>pos := pos cur + n\<rparr>) = Some r)"
  by (rule bind_name_iff) (simp add: process_dname_dname(1)[OF assms])

lemma question_iff:
  assumes "dns_parsing cur s"
  shows "fst (parse_single_dns_question cur s) = Some (dq, cur') \<longleftrightarrow>
    (\<exists>n. dname (pkt s) (pos cur) (cur_end cur) 0 n \<and> dq = pos cur + n \<and> dq + 4 \<le> cur_end cur \<and> cur' = cur\<lparr>pos := dq + 4\<rparr>)"
proof -
  have "fst (parse_single_dns_question cur s) = Option.bind (fst (process_dname cur s)) (parse_struct 4)"
    by (simp add: parse_single_dns_question_def parse_dns_question_record_def case_prod_beta split: option.split)
  then show ?thesis
    by (auto simp: bind_dname_iff[OF assms] parse_struct_iff)
qed

definition rr_body :: "packet \<Rightarrow> XfwHdrCursor \<Rightarrow> (nat \<times> XfwHdrCursor) option" where
  "rr_body p cur = Option.bind (parse_struct 10 cur)
      (\<lambda>(dr, cur). if MAX_DNS_UDP_PACKET < unat (bpf_ntohs (rr_rdata_len p dr)) then None
         else map_option (Pair dr) (CUR_ADVANCE cur (unat (bpf_ntohs (rr_rdata_len p dr)))))"

lemma rr_body_iff:
  assumes "cur_end cur \<le> MAX_DNS_UDP_PACKET"
  shows "rr_body p cur = Some (dr, cur') \<longleftrightarrow> dr = pos cur \<and>
    dr + 10 + unat (bpf_ntohs (rr_rdata_len p dr)) \<le> cur_end cur \<and>
    cur' = cur\<lparr>pos := dr + 10 + unat (bpf_ntohs (rr_rdata_len p dr))\<rparr>"
  using assms by (auto simp: rr_body_def parse_struct_def CUR_ADVANCE_def)

lemma rr_iff:
  assumes "dns_parsing cur s"
  shows "fst (parse_full_dns_rr cur s) = Some (dr, cur') \<longleftrightarrow>
    (\<exists>n. dname (pkt s) (pos cur) (cur_end cur) 0 n \<and> dr = pos cur + n \<and>
      dr + 10 + unat (bpf_ntohs (rr_rdata_len (pkt s) dr)) \<le> cur_end cur \<and>
      cur' = cur\<lparr>pos := dr + 10 + unat (bpf_ntohs (rr_rdata_len (pkt s) dr))\<rparr>)"
proof -
  obtain md where md: "snd (process_dname cur s) = s\<lparr>meta := md\<rparr>" using dname_frame by blast
  have b: "fst (parse_full_dns_rr cur s) = Option.bind (fst (process_dname cur s)) (rr_body (pkt s))"
    using md by (auto simp: parse_full_dns_rr_def parse_dns_rr_def rr_body_def Let_def case_prod_beta split: option.split)
  have e: "cur_end (cur\<lparr>pos := k\<rparr>) \<le> MAX_DNS_UDP_PACKET" for k using assms by (simp add: dns_parsing_def)
  show ?thesis
    unfolding b bind_dname_iff[OF assms] rr_body_iff[OF e] by auto
qed

text \<open>A section of \<open>k\<close> resource records at \<open>b\<close>, each with a TTL between 1 second and a week.\<close>

inductive answers :: "packet \<Rightarrow> nat \<Rightarrow> nat \<Rightarrow> nat \<Rightarrow> bool" for p e where
  none: "answers p e 0 b"
| more: "dname p b e 0 n \<Longrightarrow> dr = b + n \<Longrightarrow> next = dr + 10 + unat (bpf_ntohs (rr_rdata_len p dr)) \<Longrightarrow> next \<le> e \<Longrightarrow>
    0 < bpf_ntohl (rr_ttl p dr) \<Longrightarrow> bpf_ntohl (rr_ttl p dr) \<le> 604800 \<Longrightarrow> answers p e k next \<Longrightarrow> answers p e (Suc k) b"

inductive_simps answers_Suc: "answers p e (Suc k) b"

lemma bswap32_0: "bswap32 0 = 0"
  by (simp add: bswap32_def)

lemma dns_parsing_frame:
  assumes "dns_parsing cur s" "cur_end cur' = cur_end cur" "pos cur' \<le> cur_end cur" "meta s' \<noteq> None" "pkt s' = pkt s"
  shows "dns_parsing cur' s'"
  using assms by (simp add: dns_parsing_def)

lemma parse_pkt_meta:
  assumes "dns_parsing cur s"
  shows "pkt (snd (parse_single_dns_question cur s)) = pkt s" "meta (snd (parse_single_dns_question cur s)) \<noteq> None"
    "pkt (snd (parse_full_dns_rr cur s)) = pkt s" "meta (snd (parse_full_dns_rr cur s)) \<noteq> None"
proof -
  show "pkt (snd (parse_single_dns_question cur s)) = pkt s" using question_frame[of cur s] by auto
  show "pkt (snd (parse_full_dns_rr cur s)) = pkt s" using rr_frame[of cur s] by auto
  have "snd (parse_single_dns_question cur s) = snd (process_dname cur s)"
    "snd (parse_full_dns_rr cur s) = snd (process_dname cur s)"
    by (simp_all add: parse_single_dns_question_def parse_full_dns_rr_def case_prod_beta Let_def split: option.split)
  then show "meta (snd (parse_single_dns_question cur s)) \<noteq> None" "meta (snd (parse_full_dns_rr cur s)) \<noteq> None"
    using process_dname_dname(2)[OF assms] by simp_all
qed

lemma dname_unique: "dname p b e 0 m \<Longrightarrow> dname p b e 0 n \<Longrightarrow> m = n"
  using process_labels_dname[of p "\<lparr>pos = b, cur_end = e\<rparr>" m] process_labels_dname[of p "\<lparr>pos = b, cur_end = e\<rparr>" n]
  by simp

lemma rr_bounds:
  assumes "dns_parsing cur s" "fst (parse_full_dns_rr cur s) = Some (dr, cur')"
  shows "cur_end cur' = cur_end cur" "pos cur' \<le> cur_end cur"
  using assms(2) unfolding rr_iff[OF assms(1)] by (elim exE conjE, simp)+

lemma answers_None:
  assumes "dns_parsing cur s" "fst (parse_full_dns_rr cur s) = None"
  shows "\<not> answers (pkt s) (cur_end cur) (Suc k) (pos cur)"
proof
  assume "answers (pkt s) (cur_end cur) (Suc k) (pos cur)"
  then obtain n dr where "dname (pkt s) (pos cur) (cur_end cur) 0 n" "dr = pos cur + n"
    "dr + 10 + unat (bpf_ntohs (rr_rdata_len (pkt s) dr)) \<le> cur_end cur"
    unfolding answers_Suc by blast
  then have "fst (parse_full_dns_rr cur s) = Some (dr, cur\<lparr>pos := dr + 10 + unat (bpf_ntohs (rr_rdata_len (pkt s) dr))\<rparr>)"
    unfolding rr_iff[OF assms(1)] by blast
  then show False using assms(2) by simp
qed

lemma answers_Some:
  assumes "dns_parsing cur s" "fst (parse_full_dns_rr cur s) = Some (dr, cur')"
  shows "answers (pkt s) (cur_end cur) (Suc k) (pos cur) \<longleftrightarrow>
    0 < bpf_ntohl (rr_ttl (pkt s) dr) \<and> bpf_ntohl (rr_ttl (pkt s) dr) \<le> 604800 \<and> answers (pkt s) (cur_end cur) k (pos cur')"
proof -
  obtain n where n: "dname (pkt s) (pos cur) (cur_end cur) 0 n" "dr = pos cur + n"
    "dr + 10 + unat (bpf_ntohs (rr_rdata_len (pkt s) dr)) \<le> cur_end cur"
    "pos cur' = dr + 10 + unat (bpf_ntohs (rr_rdata_len (pkt s) dr))"
    using assms(2) unfolding rr_iff[OF assms(1)] by (elim exE conjE) simp
  have u: "dname (pkt s) (pos cur) (cur_end cur) 0 m \<longleftrightarrow> m = n" for m using dname_unique n(1) by blast
  show ?thesis unfolding answers_Suc u using n(2-) by auto
qed

lemma ttl_zero: "rr_ttl p dr = 0 \<longleftrightarrow> \<not> 0 < bpf_ntohl (rr_ttl p dr)"
  using bswap32_inject[of "rr_ttl p dr" 0] by (simp add: bswap32_0 word_gt_0)

lemma process_answers_iff:
  "dns_parsing (dc_hdr_cur d) s \<Longrightarrow>
     fst (process_answers k E d s) = XFW_CTX_CONTINUE \<longleftrightarrow> answers (pkt s) (cur_end (dc_hdr_cur d)) k (pos (dc_hdr_cur d))"
proof (induction k arbitrary: d s)
  case 0
  then show ?case by (simp add: answers.none)
next
  case (Suc k)
  obtain r s1 where rr: "parse_full_dns_rr (dc_hdr_cur d) s = (r, s1)" by fastforce
  have s1: "pkt s1 = pkt s" "meta s1 \<noteq> None" using parse_pkt_meta(3,4)[OF Suc.prems] rr by simp_all
  show ?case
  proof (cases r)
    case None
    then show ?thesis using rr answers_None[OF Suc.prems] by (simp add: DNS_DROP_def)
  next
    case (Some x)
    obtain dr cur' where x: "x = (dr, cur')" by fastforce
    have r: "fst (parse_full_dns_rr (dc_hdr_cur d) s) = Some (dr, cur')" using rr Some x by simp
    note b = rr_bounds[OF Suc.prems r]
    have p: "dns_parsing (dc_hdr_cur (d\<lparr>dc_hdr_cur := cur'\<rparr>)) s1"
      using dns_parsing_frame[OF Suc.prems] b s1 by simp
    show ?thesis
      unfolding answers_Some[OF Suc.prems r] process_answers.simps rr Some x Let_def prod.case option.case s1(1) ttl_zero MAX_DNS_TTL_def
      using Suc.IH[OF p] b(1) s1(1) by (auto simp: DNS_DROP_def not_less word_gt_0)
  qed
qed


section \<open>The ingress filter as a whole\<close>

text \<open>The filter sees a DNS packet: a UDP port is 53, and the packet can be handed on.\<close>

definition dns_seen :: "XfwGlobalCtx \<Rightarrow> nat \<Rightarrow> state \<Rightarrow> bool" where
  "dns_seen c uh s \<longleftrightarrow> dns_enabled (rules (cfg c)) \<and>
     (l4_dest (pkt s) uh = bpf_htons DNS_PORT \<or> l4_source (pkt s) uh = bpf_htons DNS_PORT) \<and>
     meta s \<noteq> None \<and> g_stats s \<noteq> None \<and> cur_end (hdr_cur c) = length (pkt s) \<and>
     unat (ip_off c) \<le> L3_OFF_MAX \<and> pos (hdr_cur c) \<le> L3_OFF_MAX + L3_L4_IPV4_UDP_HDRS_MAXLEN \<and>
     (ipver c = bpf_htons ETH_P_IP \<and> unat (ip_off c) + 20 \<le> length (pkt s) \<or>
      ipver c = bpf_htons ETH_P_IPV6 \<and> unat (ip_off c) + 40 \<le> length (pkt s))"

lemma dns_seen_runs:
  assumes "dns_seen c uh s"
  shows "\<exists>d s1. ingress_dns_filter E c uh s =
      (case parse_dnshdr (hdr_cur c) of None \<Rightarrow> DNS_DROP E d XFW_DROP_DNS_BADHDR_INGRESS s1
       | Some (dh, cur) \<Rightarrow> if dns_get_qr (bpf_ntohs (dns_flags (pkt s) dh)) = 0
           then process_ingress_dns_query E (d\<lparr>dc_hdr_cur := cur\<rparr>) dh s1
           else process_ingress_dns_response E (d\<lparr>dc_hdr_cur := cur\<rparr>) dh s1) \<and>
      dc_pkt_sz d = word_of_nat (length (pkt s)) \<and> pkt s1 = pkt s \<and> meta s1 \<noteq> None \<and> dns_egr s1 = dns_egr s"
proof -
  obtain md where md: "meta s = Some md" using assms by (auto simp: dns_seen_def)
  define s1 where "s1 = s\<lparr>meta := Some (md\<lparr>md_cur_pos := word_of_nat (pos (hdr_cur c)), md_ip_off := ucast (ip_off c),
      md_is_ipv4 := (if ipver c = bpf_htons ETH_P_IP then 1 else 0)\<rparr>)\<rparr>"
  have ing: "ingress_dns_filter E c uh s = ingress_dns_filter_global E s1"
    using assms unfolding ingress_dns_filter_def dns_seen_def Let_def md s1_def by auto
  have u: "unat (word_of_nat (pos (hdr_cur c)) :: u16) = pos (hdr_cur c)" "unat (ucast (ip_off c) :: u16) = unat (ip_off c)"
    using assms by (simp_all add: dns_seen_def parse_limits L3_L4_IPV4_UDP_HDRS_MAXLEN_def unsigned_of_nat
        take_bit_nat_eq_self unat_ucast_up)
  have cur: "\<lparr>pos = pos (hdr_cur c), cur_end = length (pkt s)\<rparr> = hdr_cur c"
    using assms by (cases "hdr_cur c") (simp add: dns_seen_def)
  obtain d where d: "init_dns_ctx s1 = Some d" "dc_hdr_cur d = hdr_cur c" "dc_pkt_sz d = word_of_nat (length (pkt s))"
    using assms cur u
    by (auto simp: init_dns_ctx_def s1_def INIT_CURSOR_FROM_BPF_CONTEXT_def dns_seen_def Let_def eth_distinct)
  have "ingress_dns_filter E c uh s =
      (case parse_dnshdr (hdr_cur c) of None \<Rightarrow> DNS_DROP E d XFW_DROP_DNS_BADHDR_INGRESS s1
       | Some (dh, cur) \<Rightarrow> if dns_get_qr (bpf_ntohs (dns_flags (pkt s) dh)) = 0
           then process_ingress_dns_query E (d\<lparr>dc_hdr_cur := cur\<rparr>) dh s1
           else process_ingress_dns_response E (d\<lparr>dc_hdr_cur := cur\<rparr>) dh s1)"
    unfolding ing ingress_dns_filter_global_def d(1,2) option.case
    using assms by (auto simp: s1_def dns_seen_def split: option.split)
  then show ?thesis using d(3) by (intro exI[of _ d] exI[of _ s1]) (simp add: s1_def)
qed

lemma response_continue_iff:
  assumes "meta s \<noteq> None" "cur_end (dc_hdr_cur d) = length (pkt s)" "pos (dc_hdr_cur d) \<le> length (pkt s)"
    "dc_pkt_sz d = word_of_nat (length (pkt s))" "length (pkt s) < 2 ^ 32"
  shows "fst (process_ingress_dns_response E d dh s) = XFW_CTX_CONTINUE \<longleftrightarrow>
    dns_egr s (dns_id (pkt s) dh) \<noteq> None \<and> length (pkt s) \<le> MAX_DNS_UDP_PACKET \<and>
    dns_qdcount (pkt s) dh = bpf_htons 1 \<and> bpf_ntohs (dns_ancount (pkt s) dh) \<le> MAX_ANCOUNT \<and>
    (\<exists>n. dname (pkt s) (pos (dc_hdr_cur d)) (length (pkt s)) 0 n \<and> pos (dc_hdr_cur d) + n + 4 \<le> length (pkt s) \<and>
       answers (pkt s) (length (pkt s)) (unat (bpf_ntohs (dns_ancount (pkt s) dh))) (pos (dc_hdr_cur d) + n + 4))"
proof (cases "dns_egr s (dns_id (pkt s) dh) \<noteq> None \<and> length (pkt s) \<le> MAX_DNS_UDP_PACKET \<and> dns_qdcount (pkt s) dh = bpf_htons 1")
  case False
  have "unat (dc_pkt_sz d) = length (pkt s)" using assms(4,5) by (simp add: unsigned_of_nat take_bit_nat_eq_self)
  then show ?thesis
    using False by (auto simp: process_ingress_dns_response_def DNS_DROP_def Let_def)
next
  case True
  have p: "dns_parsing (dc_hdr_cur d) s" using assms True by (simp add: dns_parsing_def)
  obtain r s1 where q: "parse_single_dns_question (dc_hdr_cur d) s = (r, s1)" by fastforce
  have s1: "pkt s1 = pkt s" "meta s1 \<noteq> None" using parse_pkt_meta(1,2)[OF p] q by simp_all
  have "unat (dc_pkt_sz d) = length (pkt s)" using assms(4,5) by (simp add: unsigned_of_nat take_bit_nat_eq_self)
  then have eq: "process_ingress_dns_response E d dh s =
     (case r of None \<Rightarrow> DNS_DROP E d XFW_DROP_DNS_BAD_QUESTION s1
      | Some (_, cur) \<Rightarrow>
          if MAX_ANCOUNT < bpf_ntohs (dns_ancount (pkt s) dh) then DNS_DROP E d XFW_DROP_DNS_RESP_ANS_OVERLIMIT s1
          else process_answers (unat (bpf_ntohs (dns_ancount (pkt s) dh))) E (d\<lparr>dc_hdr_cur := cur\<rparr>) s1)"
    using True q by (auto simp: process_ingress_dns_response_def Let_def split: option.split)
  note iff = question_iff[OF p, unfolded q fst_conv]
  show ?thesis
  proof (cases r)
    case None
    then have "\<not> (\<exists>n. dname (pkt s) (pos (dc_hdr_cur d)) (length (pkt s)) 0 n \<and> pos (dc_hdr_cur d) + n + 4 \<le> length (pkt s))"
      using iff assms(2) by auto
    then show ?thesis using None by (auto simp: eq DNS_DROP_def)
  next
    case (Some x)
    obtain dq cur where x: "x = (dq, cur)" by fastforce
    obtain n where n: "dname (pkt s) (pos (dc_hdr_cur d)) (length (pkt s)) 0 n"
      "pos (dc_hdr_cur d) + n + 4 \<le> length (pkt s)" "cur = (dc_hdr_cur d)\<lparr>pos := pos (dc_hdr_cur d) + n + 4\<rparr>"
      using iff[of dq cur] Some x assms(2) by auto
    have u: "dname (pkt s) (pos (dc_hdr_cur d)) (length (pkt s)) 0 m \<longleftrightarrow> m = n" for m using dname_unique n(1) by blast
    have p': "dns_parsing (dc_hdr_cur (d\<lparr>dc_hdr_cur := cur\<rparr>)) s1"
      using dns_parsing_frame[OF p] n assms(2) s1 by simp
    show ?thesis
      using True n(2,3) assms(2) process_answers_iff[OF p'] unfolding u eq Some x
      by (auto simp: s1 DNS_DROP_def not_less)
  qed
qed


section \<open>Properties\<close>


text \<open>
  C20. Which DNS responses are let in: for a response the filter sees, exactly those whose
  id an outgoing query had, of at most 4096 bytes, with one well-formed question and at
  most 100 answers, each of which is a well-formed record inside the packet with a TTL
  between one second and a week.
\<close>

theorem dns_responses_let_in:
  assumes "dns_seen c uh s" "b = pos (hdr_cur c)" "b + 12 \<le> length (pkt s)" "length (pkt s) < 2 ^ 32"
    "dns_get_qr (bpf_ntohs (dns_flags (pkt s) b)) \<noteq> 0"
  shows "fst (ingress_dns_filter E c uh s) = XFW_CTX_CONTINUE \<longleftrightarrow>
    dns_egr s (dns_id (pkt s) b) \<noteq> None \<and> length (pkt s) \<le> MAX_DNS_UDP_PACKET \<and>
    dns_qdcount (pkt s) b = bpf_htons 1 \<and> bpf_ntohs (dns_ancount (pkt s) b) \<le> MAX_ANCOUNT \<and>
    (\<exists>n. dname (pkt s) (b + 12) (length (pkt s)) 0 n \<and> b + 12 + n + 4 \<le> length (pkt s) \<and>
       answers (pkt s) (length (pkt s)) (unat (bpf_ntohs (dns_ancount (pkt s) b))) (b + 12 + n + 4))"
proof -
  have e: "cur_end (hdr_cur c) = length (pkt s)" using assms(1) by (simp add: dns_seen_def)
  have h: "parse_dnshdr (hdr_cur c) = Some (b, (hdr_cur c)\<lparr>pos := b + 12\<rparr>)"
    using assms(2,3) e by (simp add: parse_dnshdr_def parse_struct_iff)
  obtain d s1 where run: "ingress_dns_filter E c uh s =
      process_ingress_dns_response E (d\<lparr>dc_hdr_cur := (hdr_cur c)\<lparr>pos := b + 12\<rparr>\<rparr>) b s1"
    and d: "dc_pkt_sz d = word_of_nat (length (pkt s))" "pkt s1 = pkt s" "meta s1 \<noteq> None" "dns_egr s1 = dns_egr s"
    using dns_seen_runs[OF assms(1), of E] assms(5) unfolding h option.case prod.case by auto
  show ?thesis
    unfolding run using response_continue_iff[of s1 "d\<lparr>dc_hdr_cur := (hdr_cur c)\<lparr>pos := b + 12\<rparr>\<rparr>" E b] assms(3,4) d e
    by simp
qed

text \<open>An IPv4 DNS response with id 7, question \<open>foo A\<close> and one answer with a TTL of 60.\<close>

definition dns_response_pkt :: packet where
  "dns_response_pkt = [2, 0, 0, 0, 0, 1, 2, 0, 0, 0, 0, 2, 8, 0] @
     [0x45, 0, 0, 65, 0, 1, 0, 0, 64, 17, 0, 0, 8, 8, 8, 8, 10, 0, 0, 1] @ [0, 53, 0x30, 0x39, 0, 45, 0, 0] @
     [0, 7, 0x81, 0x80, 0, 1, 0, 1, 0, 0, 0, 0] @ [3, 102, 111, 111, 0, 0, 1, 0, 1] @
     [0xC0, 12, 0, 1, 0, 1, 0, 0, 0, 60, 0, 4, 1, 2, 3, 4]"

definition dns_ctx :: XfwGlobalCtx where
  "dns_ctx = (ref_ctx 0 79)\<lparr>cfg := ref_cfg\<lparr>rules := ref_rules\<lparr>dns_enabled := True\<rparr>\<rparr>,
     hdr_cur := \<lparr>pos = 42, cur_end = 79\<rparr>, ipver := bpf_htons ETH_P_IP, ip_off := 14\<rparr>"

definition dns_state :: state where
  "dns_state = (ref_state ref_cfg dns_response_pkt)\<lparr>dns_egr := [0x0700 \<mapsto> 0],
     meta := Some \<lparr>md_cur_pos = 0, md_ip_off = 0, md_is_ipv4 = 0\<rparr>\<rparr>"

theorem dns_responses_let_in_witness:
  "fst (ingress_dns_filter ref_env dns_ctx 34 dns_state) = XFW_CTX_CONTINUE \<and>
   fst (ingress_dns_filter ref_env dns_ctx 34 (dns_state\<lparr>dns_egr := Map.empty\<rparr>)) \<noteq> XFW_CTX_CONTINUE"
proof -
  let ?p = dns_response_pkt
  have l: "length ?p = 79" by (simp add: dns_response_pkt_def)
  have f: "l4_source ?p 34 = bpf_htons DNS_PORT" "dns_id ?p 42 = 0x0700" "dns_qdcount ?p 42 = bpf_htons 1"
    "bpf_ntohs (dns_ancount ?p 42) = 1" "dns_get_qr (bpf_ntohs (dns_flags ?p 42)) \<noteq> 0"
    by code_simp+
  have b: "ld8 ?p 54 = 3" "ld8 ?p 58 = 0" "ld8 ?p 63 = 0xC0" by code_simp+
  have n: "dname ?p 54 79 0 5" using dname.label[of 0 3 ?p 54 79 5] dname.root[of 4 54 79 ?p] b by simp
  have n2: "dname ?p 63 79 0 (0 + 2)" by (rule dname.pointer) (simp_all add: b)
  have "answers ?p 79 (Suc 0) 63"
    by (rule answers.more[OF n2 refl refl _ _ _ answers.none]) code_simp+
  moreover have seen: "dns_seen dns_ctx 34 (dns_state\<lparr>dns_egr := m\<rparr>)" for m
    by (simp add: dns_seen_def dns_ctx_def dns_state_def ref_state_def f l parse_limits L3_L4_IPV4_UDP_HDRS_MAXLEN_def)
  ultimately show ?thesis
    using dns_responses_let_in[OF seen, of 42 "dns_egr dns_state" ref_env] dns_responses_let_in[OF seen, of 42 Map.empty ref_env] f l n
    by (auto simp: dns_ctx_def dns_state_def ref_state_def MAX_DNS_UDP_PACKET_def MAX_ANCOUNT_def intro!: exI[of _ 5])
qed



text \<open>
  A query that leaves through the egress program is remembered: if the map takes the
  id, it is there for the response, whatever else the query contains; a packet that is no
  query changes nothing.
\<close>

theorem egress_query_recorded:
  assumes "dns_enabled (rules (cfg c))" "l4_dest (pkt s) uh = bpf_htons DNS_PORT"
    "pos (hdr_cur c) + 12 \<le> cur_end (hdr_cur c)" "update_law (update_dns_egr E)"
    "0 \<le> fst (update_dns_egr E (dns_egr s) (dns_id (pkt s) (pos (hdr_cur c))) 0)"
  shows "if dns_get_qr (bpf_ntohs (dns_flags (pkt s) (pos (hdr_cur c)))) = 0
    then dns_egr (egress_dns_filter E c uh s) (dns_id (pkt s) (pos (hdr_cur c))) \<noteq> None
    else egress_dns_filter E c uh s = s"
proof -
  obtain r m where m: "update_dns_egr E (dns_egr s) (dns_id (pkt s) (pos (hdr_cur c))) 0 = (r, m)" by fastforce
  have h: "parse_dnshdr (hdr_cur c) = Some (pos (hdr_cur c), (hdr_cur c)\<lparr>pos := pos (hdr_cur c) + 12\<rparr>)"
    using assms(3) by (simp add: parse_dnshdr_def parse_struct_iff)
  show ?thesis
    using update_lawD(1)[OF assms(4) m] assms(1,2,5) m by (simp add: egress_dns_filter_def Let_def h)
qed

theorem egress_query_recorded_witness:
  "let c = dns_ctx; s = (ref_state ref_cfg (replicate 36 0 @ [0, 53] @ replicate 4 0 @ [0, 9] @ replicate 30 0)) in
   dns_egr (egress_dns_filter ref_env c 34 s) 0x0900 \<noteq> None"
proof -
  define s where "s = ref_state ref_cfg (replicate 36 0 @ [0, 53] @ replicate 4 0 @ [0, 9] @ replicate 30 0)"
  have f: "l4_dest (pkt s) 34 = bpf_htons DNS_PORT" "dns_id (pkt s) 42 = 0x0900" "dns_get_qr (bpf_ntohs (dns_flags (pkt s) 42)) = 0"
    unfolding s_def by code_simp+
  have c: "dns_enabled (rules (cfg dns_ctx))" "hdr_cur dns_ctx = \<lparr>pos = 42, cur_end = 79\<rparr>" "update_dns_egr ref_env = plain_update"
    by (simp_all add: dns_ctx_def ref_env_def)
  show ?thesis
    using egress_query_recorded[of dns_ctx s 34 ref_env] f plain_update_law
    unfolding Let_def s_def[symmetric] by (simp add: c plain_update_def)
qed

end
