(* ===== verification/Stages.thy ===== *)
theory Stages
  imports SrcFilter DstFilter TcpAnomaly TcpAuth SynCookies Dns
begin

text \<open>
  What the filters owe the two programs that run them, beyond the accounting of
  \<open>PacketFilter\<close>: stages that write to the context keep what the caller relies on, and the
  bytes of a packet that goes on are not touched. The programs share these rules.
\<close>


section \<open>Stages of a program\<close>

lemma accounted_at_count:
  assumes "\<And>s. accounted E sz s (f s)" "r \<notin> entry_stats"
  shows "accounted E sz s (f (count_traffic_stat c r s))"
  using assms by (blast intro: accounted_count_traffic)

lemma src_filter_accounted: "accounted E (pkt_sz c) s (src_filter E c port key s)"
  unfolding src_filter_def by (intro acc_intros src_ip.flt_accounted src_port.flt_accounted)

text \<open>What a stage that writes to the context must keep of it, next to the accounting.\<close>

definition same_packet :: "XfwGlobalCtx \<Rightarrow> XfwGlobalCtx \<Rightarrow> bool" where
  "same_packet c c' \<longleftrightarrow> cfg c' = cfg c \<and> pkt_sz c' = pkt_sz c \<and> ts_jiff c' = ts_jiff c \<and> ipver c' = ipver c"

definition stage :: "env \<Rightarrow> XfwGlobalCtx \<Rightarrow> state \<Rightarrow> verdict \<times> state \<Rightarrow> XfwGlobalCtx \<Rightarrow> bool" where
  "stage E c s r c' \<longleftrightarrow> accounted E (pkt_sz c) s r \<and> same_packet c c'"

lemma stage_counted: "st \<notin> entry_stats \<Longrightarrow> stage E c (count_traffic_stat c st s) r c' \<Longrightarrow> stage E c s r c'"
  by (auto simp: stage_def intro: accounted_count_traffic)

lemma accounted_sized: "accounted E (pkt_sz x) s r \<Longrightarrow> pkt_sz x = sz \<Longrightarrow> accounted E sz s r"
  by simp

lemma count_traffic_ctx: "pkt_sz c' = pkt_sz c \<Longrightarrow> count_traffic_stat c' r s = count_traffic_stat c r s"
  by (simp add: count_traffic_stat_def)

text \<open>One traffic counter counts the packet, or does not.\<close>

definition counted :: "u32 \<Rightarrow> XfwTrafficStat \<Rightarrow> bool \<Rightarrow> state \<Rightarrow> state \<Rightarrow> bool" where
  "counted sz r b s s' \<longleftrightarrow> map_option (\<lambda>g. st_traffic g r) (g_stats s')
     = map_option (\<lambda>g. if b then bump_stat sz (st_traffic g r) else st_traffic g r) (g_stats s)"

lemma count_traffic_stats:
  "map_option st_pass (g_stats (count_traffic_stat c r s)) = map_option st_pass (g_stats s)"
  "map_option st_transmitted (g_stats (count_traffic_stat c r s)) = map_option st_transmitted (g_stats s)"
  "map_option (\<lambda>g. st_traffic g t) (g_stats (count_traffic_stat c r s)) =
     map_option (\<lambda>g. if t = r then bump_stat (pkt_sz c) (st_traffic g t) else st_traffic g t) (g_stats s)"
  by (cases "g_stats s"; simp add: count_traffic_stat_def)+


section \<open>What happens to the packet\<close>

text \<open>
  A verdict that lets the packet go on leaves its bytes as they were; a reply relates the
  bytes by \<open>R\<close>.
\<close>

definition untouched :: "(packet \<Rightarrow> packet \<Rightarrow> bool) \<Rightarrow> state \<Rightarrow> verdict \<times> state \<Rightarrow> bool" where
  "untouched R s r \<longleftrightarrow>
     (if fst r = XDP_TX then R (pkt s) (pkt (snd r)) else fst r \<noteq> XFW_CTX_DROP \<longrightarrow> pkt (snd r) = pkt s)"

named_theorems unt_intros

lemma untouched_drop [unt_intros]: "untouched R s (XFW_MAKE_CTX_DROP E c why s')"
  by (simp add: untouched_def XFW_MAKE_CTX_DROP_def)

lemma untouched_pass [unt_intros]: "pkt s' = pkt s \<Longrightarrow> untouched R s (XFW_MAKE_CTX_PASS c why s')"
  by (simp add: untouched_def XFW_MAKE_CTX_PASS_def)

lemma untouched_plain [unt_intros]:
  "pkt s' = pkt s \<Longrightarrow> untouched R s (XFW_CTX_CONTINUE, s')" "pkt s' = pkt s \<Longrightarrow> untouched R s (XFW_CTX_PASS, s')"
  by (simp_all add: untouched_def)

lemma untouched_from: "untouched R s1 r \<Longrightarrow> pkt s1 = pkt s \<Longrightarrow> untouched R s r"
  unfolding untouched_def by argo

lemma untouched_chain [unt_intros]:
  assumes "untouched R s r" "\<And>s1. pkt s1 = pkt s \<Longrightarrow> untouched R s1 (k s1)"
  shows "untouched R s (CHAIN r k)"
proof (cases "fst r = XFW_CTX_CONTINUE")
  case True
  then have "pkt (snd r) = pkt s" using assms(1) by (simp add: untouched_def)
  then show ?thesis using True untouched_from[OF assms(2)] by (simp add: CHAIN_def)
qed (simp add: CHAIN_def assms(1))

lemma untouched_assert [unt_intros]:
  "pkt s' = pkt s \<Longrightarrow> (v \<Longrightarrow> untouched R s (k ())) \<Longrightarrow> untouched R s (XFW_ASSERT v c s' k)"
  by (simp add: XFW_ASSERT_def untouched_pass)

lemma untouched_if [unt_intros]:
  "(b \<Longrightarrow> untouched R s r1) \<Longrightarrow> (\<not> b \<Longrightarrow> untouched R s r2) \<Longrightarrow> untouched R s (if b then r1 else r2)"
  by simp

lemma untouched_option [unt_intros]:
  "(x = None \<Longrightarrow> untouched R s r) \<Longrightarrow> (\<And>y. x = Some y \<Longrightarrow> untouched R s (f y)) \<Longrightarrow>
     untouched R s (case x of None \<Rightarrow> r | Some y \<Rightarrow> f y)"
  by (cases x) simp_all

lemma untouched_prod: "(\<And>a b. x = (a, b) \<Longrightarrow> untouched R s (f a b)) \<Longrightarrow> untouched R s (case x of (a, b) \<Rightarrow> f a b)"
  by (cases x) simp

lemma pkt_rlimits: "pkt (snd (xfw_is_allowed_by_rlimits c r s)) = pkt s"
  by (simp add: xfw_is_allowed_by_rlimits_def case_prod_beta split: option.split)

lemma untouched_rlimits [unt_intros]:
  "untouched R s (let (ok, s1) = xfw_is_allowed_by_rlimits c rule s
      in if ok then (XFW_CTX_CONTINUE, s1) else XFW_MAKE_CTX_DROP E c reason s1)"
  unfolding case_prod_beta Let_def by (intro unt_intros pkt_rlimits)

lemma untouched_src [unt_intros]:
  "untouched R s (src_port_rlimit E c port idx reason s)" "untouched R s (src_ip_rlimit E c idx reason s)"
  unfolding src_port_rlimit_def src_ip_rlimit_def case_prod_beta Let_def by (intro unt_intros; simp)+

lemma untouched_rules [unt_intros]:
  "untouched R s (icmp_filter E c key s)" "untouched R s (src_filter_ip E c k s)"
  "untouched R s (src_filter_port E c port s)" "untouched R s (syn_rlimit E c s)" "untouched R s (rst_rlimit E c s)"
  "untouched R s (xfw_dst_filter E c s)"
  unfolding icmp_filter_def src_filter_ip_def src_filter_port_def syn_rlimit_def rst_rlimit_def xfw_dst_filter_def
    case_prod_beta[of _ "populate_src_info _ _ _ _"] case_prod_beta[of _ "_ :: XfwDstKey \<times> DefaultIndex"]
    Let_def[of "defaults _ _"] Let_def[of "tcp_flags _ _"] Let_def[of "populate_src_info _ _ _ _"]
  by (intro unt_intros; simp)+

lemma untouched_anomaly [unt_intros]: "untouched R s (tcp_anomaly_filter E c th s)"
  unfolding tcp_anomaly_filter_def Let_def by (intro unt_intros refl)

lemma pkt_conn [simp]:
  "pkt (tcp_auth_conn_delete a s) = pkt s" "pkt (tcp_auth_conn_add E a s) = pkt s"
  "pkt (tcp_auth_conn_set_fin_time a t s) = pkt s"
  by (simp_all add: tcp_auth_conn_delete_def tcp_auth_conn_add_def tcp_auth_conn_set_fin_time_def)

lemma untouched_auth [unt_intros]: "untouched R s (tcp_auth_conn_ingress_filter E c addr ev s)"
  by (auto simp: tcp_auth_conn_ingress_filter_def split: option.split XfwTcpAuthEvent.split intro!: unt_intros)

lemma untouched_ack [unt_intros]: "untouched R s (tcp_syncookies_ack_filter E c th s)"
  unfolding tcp_syncookies_ack_filter_def Let_def syncookie_failed_def by (intro unt_intros; simp)

lemma untouched_syn: "th + 20 \<le> length (pkt s) \<Longrightarrow> untouched (cookie_sent E c th) s (tcp_syncookies_syn_filter E c th s)"
  using syn_filter_packet[of th s E c "fst (tcp_syncookies_syn_filter E c th s)" "snd (tcp_syncookies_syn_filter E c th s)"]
  by (simp add: untouched_def)

text \<open>The DNS filter never decides for a packet and never writes to it.\<close>

definition gate :: "state \<Rightarrow> verdict \<times> state \<Rightarrow> bool" where
  "gate s r \<longleftrightarrow> fst r \<in> {XFW_CTX_CONTINUE, XFW_CTX_DROP} \<and> pkt (snd r) = pkt s"

lemma pkt_incident [simp]: "pkt (register_incident E a n r s) = pkt s"
  by (simp add: register_incident_def Let_def case_prod_beta update_map_info_def
      push_swap_event_def push_swap_event_and_update_drop_cnt_def update_drop_cnt_def split: option.split)

lemma gate_basic: "gate s (DNS_DROP E d reason s)" "gate s (XFW_CTX_CONTINUE, s)"
  by (simp_all add: gate_def DNS_DROP_def)

lemma gate_if: "(b \<Longrightarrow> gate s r1) \<Longrightarrow> (\<not> b \<Longrightarrow> gate s r2) \<Longrightarrow> gate s (if b then r1 else r2)"
  by simp

lemma gate_option:
  "(x = None \<Longrightarrow> gate s r) \<Longrightarrow> (\<And>y. x = Some y \<Longrightarrow> gate s (f y)) \<Longrightarrow> gate s (case x of None \<Rightarrow> r | Some y \<Rightarrow> f y)"
  by (cases x) simp_all

lemma gate_prod: "(\<And>a b. gate s (f a b)) \<Longrightarrow> gate s (case x of (a, b) \<Rightarrow> f a b)"
  by (cases x) simp

lemma gate_let: "(\<And>x. gate s (f x)) \<Longrightarrow> gate s (let x = y in f x)"
  by simp

lemma gate_question:
  "(\<And>r s1. gate s1 (f r s1)) \<Longrightarrow> gate s (let (r, s1) = parse_single_dns_question cur s in f r s1)"
  using question_frame[of cur s] by (auto simp: case_prod_beta gate_def)

lemma gate_rr: "(\<And>r s1. gate s1 (f r s1)) \<Longrightarrow> gate s (let (r, s1) = parse_full_dns_rr cur s in f r s1)"
  using rr_frame[of cur s] by (auto simp: case_prod_beta gate_def)

lemmas gate_intros = gate_basic gate_if gate_option gate_prod

lemma gate_answers: "gate s (process_answers n E d s)"
proof (induction n arbitrary: d s)
  case (Suc n)
  then show ?case unfolding process_answers.simps by (intro gate_rr gate_intros)
qed (simp add: gate_basic)

lemma gate_query: "gate s (process_ingress_dns_query E d dh s)"
  unfolding process_ingress_dns_query_def by (rule gate_let)+ (intro gate_question gate_intros)

lemma gate_response: "gate s (process_ingress_dns_response E d dh s)"
  unfolding process_ingress_dns_response_def
  by (rule gate_let) (intro gate_question gate_intros gate_let gate_answers)

lemma gate_dns: "gate s (ingress_dns_filter E c uh s)"
proof -
  have g: "gate z (ingress_dns_filter_global E z)" for z
    unfolding ingress_dns_filter_global_def by (intro gate_intros gate_let gate_query gate_response)
  show ?thesis
    using g unfolding ingress_dns_filter_def Let_def
    by (auto simp: gate_def split: option.split)
qed

lemma untouched_gate: "gate s r \<Longrightarrow> untouched R s r"
  by (auto simp: gate_def untouched_def)

lemma untouched_mono: "untouched R s r \<Longrightarrow> (\<And>p q. p = pkt s \<Longrightarrow> R p q \<Longrightarrow> R' p q) \<Longrightarrow> untouched R' s r"
  unfolding untouched_def by (simp split: if_splits)

lemma untouched_counted: "untouched R (count_traffic_stat c st s) r \<Longrightarrow> untouched R s r"
  by (erule untouched_from) simp

lemma untouched_src_filter [unt_intros]: "untouched R s (src_filter E c port key s)"
  unfolding src_filter_def by (intro unt_intros refl)


section \<open>A packet to run the programs on\<close>

text \<open>
  A UDP packet from 10.1.2.3 port 1234 to 192.168.0.1 port 8080, on a host whose rules
  allow everything.
\<close>

definition udp_pkt :: packet where
  "udp_pkt = [2, 0, 0, 0, 0, 1, 2, 0, 0, 0, 0, 2, 8, 0,
     0x45, 0, 0, 29, 0, 0, 0, 0, 64, 17, 0, 0, 10, 1, 2, 3, 192, 168, 0, 1,
     4, 210, 31, 144, 0, 9, 0, 0, 1]"

lemma udp_pkt_parses:
  "parse_ethhdr udp_pkt \<lparr>pos = 0, cur_end = 43\<rparr> = (Inr (bpf_ntohs ETH_P_IP), \<lparr>pos = 14, cur_end = 43\<rparr>)"
  "parse_iphdr udp_pkt \<lparr>pos = 14, cur_end = 43\<rparr> = (Inr (XFW_L4_PROTO_UDP, 14), \<lparr>pos = 34, cur_end = 43\<rparr>)"
  "parse_udphdr udp_pkt \<lparr>pos = 34, cur_end = 43\<rparr> = (Inr (1, 34), \<lparr>pos = 42, cur_end = 43\<rparr>)"
  "bpf_htons (ip_frag_off udp_pkt 14) AND 0x3FFF = 0" "l4_source udp_pkt 34 \<noteq> 0" "l4_dest udp_pkt 34 \<noteq> 0"
  "length udp_pkt = 43" "ip_saddr udp_pkt 14 = 0x0302010A"
  by code_simp+

lemma ref_supported: "bpf_bitset64_test (ip_protocols ref_rules) XFW_L4_PROTO_UDP"
  by code_simp

definition udp_state :: state where
  "udp_state = ref_state ref_cfg udp_pkt"

lemma udp_state_fields:
  "map_cfg (ref_maps cf) = Some cf" "g_stats udp_state = Some zero_stats" "pkt udp_state = udp_pkt"
  "ro udp_state = ref_maps ref_cfg" "ro (ref_state cf p) = ref_maps cf" "pkt (ref_state cf p) = p"
  by (simp_all add: udp_state_def ref_state_def ref_maps_def)

lemma ref_allows:
  "rules ref_cfg = ref_rules" "rules_active ref_cfg" "\<not> evaluation_mode ref_rules" "defaults ref_rules = (\<lambda>_. allow_rule)"
  "action allow_rule = XFW_ACTION_ALLOW" "XFW_ACTION_ALLOW \<noteq> XFW_ACTION_BLOCK" "\<not> dns_mode ref_env"
  by (simp_all add: ref_cfg_def ref_rules_def allow_rule_def ref_env_def, code_simp+)

lemma ref_no_rules:
  "SELECT_SHADOW_MAP (map_src_4_udp (ref_maps cf)) x = []" "SELECT_SHADOW_MAP (map_src_p_udp (ref_maps cf)) x = Map.empty"
  "SELECT_SHADOW_MAP (map_dst (ref_maps cf)) x = Map.empty" "lpm4_lookup ref_env [] k = None"
  by (simp_all add: ref_maps_def SELECT_SHADOW_MAP_def lpm4_lookup_def ref_env_def)

end
