(* ===== verification/Xdp.thy ===== *)
theory Xdp
  imports Stages
begin

text \<open>
  The ingress program \<open>bpf/xdp.c\<close>: parsing of layers 3 and 4 with the rule filters run
  from them, the TCP handshake logic, and the entry point. The context is returned where
  the code writes to it. Shown here: every packet is booked exactly once. The theories
  \<open>XdpPacket\<close> and \<open>XdpRules\<close> say what happens to the packet's bytes and how the rules
  decide.
\<close>


section \<open>The program\<close>

definition create_metadata :: "env \<Rightarrow> XfwGlobalCtx \<Rightarrow> state \<Rightarrow> (verdict \<times> state) \<times> XfwGlobalCtx" where
  "create_metadata E c s =
     (if \<not> dns_mode E \<or> \<not> dns_enabled (rules (cfg c)) then ((XFW_CTX_CONTINUE, s), c)
      else case adjust_meta E of
        None \<Rightarrow> (XFW_MAKE_CTX_PASS c XFW_METADATA_CREATION_FAILED s, c)
      | Some md \<Rightarrow>
          (let s = s\<lparr>meta := Some md\<rparr>
           in ((XFW_CTX_CONTINUE, s), c\<lparr>hdr_cur := INIT_CURSOR_FROM_BPF_CONTEXT s\<rparr>)))"

definition in_process_l3 ::
  "env \<Rightarrow> XfwGlobalCtx \<Rightarrow> XfwIpLpmKey \<Rightarrow> state \<Rightarrow> (verdict \<times> state) \<times> XfwGlobalCtx \<times> XfwIpLpmKey" where
  "in_process_l3 E c key s =
     (let p = pkt s in
      if ipver c = bpf_ntohs ETH_P_IP
      then let s = count_traffic_stat c XFW_IP4_TOTAL_INGRESS s;
               (r, cur) = parse_iphdr p (hdr_cur c);
               c = c\<lparr>hdr_cur := cur\<rparr>
        in case r of
          Inl _ \<Rightarrow> (XFW_MAKE_CTX_DROP E c XFW_DROP_IP4_BADHDR_INGRESS s, c, key)
        | Inr (proto, iph4) \<Rightarrow>
           (let c = c\<lparr>ilog_addr := xfw_ipv4_to_ipv6_mapped (ip_saddr p iph4)\<rparr> in
            if bpf_htons (ip_frag_off p iph4) AND 0x3FFF \<noteq> 0
            then (XFW_MAKE_CTX_DROP E c XFW_DROP_IP4_FRAGMENTED_INGRESS s, c, key)
            else if \<not> iph4 \<le> L3_OFF_MAX then (XFW_MAKE_CTX_PASS c XFW_ASSERT_FAILED s, c, key)
            else ((XFW_CTX_CONTINUE, s), c\<lparr>ip_off := word_of_nat iph4, l4_proto := proto\<rparr>,
                  key\<lparr>key4 := ipv4_populate_lpm_key (ip_saddr p iph4)\<rparr>))
      else if ipver c = bpf_ntohs ETH_P_IPV6
      then let s = count_traffic_stat c XFW_IP6_TOTAL_INGRESS s;
               (r, cur) = parse_ip6hdr p (hdr_cur c);
               c = c\<lparr>hdr_cur := cur\<rparr>
        in case r of
          Inl _ \<Rightarrow> (XFW_MAKE_CTX_DROP E c XFW_DROP_IP6_BADHDR_INGRESS s, c, key)
        | Inr iph6 \<Rightarrow>
           (let c = c\<lparr>ilog_addr := ip6_saddr p iph6\<rparr>;
                (r, cur) = skip_ip6hdrext p (hdr_cur c) (ip6_nexthdr p iph6);
                c = c\<lparr>hdr_cur := cur\<rparr>
            in case r of
              Inl err \<Rightarrow>
                (XFW_MAKE_CTX_DROP E c
                   (if err = - EFBIG then XFW_DROP_IP6_FRAGMENTED_INGRESS else XFW_DROP_IP6_BADHDR_INGRESS) s, c, key)
            | Inr proto \<Rightarrow>
                if \<not> iph6 \<le> L3_OFF_MAX then (XFW_MAKE_CTX_PASS c XFW_ASSERT_FAILED s, c, key)
                else ((XFW_CTX_CONTINUE, s), c\<lparr>ip_off := word_of_nat iph6, l4_proto := proto\<rparr>,
                      key\<lparr>key6 := ipv6_populate_lpm_key (ip6_saddr p iph6)\<rparr>))
      else if ipver c = bpf_ntohs ETH_P_ARP then (XFW_MAKE_CTX_PASS c XFW_ARP_INGRESS s, c, key)
      else (XFW_MAKE_CTX_DROP E c XFW_DROP_L2_UNKNOWN_INGRESS s, c, key))"

definition tcp_rcv_syn_filter :: "env \<Rightarrow> XfwGlobalCtx \<Rightarrow> nat \<Rightarrow> state \<Rightarrow> verdict \<times> state" where
  "tcp_rcv_syn_filter E c th s =
     CHAIN (syn_rlimit E c s) (\<lambda>s.
     if deployment_mode E = XFW_MODE_HOST \<and> sc_enabled (syncookie (rules (cfg c)))
     then CHAIN (tcp_syncookies_syn_filter E c th s) (\<lambda>s. (XFW_CTX_CONTINUE, s))
     else (XFW_CTX_CONTINUE, s))"

definition tcp_rcv_ack_filter ::
  "env \<Rightarrow> XfwGlobalCtx \<Rightarrow> nat \<Rightarrow> XfwSockAddr \<Rightarrow> state \<Rightarrow> verdict \<times> state" where
  "tcp_rcv_ack_filter E c th addr s =
     (if deployment_mode E \<noteq> XFW_MODE_HOST \<or> \<not> sc_enabled (syncookie (rules (cfg c)))
      then tcp_auth_conn_ingress_filter E c addr TCP_AUTH_EVENT_NORMAL s
      else case syncookies s of
        None \<Rightarrow> XFW_MAKE_CTX_PASS c XFW_ASSERT_FAILED s
      | Some ts \<Rightarrow>
          (let (flood, ts) = tcp_syncookies_flood_mode c ts; s = s\<lparr>syncookies := Some ts\<rparr> in
           if \<not> flood then tcp_auth_conn_ingress_filter E c addr TCP_AUTH_EVENT_NORMAL s
           else if tcp_auth_enabled (rules (cfg c)) \<and> tcp_auth_has_conn_trusted E c addr s
           then (XFW_CTX_CONTINUE, s)
           else CHAIN (tcp_syncookies_ack_filter E c th s) (\<lambda>s.
             (XFW_CTX_CONTINUE, tcp_auth_conn_add E addr s))))"

definition tcp_flags_filter ::
  "env \<Rightarrow> XfwGlobalCtx \<Rightarrow> nat \<Rightarrow> XfwSockAddr \<Rightarrow> state \<Rightarrow> verdict \<times> state" where
  "tcp_flags_filter E c th addr s =
     (let p = pkt s in
      if tcp_fin p th
      then tcp_auth_conn_ingress_filter E c addr TCP_AUTH_EVENT_FIN (count_traffic_stat c XFW_FIN s)
      else if tcp_rst p th
      then CHAIN (tcp_auth_conn_ingress_filter E c addr TCP_AUTH_EVENT_RST (count_traffic_stat c XFW_RST s))
             (rst_rlimit E c)
      else if tcp_syn p th \<and> tcp_ack p th
      then tcp_auth_conn_ingress_filter E c addr TCP_AUTH_EVENT_NORMAL (count_traffic_stat c XFW_SYNACK s)
      else if tcp_syn p th then tcp_rcv_syn_filter E c th (count_traffic_stat c XFW_SYN s)
      else if tcp_ack p th then tcp_rcv_ack_filter E c th addr (count_traffic_stat c XFW_ACK s)
      else tcp_auth_conn_ingress_filter E c addr TCP_AUTH_EVENT_NORMAL s)"

text \<open>The three cases of the protocol switch of \<open>in_process_l4\<close> that parse a header.\<close>

definition in_process_tcp ::
  "env \<Rightarrow> XfwGlobalCtx \<Rightarrow> XfwIpLpmKey \<Rightarrow> state \<Rightarrow> (verdict \<times> state) \<times> XfwGlobalCtx" where
  "in_process_tcp E c key s =
     (let s = count_traffic_stat c XFW_TCP_TOTAL_INGRESS s;
          (r, cur) = parse_tcphdr (pkt s) (hdr_cur c);
          c = c\<lparr>hdr_cur := cur\<rparr>
      in case r of
        Inl _ \<Rightarrow> (XFW_MAKE_CTX_DROP E c XFW_DROP_TCP_BADHDR_INGRESS s, c)
      | Inr (len, th) \<Rightarrow>
          if len \<le> 0 \<or> L4_OFF_MAX < th then (XFW_MAKE_CTX_DROP E c XFW_DROP_TCP_BADHDR_INGRESS s, c)
          else let c = c\<lparr>l4_off := word_of_nat th\<rparr>
          in (CHAIN (tcp_anomaly_filter E c th s) (\<lambda>s.
              CHAIN (src_filter E c (l4_source (pkt s) th) key s) (\<lambda>s.
              tcp_flags_filter E c th \<lparr>sa_addr = ilog_addr c, sa_port = l4_source (pkt s) th\<rparr> s)), c))"

definition in_process_udp ::
  "env \<Rightarrow> XfwGlobalCtx \<Rightarrow> XfwIpLpmKey \<Rightarrow> state \<Rightarrow> (verdict \<times> state) \<times> XfwGlobalCtx" where
  "in_process_udp E c key s =
     (let s = count_traffic_stat c XFW_UDP_TOTAL_INGRESS s;
          (r, cur) = parse_udphdr (pkt s) (hdr_cur c);
          c = c\<lparr>hdr_cur := cur\<rparr>
      in case r of
        Inl _ \<Rightarrow> (XFW_MAKE_CTX_DROP E c XFW_DROP_UDP_BADHDR_INGRESS s, c)
      | Inr (len, uh) \<Rightarrow>
          if len \<le> 0 \<or> L4_OFF_MAX < uh then (XFW_MAKE_CTX_DROP E c XFW_DROP_UDP_BADHDR_INGRESS s, c)
          else let c = c\<lparr>l4_off := word_of_nat uh\<rparr> in
          if l4_source (pkt s) uh = 0 \<or> l4_dest (pkt s) uh = 0
          then (XFW_MAKE_CTX_DROP E c XFW_DROP_UDP_ANOM_ZERO_PORT s, c)
          else (CHAIN (if dns_mode E then ingress_dns_filter E c uh s else (XFW_CTX_CONTINUE, s)) (\<lambda>s.
                src_filter E c (l4_source (pkt s) uh) key s), c))"

definition in_process_icmp ::
  "env \<Rightarrow> XfwGlobalCtx \<Rightarrow> XfwIpLpmKey \<Rightarrow> state \<Rightarrow> (verdict \<times> state) \<times> XfwGlobalCtx" where
  "in_process_icmp E c key s =
     (let s = count_traffic_stat c XFW_ICMP_TOTAL_INGRESS s;
          (r, cur) = parse_icmphdr_common (pkt s) (hdr_cur c) (l4_proto c);
          c = c\<lparr>hdr_cur := cur\<rparr>
      in case r of
        Inl _ \<Rightarrow> (XFW_MAKE_CTX_DROP E c XFW_DROP_ICMP_BADHDR_INGRESS s, c)
      | Inr (_, ih) \<Rightarrow>
          (CHAIN (icmp_filter E c \<lparr>icmp_proto = l4_proto c, icmp_type = ld8 (pkt s) ih\<rparr> s) (\<lambda>s.
           CHAIN (src_filter_ip E c key s) (\<lambda>s. (XFW_CTX_PASS, s))), c))"

definition in_process_l4 ::
  "env \<Rightarrow> XfwGlobalCtx \<Rightarrow> XfwIpLpmKey \<Rightarrow> state \<Rightarrow> (verdict \<times> state) \<times> XfwGlobalCtx" where
  "in_process_l4 E c key s =
     (if \<not> bpf_bitset64_test (ip_protocols (rules (cfg c))) (l4_proto c)
      then (XFW_MAKE_CTX_DROP E c XFW_DROP_L4_UNSUPPORTED_INGRESS s, c)
      else if l4_proto c = XFW_L4_PROTO_TCP then in_process_tcp E c key s
      else if l4_proto c = XFW_L4_PROTO_UDP then in_process_udp E c key s
      else if l4_proto c = XFW_L4_PROTO_ICMP \<or> l4_proto c = XFW_L4_PROTO_ICMPV6 then in_process_icmp E c key s
      else if l4_proto c = XFW_L4_PROTO_GRE then (XFW_MAKE_CTX_PASS c XFW_GRE_INGRESS s, c)
      else (XFW_MAKE_CTX_PASS c XFW_SUPPORTED_PROTOCOL_INGRESS s, c))"

text \<open>The code at the label \<open>pass\<close>, and \<open>CHAIN_PASS_ALL\<close>, which jumps to it.\<close>

definition xdp_pass :: "XfwGlobalCtx \<Rightarrow> state \<Rightarrow> verdict \<times> state" where
  "xdp_pass c s = (XFW_CTX_PASS, count_traffic_stat c XFW_PASSED_DOWNSTREAM_INGRESS s)"

definition CHAIN_PASS_ALL ::
  "XfwGlobalCtx \<Rightarrow> verdict \<times> state \<Rightarrow> (state \<Rightarrow> verdict \<times> state) \<Rightarrow> verdict \<times> state" where
  "CHAIN_PASS_ALL c r k =
     (if fst r = XFW_CTX_CONTINUE then k (snd r)
      else if fst r = XFW_CTX_PASS then xdp_pass c (snd r) else r)"

definition xfw_xdp_filter :: "env \<Rightarrow> XfwGlobalCtx \<Rightarrow> state \<Rightarrow> verdict \<times> state" where
  "xfw_xdp_filter E c s =
     (let s = count_traffic_stat c XFW_TOTAL_DOWNSTREAM_INGRESS s in
      if \<not> rules_active (cfg c)
      then XFW_MAKE_CTX_PASS c XFW_PRELOAD_INGRESS (count_traffic_stat c XFW_PASSED_DOWNSTREAM_INGRESS s)
      else let (r, cur) = parse_ethhdr (pkt s) (hdr_cur c); c = c\<lparr>hdr_cur := cur\<rparr> in
      case r of
        Inl _ \<Rightarrow> XFW_MAKE_CTX_DROP E c XFW_DROP_ETH_BADHDR_INGRESS s
      | Inr h_proto \<Rightarrow>
          (let c = c\<lparr>ipver := h_proto\<rparr>; (r, c, key) = in_process_l3 E c zero_lpm_key s in
           CHAIN_PASS_ALL c r (\<lambda>s.
           let (r, c) = in_process_l4 E c key s in
           CHAIN_PASS_ALL c r (\<lambda>s.
           CHAIN_PASS_ALL c (xfw_dst_filter E c s) (xdp_pass c)))))"

definition xfw_xdp :: "env \<Rightarrow> state \<Rightarrow> verdict \<times> state" where
  "xfw_xdp E s =
     (case xfw_ctx_init E s of
        None \<Rightarrow> (XFW_CTX_PASS, s)
      | Some c \<Rightarrow>
          (let ((r, s), c) = create_metadata E c s;
               (r, s) = (if r = XFW_CTX_CONTINUE then xfw_xdp_filter E c s else (r, s))
           in (finalize_result c r, s)))"


section \<open>A packet to run it on\<close>

lemmas udp_run = udp_state_fields ref_allows ref_no_rules udp_pkt_parses ref_supported parse_limits Let_def
  CHAIN_def CHAIN_PASS_ALL_def in_process_l3_def in_process_l4_def in_process_udp_def src_filter_def src_filter_ip_def
  populate_src_info_def src_filter_port_def xfw_dst_filter_def populate_dst_info_def

lemma udp_pkt_passes: "fst (xfw_xdp ref_env udp_state) = XFW_CTX_PASS"
  by (simp add: xfw_xdp_def xfw_ctx_init_def create_metadata_def INIT_CURSOR_FROM_BPF_CONTEXT_def xfw_xdp_filter_def
      xdp_pass_def finalize_result_def udp_run)


section \<open>Accounting\<close>

interpretation syn_rcv: packet_filter E "pkt_sz c" "tcp_rcv_syn_filter E c th" for E c th
  unfolding tcp_rcv_syn_filter_def
  by unfold_locales (intro acc_intros syn.flt_accounted sc_syn.flt_accounted)

interpretation ack_rcv: packet_filter E "pkt_sz c" "tcp_rcv_ack_filter E c th addr" for E c th addr
proof unfold_locales
  fix s
  have add: "accounted E (pkt_sz c) z (XFW_CTX_CONTINUE, tcp_auth_conn_add E addr z)" for z
    by (simp add: accounted_continue silent_conn)
  have "accounted E (pkt_sz c) z (if \<not> flood then tcp_auth_conn_ingress_filter E c addr TCP_AUTH_EVENT_NORMAL z
      else if tcp_auth_enabled (rules (cfg c)) \<and> tcp_auth_has_conn_trusted E c addr z then (XFW_CTX_CONTINUE, z)
      else CHAIN (tcp_syncookies_ack_filter E c th z) (\<lambda>s. (XFW_CTX_CONTINUE, tcp_auth_conn_add E addr s)))"
    for z flood
    by (intro acc_intros auth.flt_accounted sc_ack.flt_accounted add)
  note flood = accounted_silent_trans[OF silent_updates(5) this]
  show "accounted E (pkt_sz c) s (tcp_rcv_ack_filter E c th addr s)"
    unfolding tcp_rcv_ack_filter_def Let_def
    by (rule accounted_if accounted_option accounted_make_pass accounted_prod auth.flt_accounted refl flood)+
qed

interpretation tcp_flags_f: packet_filter E "pkt_sz c" "tcp_flags_filter E c th addr" for E c th addr
proof unfold_locales
  fix s
  show "accounted E (pkt_sz c) s (tcp_flags_filter E c th addr s)"
    unfolding tcp_flags_filter_def Let_def
    by (intro accounted_if accounted_chain auth.flt_accounted rst.flt_accounted
        accounted_at_count[OF auth.flt_accounted] accounted_at_count[OF syn_rcv.flt_accounted]
        accounted_at_count[OF ack_rcv.flt_accounted]) (simp_all add: entry_stats_def)
qed

lemma l3_stage: "in_process_l3 E c key s = (r, c', key') \<Longrightarrow> stage E c s r c'"
proof -
  assume a: "in_process_l3 E c key s = (r, c', key')"
  have d: "accounted E (pkt_sz c) s (XFW_MAKE_CTX_DROP E x reason (count_traffic_stat c st s))"
    and p: "pkt_sz x = pkt_sz c \<Longrightarrow> accounted E (pkt_sz c) s (XFW_MAKE_CTX_PASS x why (count_traffic_stat c st s))"
    and k: "accounted E (pkt_sz c) s (XFW_CTX_CONTINUE, count_traffic_stat c st s)"
    if "st \<notin> entry_stats" for x reason st why
    using that by (auto intro: accounted_count_traffic accounted_drop accounted_make_pass
      simp: accounted_continue silent_count_traffic)
  show ?thesis
    using a unfolding in_process_l3_def Let_def stage_def same_packet_def
    by (auto split: sum.splits if_splits prod.splits intro: d p k acc_intros simp: entry_stats_def)
qed

lemmas stage_sized =
  tcp_anom.flt_accounted[THEN accounted_sized] src_filter_accounted[THEN accounted_sized]
  tcp_flags_f.flt_accounted[THEN accounted_sized] dns.flt_accounted[THEN accounted_sized]
  icmp.flt_accounted[THEN accounted_sized] src_ip.flt_accounted[THEN accounted_sized]

lemma tcp_stage: "in_process_tcp E c key s = (r, c') \<Longrightarrow> stage E c s r c'"
proof (rule stage_counted[of XFW_TCP_TOTAL_INGRESS])
  assume "in_process_tcp E c key s = (r, c')"
  then show "stage E c (count_traffic_stat c XFW_TCP_TOTAL_INGRESS s) r c'"
    unfolding in_process_tcp_def Let_def stage_def same_packet_def
    by (auto split: sum.splits if_splits prod.splits intro!: acc_intros stage_sized)
qed (simp add: entry_stats_def)

lemma udp_stage: "in_process_udp E c key s = (r, c') \<Longrightarrow> stage E c s r c'"
proof (rule stage_counted[of XFW_UDP_TOTAL_INGRESS])
  assume "in_process_udp E c key s = (r, c')"
  then show "stage E c (count_traffic_stat c XFW_UDP_TOTAL_INGRESS s) r c'"
    unfolding in_process_udp_def Let_def stage_def same_packet_def
    by (auto split: sum.splits if_split_asm prod.splits intro!: acc_intros stage_sized)
qed (simp add: entry_stats_def)

lemma icmp_stage: "in_process_icmp E c key s = (r, c') \<Longrightarrow> stage E c s r c'"
proof (rule stage_counted[of XFW_ICMP_TOTAL_INGRESS])
  assume "in_process_icmp E c key s = (r, c')"
  then show "stage E c (count_traffic_stat c XFW_ICMP_TOTAL_INGRESS s) r c'"
    unfolding in_process_icmp_def Let_def stage_def same_packet_def
    by (auto split: sum.splits if_splits prod.splits intro!: acc_intros stage_sized silent_refl)
qed (simp add: entry_stats_def)

lemma l4_stage: "in_process_l4 E c key s = (r, c') \<Longrightarrow> stage E c s r c'"
  unfolding in_process_l4_def
  by (auto split: if_splits intro: tcp_stage udp_stage icmp_stage)
    (auto simp: stage_def same_packet_def intro: accounted_drop accounted_make_pass)

text \<open>
  The books of the entry point: a verdict that leaves the program, with the filters'
  accounting and, for a PASS, one packet counted as passed.
\<close>

definition booked :: "env \<Rightarrow> XfwGlobalCtx \<Rightarrow> state \<Rightarrow> verdict \<times> state \<Rightarrow> bool" where
  "booked E c s r \<longleftrightarrow> fst r \<noteq> XFW_CTX_CONTINUE \<and> (\<exists>s1. accounted E (pkt_sz c) s (fst r, s1) \<and>
     snd r = (if fst r = XFW_CTX_PASS then count_traffic_stat c XFW_PASSED_DOWNSTREAM_INGRESS s1 else s1))"

lemma booked_pass: "silent s s1 \<Longrightarrow> pkt_sz c' = pkt_sz c \<Longrightarrow> booked E c s (xdp_pass c' s1)"
  using accounted_pass[of s s1 E "pkt_sz c"] by (auto simp: booked_def xdp_pass_def count_traffic_ctx[of c' c])

lemma booked_silent_trans: "silent s s1 \<Longrightarrow> booked E c s1 r \<Longrightarrow> booked E c s r"
  unfolding booked_def using accounted_silent_trans by blast

lemma booked_chain:
  assumes "accounted E (pkt_sz c) s r" "\<And>s1. booked E c s1 (k s1)" "pkt_sz c' = pkt_sz c"
  shows "booked E c s (CHAIN_PASS_ALL c' r k)"
proof (cases r)
  case (Pair v s1)
  show ?thesis
  proof (cases v)
    case XFW_CTX_CONTINUE
    then have "silent s s1" using assms(1) Pair by (simp add: accounted_continue)
    then show ?thesis using Pair XFW_CTX_CONTINUE assms(2)
      by (simp add: CHAIN_PASS_ALL_def booked_silent_trans)
  next
    case XFW_CTX_PASS
    then show ?thesis using Pair assms
      by (auto simp: CHAIN_PASS_ALL_def booked_def xdp_pass_def count_traffic_ctx[of c' c])
  qed (use Pair assms in \<open>auto simp: CHAIN_PASS_ALL_def booked_def\<close>)
qed

lemma count_pass_traffic:
  "count_pass_stat c p (count_traffic_stat c t s) = count_traffic_stat c t (count_pass_stat c p s)"
  by (cases "g_stats s") (simp_all add: count_pass_stat_def count_traffic_stat_def)

lemma xdp_filter_booked:
  "booked E c (count_traffic_stat c XFW_TOTAL_DOWNSTREAM_INGRESS s) (xfw_xdp_filter E c s)"
proof -
  define s1 where "s1 = count_traffic_stat c XFW_TOTAL_DOWNSTREAM_INGRESS s"
  have preload: "booked E c z (XFW_MAKE_CTX_PASS c XFW_PRELOAD_INGRESS (count_traffic_stat c XFW_PASSED_DOWNSTREAM_INGRESS z))" for z
    using accounted_make_pass[of c "pkt_sz c" E z XFW_PRELOAD_INGRESS]
    unfolding booked_def XFW_MAKE_CTX_PASS_def count_pass_traffic by auto
  have drop: "booked E c z (XFW_MAKE_CTX_DROP E x why z)" for z x why
    using accounted_drop[of E "pkt_sz c" z x why] by (auto simp: booked_def XFW_MAKE_CTX_DROP_def)
  have dst: "booked E c z (CHAIN_PASS_ALL x (xfw_dst_filter E x z) (xdp_pass x))" if "pkt_sz x = pkt_sz c" for z x
    by (intro booked_chain booked_pass silent_refl that accounted_sized[OF dst.flt_accounted])
  have l4: "booked E c z (CHAIN_PASS_ALL y r (\<lambda>s. CHAIN_PASS_ALL y (xfw_dst_filter E y s) (xdp_pass y)))"
    if "pkt_sz x = pkt_sz c" "in_process_l4 E x key z = (r, y)" for z x key r y
    using l4_stage[OF that(2)] that(1) by (intro booked_chain dst) (simp_all add: stage_def same_packet_def)
  have l3: "booked E c z (CHAIN_PASS_ALL y r (\<lambda>s.
      let (r, y) = in_process_l4 E y key' s in CHAIN_PASS_ALL y r (\<lambda>s.
      CHAIN_PASS_ALL y (xfw_dst_filter E y s) (xdp_pass y))))"
    if "pkt_sz x = pkt_sz c" "in_process_l3 E x key z = (r, y, key')" for z x key r y key'
    using l3_stage[OF that(2)] that(1)
    by (intro booked_chain) (auto simp: stage_def same_packet_def split: prod.split intro: l4)
  show ?thesis
    unfolding xfw_xdp_filter_def s1_def[symmetric] Let_def
    by (auto simp: preload drop split: sum.split prod.split intro!: l3[unfolded Let_def, rotated])
qed

text \<open>A run that reaches the filters: the maps are there and the metadata area could be made.\<close>

definition reaches_filters :: "env \<Rightarrow> state \<Rightarrow> bool" where
  "reaches_filters E s \<longleftrightarrow> (\<exists>c. xfw_ctx_init E s = Some c \<and>
     \<not> (dns_mode E \<and> dns_enabled (rules (cfg c)) \<and> adjust_meta E = None))"

lemma xfw_xdp_runs:
  assumes "reaches_filters E s"
  obtains c md where "xfw_ctx_init E s = Some c"
    "xfw_xdp E s = (finalize_result c (fst (xfw_xdp_filter E c (s\<lparr>meta := md\<rparr>))), snd (xfw_xdp_filter E c (s\<lparr>meta := md\<rparr>)))"
proof -
  obtain c where c: "xfw_ctx_init E s = Some c" "\<not> (dns_mode E \<and> dns_enabled (rules (cfg c)) \<and> adjust_meta E = None)"
    using assms by (auto simp: reaches_filters_def)
  have cur: "c\<lparr>hdr_cur := INIT_CURSOR_FROM_BPF_CONTEXT (s\<lparr>meta := x\<rparr>)\<rparr> = c" for x
    using xfw_ctx_init_Some(3)[OF c(1)] by (simp add: INIT_CURSOR_FROM_BPF_CONTEXT_def)
  obtain md where "create_metadata E c s = ((XFW_CTX_CONTINUE, s\<lparr>meta := md\<rparr>), c)"
  proof (cases "\<not> dns_mode E \<or> \<not> dns_enabled (rules (cfg c))")
    case True
    then have "create_metadata E c s = ((XFW_CTX_CONTINUE, s\<lparr>meta := meta s\<rparr>), c)" by (simp add: create_metadata_def)
    then show ?thesis by (rule that)
  next
    case False
    then obtain x where "adjust_meta E = Some x" using c(2) by auto
    then have "create_metadata E c s = ((XFW_CTX_CONTINUE, s\<lparr>meta := Some x\<rparr>), c)"
      using False cur[of "Some x"] by (auto simp: create_metadata_def)
    then show ?thesis by (rule that)
  qed
  then show ?thesis using c(1) by (intro that[of c md]) (simp_all add: xfw_xdp_def case_prod_beta)
qed

lemma udp_reaches: "reaches_filters ref_env udp_state"
  by (simp add: reaches_filters_def xfw_ctx_init_def udp_state_fields ref_allows)

lemma booked_facts:
  assumes "booked E c (count_traffic_stat c XFW_TOTAL_DOWNSTREAM_INGRESS s) (raw, s')"
  shows "raw \<noteq> XFW_CTX_CONTINUE" "ro s' = ro s" "length (pkt s') = length (pkt s)"
    "if raw = XFW_CTX_DROP then \<exists>a n reason. logs s' = logs (register_incident E a n reason s) else logs s' = logs s"
    "map_option st_transmitted (g_stats s') = map_option (\<lambda>g. if raw = XDP_TX
        then bumped (pkt_sz c) XFW_SYNCOOKIE_GENERATED (st_transmitted g) else st_transmitted g) (g_stats s)"
    "counted (pkt_sz c) XFW_TOTAL_DOWNSTREAM_INGRESS True s s'"
    "counted (pkt_sz c) XFW_PASSED_DOWNSTREAM_INGRESS (raw = XFW_CTX_PASS) s s'"
proof -
  define s0 where "s0 = count_traffic_stat c XFW_TOTAL_DOWNSTREAM_INGRESS s"
  obtain s1 where s1: "raw \<noteq> XFW_CTX_CONTINUE" "accounted E (pkt_sz c) s0 (raw, s1)"
    "s' = (if raw = XFW_CTX_PASS then count_traffic_stat c XFW_PASSED_DOWNSTREAM_INGRESS s1 else s1)"
    using assms by (auto simp: booked_def s0_def)
  have l: "logs (register_incident E a n r s0) = logs (register_incident E a n r s)" for a n r
    by (rule logs_register_cong) (simp add: s0_def)
  have acc: "ro s1 = ro s" "length (pkt s1) = length (pkt s)"
    "if raw = XFW_CTX_DROP then \<exists>a n reason. logs s1 = logs (register_incident E a n reason s) else logs s1 = logs s"
    "map_option st_transmitted (g_stats s1) = map_option (\<lambda>g. if raw = XDP_TX
        then bumped (pkt_sz c) XFW_SYNCOOKIE_GENERATED (st_transmitted g) else st_transmitted g) (g_stats s0)"
    "\<And>r. r \<in> entry_stats \<Longrightarrow> map_option (\<lambda>g. st_traffic g r) (g_stats s1) = map_option (\<lambda>g. st_traffic g r) (g_stats s0)"
    using s1(2) l by (auto simp: accounted_def s0_def split: if_splits)
  have tx0: "map_option (\<lambda>g. f (st_transmitted g)) (g_stats s0) = map_option (\<lambda>g. f (st_transmitted g)) (g_stats s)"
    for f :: "_ \<Rightarrow> XfwTxStat \<Rightarrow> XfwPacketStats"
    by (cases "g_stats s") (simp_all add: s0_def count_traffic_stat_def)
  show "raw \<noteq> XFW_CTX_CONTINUE" by (rule s1(1))
  show "ro s' = ro s" "length (pkt s') = length (pkt s)" using acc(1,2) by (simp_all add: s1(3))
  have "logs s' = logs s1" by (simp add: s1(3))
  then show "if raw = XFW_CTX_DROP then \<exists>a n reason. logs s' = logs (register_incident E a n reason s) else logs s' = logs s"
    using acc(3) by simp
  show "map_option st_transmitted (g_stats s') = map_option (\<lambda>g. if raw = XDP_TX
        then bumped (pkt_sz c) XFW_SYNCOOKIE_GENERATED (st_transmitted g) else st_transmitted g) (g_stats s)"
    using acc(4) tx0[of "\<lambda>x. if raw = XDP_TX then bumped (pkt_sz c) XFW_SYNCOOKIE_GENERATED x else x"]
    by (simp add: s1(3) count_traffic_stats(2))
  show "counted (pkt_sz c) XFW_TOTAL_DOWNSTREAM_INGRESS True s s'"
    using acc(5)[of XFW_TOTAL_DOWNSTREAM_INGRESS]
    by (simp add: counted_def s1(3) count_traffic_stats(3) s0_def entry_stats_def)
  show "counted (pkt_sz c) XFW_PASSED_DOWNSTREAM_INGRESS (raw = XFW_CTX_PASS) s s'"
    using acc(5)[of XFW_PASSED_DOWNSTREAM_INGRESS]
    by (cases "g_stats s1"; cases "g_stats s")
      (auto simp: counted_def s1(3) s0_def entry_stats_def count_traffic_stat_def)
qed

text \<open>
  C3. Every packet that reaches the filters is booked exactly once. The program decides on a
  verdict other than CONTINUE, which evaluation mode turns from DROP into PASS and leaves
  otherwise. The packet and its bytes are added to the ingress total; to the passed total
  exactly if the decision is PASS; to the transmitted SYN cookies exactly if it is TX; and
  the incident log changes exactly if it is DROP, by one registered incident. The rule maps
  and the length of the packet never change.
\<close>

theorem xdp_books_every_packet:
  assumes "reaches_filters E s" "xfw_xdp E s = (v, s')" "map_cfg (ro s) = Some cf"
  shows "\<exists>raw. v = (if raw = XFW_CTX_DROP \<and> evaluation_mode (rules cf) then XFW_CTX_PASS else raw) \<and>
    raw \<noteq> XFW_CTX_CONTINUE \<and> ro s' = ro s \<and> length (pkt s') = length (pkt s) \<and>
    counted (word_of_nat (length (pkt s))) XFW_TOTAL_DOWNSTREAM_INGRESS True s s' \<and>
    counted (word_of_nat (length (pkt s))) XFW_PASSED_DOWNSTREAM_INGRESS (raw = XFW_CTX_PASS) s s' \<and>
    map_option st_transmitted (g_stats s') =
      map_option (\<lambda>g. if raw = XDP_TX then bumped (word_of_nat (length (pkt s))) XFW_SYNCOOKIE_GENERATED (st_transmitted g)
                      else st_transmitted g) (g_stats s) \<and>
    (if raw = XFW_CTX_DROP then \<exists>a n reason. logs s' = logs (register_incident E a n reason s) else logs s' = logs s)"
proof -
  obtain c md where c: "xfw_ctx_init E s = Some c"
    and run: "xfw_xdp E s = (finalize_result c (fst (xfw_xdp_filter E c (s\<lparr>meta := md\<rparr>))),
      snd (xfw_xdp_filter E c (s\<lparr>meta := md\<rparr>)))"
    using assms(1) by (rule xfw_xdp_runs)
  have cf: "cfg c = cf" and sz: "pkt_sz c = word_of_nat (length (pkt s))"
    using xfw_ctx_init_Some[OF c] assms(3) by simp_all
  obtain raw where raw: "xfw_xdp_filter E c (s\<lparr>meta := md\<rparr>) = (raw, s')" "v = finalize_result c raw"
    using run assms(2) by (metis prod.collapse prod.inject)
  have b: "booked E c (count_traffic_stat c XFW_TOTAL_DOWNSTREAM_INGRESS (s\<lparr>meta := md\<rparr>)) (raw, s')"
    using xdp_filter_booked[of E c "s\<lparr>meta := md\<rparr>"] raw(1) by simp
  have l: "logs (register_incident E a n r (s\<lparr>meta := md\<rparr>)) = logs (register_incident E a n r s)" for a n r
    by (rule logs_register_cong) simp
  show ?thesis
    using booked_facts[OF b, unfolded sz l] raw(2)
    by (intro exI[of _ raw]) (simp add: finalize_result_def cf counted_def l)
qed

theorem xdp_books_every_packet_witness:
  "counted 43 XFW_TOTAL_DOWNSTREAM_INGRESS True udp_state (snd (xfw_xdp ref_env udp_state)) \<and>
   counted 43 XFW_PASSED_DOWNSTREAM_INGRESS True udp_state (snd (xfw_xdp ref_env udp_state))"
  using xdp_books_every_packet[OF udp_reaches prod.collapse[symmetric], where cf = ref_cfg] udp_pkt_passes
  by (auto simp: udp_state_fields ref_allows udp_pkt_parses split: if_splits)

end
