(* ===== verification/XdpPacket.thy ===== *)
theory XdpPacket
  imports Xdp
begin

text \<open>
  What the ingress program does to the bytes of a packet, and that evaluation mode changes
  nothing but the final answer.
\<close>

section \<open>What happens to the packet\<close>

text \<open>The packet was a SYN without other handshake flags and was answered with a SYN cookie.\<close>

definition syn_answered :: "env \<Rightarrow> XfwFilterCfg \<Rightarrow> packet \<Rightarrow> packet \<Rightarrow> bool" where
  "syn_answered E cf p q \<longleftrightarrow> deployment_mode E = XFW_MODE_HOST \<and> sc_enabled (syncookie (rules cf)) \<and>
     (\<exists>c th. cfg c = cf \<and> th + 20 \<le> length p \<and> tcp_syn p th \<and> \<not> tcp_ack p th \<and> \<not> tcp_fin p th \<and> \<not> tcp_rst p th \<and>
        cookie_sent E c th p q)"

lemma untouched_rcv_syn:
  assumes "th + 20 \<le> length (pkt s)"
  shows "untouched (\<lambda>p q. deployment_mode E = XFW_MODE_HOST \<and> sc_enabled (syncookie (rules (cfg c))) \<and> cookie_sent E c th p q)
    s (tcp_rcv_syn_filter E c th s)"
  unfolding tcp_rcv_syn_filter_def
  by (intro unt_intros refl untouched_mono[OF untouched_syn]) (simp_all add: assms)

lemma untouched_rcv_ack: "untouched R s (tcp_rcv_ack_filter E c th addr s)"
proof -
  have "untouched R z (if \<not> flood then tcp_auth_conn_ingress_filter E c addr TCP_AUTH_EVENT_NORMAL z
      else if tcp_auth_enabled (rules (cfg c)) \<and> tcp_auth_has_conn_trusted E c addr z then (XFW_CTX_CONTINUE, z)
      else CHAIN (tcp_syncookies_ack_filter E c th z) (\<lambda>s. (XFW_CTX_CONTINUE, tcp_auth_conn_add E addr s)))"
    for z flood
    by (intro unt_intros refl pkt_conn)
  note flood = untouched_from[OF this]
  show ?thesis
    unfolding tcp_rcv_ack_filter_def Let_def
    by (rule untouched_if untouched_option untouched_pass untouched_prod untouched_auth refl flood | simp)+
qed

lemma untouched_flags:
  assumes "th + 20 \<le> length (pkt s)" "cfg c = cf"
  shows "untouched (syn_answered E cf) s (tcp_flags_filter E c th addr s)"
proof -
  have syn: "untouched (syn_answered E cf) s (tcp_rcv_syn_filter E c th (count_traffic_stat c XFW_SYN s))"
    if "tcp_syn (pkt s) th" "\<not> tcp_ack (pkt s) th" "\<not> tcp_fin (pkt s) th" "\<not> tcp_rst (pkt s) th"
    by (rule untouched_from[OF untouched_mono[OF untouched_rcv_syn]])
      (use that assms in \<open>auto simp: syn_answered_def\<close>)
  note from_count = untouched_from[where s = s and ?s1.0 = "count_traffic_stat c _ s"]
  show ?thesis
    unfolding tcp_flags_filter_def Let_def
    by (auto intro!: unt_intros syn from_count[OF untouched_auth] from_count[OF untouched_rcv_ack])
qed

lemma untouched_tcp:
  assumes "in_process_tcp E c key s = (r, c')" "cur_end (hdr_cur c) = length (pkt s)"
  shows "untouched (syn_answered E (cfg c)) s r"
proof (rule untouched_counted[of _ c XFW_TCP_TOTAL_INGRESS])
  have "th + 20 \<le> length (pkt s)" if "parse_tcphdr (pkt s) (hdr_cur c) = (Inr (len, th), cur)" for len th cur
    using that assms(2) by (auto simp: parse_tcphdr_def Let_def split: if_splits option.splits)
  then show "untouched (syn_answered E (cfg c)) (count_traffic_stat c XFW_TCP_TOTAL_INGRESS s) r"
    using assms(1) unfolding in_process_tcp_def Let_def
    by (auto split: sum.splits if_splits prod.splits intro!: unt_intros untouched_flags)
qed

lemma untouched_udp:
  assumes "in_process_udp E c key s = (r, c')"
  shows "untouched R s r"
proof (rule untouched_counted[of _ c XFW_UDP_TOTAL_INGRESS])
  show "untouched R (count_traffic_stat c XFW_UDP_TOTAL_INGRESS s) r"
    using assms unfolding in_process_udp_def Let_def
    by (auto split: sum.splits if_split_asm prod.splits intro!: unt_intros untouched_gate[OF gate_dns])
qed

lemma untouched_icmp:
  assumes "in_process_icmp E c key s = (r, c')"
  shows "untouched R s r"
proof (rule untouched_counted[of _ c XFW_ICMP_TOTAL_INGRESS])
  show "untouched R (count_traffic_stat c XFW_ICMP_TOTAL_INGRESS s) r"
    using assms unfolding in_process_icmp_def Let_def
    by (auto split: sum.splits if_splits prod.splits intro!: unt_intros)
qed

lemma untouched_l4:
  assumes "in_process_l4 E c key s = (r, c')" "cur_end (hdr_cur c) = length (pkt s)"
  shows "untouched (syn_answered E (cfg c)) s r"
  using assms unfolding in_process_l4_def
  by (auto split: if_splits intro: untouched_tcp untouched_udp untouched_icmp unt_intros)

lemma untouched_l3:
  assumes "in_process_l3 E c key s = (r, c', key')"
  shows "untouched R s r \<and> cfg c' = cfg c \<and> cur_end (hdr_cur c') = cur_end (hdr_cur c)"
proof -
  have e: "parse_iphdr (pkt s) (hdr_cur c) = (x4, cur) \<Longrightarrow> cur_end cur = cur_end (hdr_cur c)"
    "parse_ip6hdr (pkt s) (hdr_cur c) = (x6, cu) \<Longrightarrow> cur_end cu = cur_end (hdr_cur c)"
    "parse_ip6hdr (pkt s) (hdr_cur c) = (x6, cu) \<Longrightarrow> skip_ip6hdrext (pkt s) cu nh = (xe, cur) \<Longrightarrow>
       cur_end cur = cur_end (hdr_cur c)" for x4 x6 xe cur cu nh
    using ip4.prs_end[of "pkt s" "hdr_cur c"] ip6.prs_end[of "pkt s" "hdr_cur c"] ip6ext.prs_end[of "pkt s" cu nh]
    by simp_all
  show ?thesis
    using assms unfolding in_process_l3_def Let_def
    by (auto split: sum.splits if_splits prod.splits intro!: unt_intros intro: e)
qed

lemma untouched_pass_all:
  assumes "untouched R s r" "\<And>s1. pkt s1 = pkt s \<Longrightarrow> untouched R s1 (k s1)"
  shows "untouched R s (CHAIN_PASS_ALL c r k)"
proof (cases "fst r = XFW_CTX_CONTINUE")
  case True
  then have "pkt (snd r) = pkt s" using assms(1) by (simp add: untouched_def)
  then show ?thesis using True untouched_from[OF assms(2)] by (simp add: CHAIN_PASS_ALL_def)
qed (use assms(1) in \<open>auto simp: CHAIN_PASS_ALL_def xdp_pass_def untouched_def\<close>)

lemma untouched_xdp_filter:
  assumes "cur_end (hdr_cur c) = length (pkt s)"
  shows "untouched (syn_answered E (cfg c)) s (xfw_xdp_filter E c s)"
proof (rule untouched_counted[of _ c XFW_TOTAL_DOWNSTREAM_INGRESS])
  define s1 where "s1 = count_traffic_stat c XFW_TOTAL_DOWNSTREAM_INGRESS s"
  have s1: "pkt s1 = pkt s" by (simp add: s1_def)
  let ?R = "syn_answered E (cfg c)"
  have dst: "untouched ?R z (CHAIN_PASS_ALL x (xfw_dst_filter E x z) (xdp_pass x))" for z x
    by (intro untouched_pass_all unt_intros) (simp add: xdp_pass_def unt_intros)
  have l4: "untouched ?R z (CHAIN_PASS_ALL y r (\<lambda>s. CHAIN_PASS_ALL y (xfw_dst_filter E y s) (xdp_pass y)))"
    if "in_process_l4 E x key z = (r, y)" "cfg x = cfg c" "cur_end (hdr_cur x) = length (pkt z)" for z x key r y
    using untouched_l4[OF that(1,3)] that(2) dst by (auto intro: untouched_pass_all)
  have l3: "untouched ?R z (CHAIN_PASS_ALL y r (\<lambda>s. case in_process_l4 E y key' s of (r, y) \<Rightarrow>
      CHAIN_PASS_ALL y r (\<lambda>s. CHAIN_PASS_ALL y (xfw_dst_filter E y s) (xdp_pass y))))"
    if "in_process_l3 E x key z = (r, y, key')" "cfg x = cfg c" "cur_end (hdr_cur x) = length (pkt z)" for z x key r y key'
    using untouched_l3[OF that(1)] that(2,3)
    by (intro untouched_pass_all) (auto split: prod.split intro!: l4)
  have e: "parse_ethhdr (pkt s1) (hdr_cur c) = (x, cur) \<Longrightarrow> cur_end cur = length (pkt s1)" for x cur
    using eth.prs_end[of "pkt s1" "hdr_cur c"] assms s1 by simp
  show "untouched ?R s1 (xfw_xdp_filter E c s)"
    unfolding xfw_xdp_filter_def s1_def[symmetric] Let_def
    by (auto split: sum.split prod.split intro!: unt_intros l3 simp: e)
qed

text \<open>
  C4. The program never changes a packet it lets through. Outside evaluation mode, a packet
  passed to the stack has the bytes it came with. A packet sent back was a SYN without
  ACK, FIN or RST, on a host with SYN cookies enabled, and what is sent is the SYN-ACK made
  from it with a cookie of the kernel.
\<close>

theorem xdp_passes_packets_unmodified:
  assumes "xfw_xdp E s = (v, s')" "map_cfg (ro s) = Some cf"
  shows "(v = XFW_CTX_PASS \<and> \<not> evaluation_mode (rules cf) \<longrightarrow> pkt s' = pkt s) \<and>
    (v = XDP_TX \<longrightarrow> syn_answered E cf (pkt s) (pkt s'))"
proof (cases "reaches_filters E s")
  case True
  then obtain c md where c: "xfw_ctx_init E s = Some c"
    and run: "xfw_xdp E s = (finalize_result c (fst (xfw_xdp_filter E c (s\<lparr>meta := md\<rparr>))),
      snd (xfw_xdp_filter E c (s\<lparr>meta := md\<rparr>)))"
    by (rule xfw_xdp_runs)
  have "cfg c = cf" "cur_end (hdr_cur c) = length (pkt (s\<lparr>meta := md\<rparr>))"
    using xfw_ctx_init_Some[OF c] assms(2) by simp_all
  then show ?thesis
    using untouched_xdp_filter[of c "s\<lparr>meta := md\<rparr>" E] run assms(1)
    by (auto simp: untouched_def finalize_result_def split: if_splits)
next
  case False
  then show ?thesis
    using assms(1) by (auto simp: reaches_filters_def xfw_xdp_def create_metadata_def XFW_MAKE_CTX_PASS_def
        finalize_result_def split: option.splits)
qed

theorem xdp_passes_packets_unmodified_witness: "pkt (snd (xfw_xdp ref_env udp_state)) = udp_pkt"
  using xdp_passes_packets_unmodified[OF prod.collapse[symmetric], where E = ref_env and s = udp_state and cf = ref_cfg] udp_pkt_passes
  by (simp add: udp_state_fields ref_allows)


section \<open>Evaluation mode is a dry run\<close>

definition with_evaluation :: "bool \<Rightarrow> XfwGlobalCtx \<Rightarrow> XfwGlobalCtx" where
  "with_evaluation b c = c\<lparr>cfg := (cfg c)\<lparr>rules := (rules (cfg c))\<lparr>evaluation_mode := b\<rparr>\<rparr>\<rparr>"

named_theorems eval_simps

lemma with_evaluation_fields [simp, eval_simps]:
  "hdr_cur (with_evaluation b c) = hdr_cur c" "ilog_addr (with_evaluation b c) = ilog_addr c"
  "ts_jiff (with_evaluation b c) = ts_jiff c" "pkt_sz (with_evaluation b c) = pkt_sz c"
  "ipver (with_evaluation b c) = ipver c" "l4_off (with_evaluation b c) = l4_off c"
  "ip_off (with_evaluation b c) = ip_off c" "l4_proto (with_evaluation b c) = l4_proto c"
  by (simp_all add: with_evaluation_def)

lemma with_evaluation_cfg [simp, eval_simps]:
  "rules_active (cfg (with_evaluation b c)) = rules_active (cfg c)"
  "amap_src (cfg (with_evaluation b c)) = amap_src (cfg c)" "amap_icmp (cfg (with_evaluation b c)) = amap_icmp (cfg c)"
  "amap_dst (cfg (with_evaluation b c)) = amap_dst (cfg c)" "rl_window (cfg (with_evaluation b c)) = rl_window (cfg c)"
  "named_rates (cfg (with_evaluation b c)) = named_rates (cfg c)"
  "ip_protocols (rules (cfg (with_evaluation b c))) = ip_protocols (rules (cfg c))"
  "syncookie (rules (cfg (with_evaluation b c))) = syncookie (rules (cfg c))"
  "tcp_anomaly (rules (cfg (with_evaluation b c))) = tcp_anomaly (rules (cfg c))"
  "tcp_auth_enabled (rules (cfg (with_evaluation b c))) = tcp_auth_enabled (rules (cfg c))"
  "dns_enabled (rules (cfg (with_evaluation b c))) = dns_enabled (rules (cfg c))"
  "tcp_flags (rules (cfg (with_evaluation b c))) = tcp_flags (rules (cfg c))"
  "defaults (rules (cfg (with_evaluation b c))) = defaults (rules (cfg c))"
  "evaluation_mode (rules (cfg (with_evaluation b c))) = b"
  by (simp_all add: with_evaluation_def)

lemma with_evaluation_updates:
  "(with_evaluation b c)\<lparr>hdr_cur := h\<rparr> = with_evaluation b (c\<lparr>hdr_cur := h\<rparr>)"
  "(with_evaluation b c)\<lparr>ilog_addr := a\<rparr> = with_evaluation b (c\<lparr>ilog_addr := a\<rparr>)"
  "(with_evaluation b c)\<lparr>ipver := v\<rparr> = with_evaluation b (c\<lparr>ipver := v\<rparr>)"
  "(with_evaluation b c)\<lparr>l4_off := lo\<rparr> = with_evaluation b (c\<lparr>l4_off := lo\<rparr>)"
  "(with_evaluation b c)\<lparr>ip_off := io\<rparr> = with_evaluation b (c\<lparr>ip_off := io\<rparr>)"
  "(with_evaluation b c)\<lparr>l4_proto := lp\<rparr> = with_evaluation b (c\<lparr>l4_proto := lp\<rparr>)"
  by (simp_all add: with_evaluation_def)

lemma eval_basics [eval_simps]:
  "count_traffic_stat (with_evaluation b c) = count_traffic_stat c"
  "count_pass_stat (with_evaluation b c) = count_pass_stat c"
  "XFW_MAKE_CTX_DROP E (with_evaluation b c) = XFW_MAKE_CTX_DROP E c"
  "XFW_MAKE_CTX_PASS (with_evaluation b c) = XFW_MAKE_CTX_PASS c"
  "MAKE_XDP_TX (with_evaluation b c) = MAKE_XDP_TX c"
  "XFW_ASSERT v (with_evaluation b c) = XFW_ASSERT v c"
  "xfw_is_within_rlimit (with_evaluation b c) = xfw_is_within_rlimit c"
  by (simp_all add: fun_eq_iff count_traffic_stat_def count_pass_stat_def count_tx_stat_def XFW_MAKE_CTX_DROP_def
      XFW_MAKE_CTX_PASS_def MAKE_XDP_TX_def XFW_ASSERT_def xfw_is_within_rlimit_def Let_def)

lemma eval_rlimits [eval_simps]:
  "xfw_is_allowed_by_rlimits (with_evaluation b c) = xfw_is_allowed_by_rlimits c"
  unfolding fun_eq_iff xfw_is_allowed_by_rlimits_def eval_simps by simp

lemma eval_rules [eval_simps]:
  "icmp_filter E (with_evaluation b c) = icmp_filter E c"
  "src_filter_ip E (with_evaluation b c) = src_filter_ip E c"
  "src_filter_port E (with_evaluation b c) = src_filter_port E c"
  "syn_rlimit E (with_evaluation b c) = syn_rlimit E c" "rst_rlimit E (with_evaluation b c) = rst_rlimit E c"
  "xfw_dst_filter E (with_evaluation b c) = xfw_dst_filter E c"
  "tcp_anomaly_filter E (with_evaluation b c) = tcp_anomaly_filter E c"
  "tcp_auth_conn_ingress_filter E (with_evaluation b c) = tcp_auth_conn_ingress_filter E c"
  "tcp_auth_has_conn_trusted E (with_evaluation b c) = tcp_auth_has_conn_trusted E c"
  "ingress_dns_filter E (with_evaluation b c) = ingress_dns_filter E c"
  unfolding fun_eq_iff icmp_filter_def src_filter_ip_def populate_src_info_def src_ip_rlimit_def
    src_filter_port_def src_port_rlimit_def syn_rlimit_def rst_rlimit_def xfw_dst_filter_def populate_dst_info_def
    tcp_anomaly_filter_def tcp_auth_conn_ingress_filter_def tcp_auth_is_conn_outdated_def tcp_auth_has_conn_trusted_def
    ingress_dns_filter_def eval_simps by simp_all

lemma eval_src_filter [eval_simps]: "src_filter E (with_evaluation b c) = src_filter E c"
  unfolding fun_eq_iff src_filter_def eval_simps by simp

lemma eval_synack [eval_simps]:
  "tcp_syncookies_flood_mode (with_evaluation b c) = tcp_syncookies_flood_mode c"
  "tcp_syncookies_passive_mode (with_evaluation b c) = tcp_syncookies_passive_mode c"
  "tcp_sk_listen_lookup E (with_evaluation b c) = tcp_sk_listen_lookup E c"
  "tcp_syncookies_make_synack E (with_evaluation b c) = tcp_syncookies_make_synack E c"
  "syncookie_failed E (with_evaluation b c) = syncookie_failed E c"
  unfolding fun_eq_iff tcp_syncookies_flood_mode_def tcp_syncookies_passive_mode_def tcp_sk_listen_lookup_def
    tcp_syncookies_make_synack_def syncookie_failed_def eval_simps by simp_all

lemma eval_cookies [eval_simps]:
  "syncookie_reply E (with_evaluation b c) = syncookie_reply E c"
  "tcp_syncookies_ack_filter E (with_evaluation b c) = tcp_syncookies_ack_filter E c"
  unfolding fun_eq_iff syncookie_reply_def tcp_syncookies_ack_filter_def eval_simps by simp_all

lemma eval_try [eval_simps]: "syncookie_try E (with_evaluation b c) = syncookie_try E c"
  unfolding fun_eq_iff syncookie_try_def eval_simps by simp

lemma eval_handshake [eval_simps]:
  "tcp_syncookies_syn_filter E (with_evaluation b c) = tcp_syncookies_syn_filter E c"
  "tcp_rcv_ack_filter E (with_evaluation b c) = tcp_rcv_ack_filter E c"
  unfolding fun_eq_iff tcp_syncookies_syn_filter_def tcp_rcv_ack_filter_def eval_simps by simp_all

lemma eval_rcv_syn [eval_simps]: "tcp_rcv_syn_filter E (with_evaluation b c) = tcp_rcv_syn_filter E c"
  unfolding fun_eq_iff tcp_rcv_syn_filter_def eval_simps by simp

lemma eval_flags [eval_simps]: "tcp_flags_filter E (with_evaluation b c) = tcp_flags_filter E c"
  unfolding fun_eq_iff tcp_flags_filter_def eval_simps by simp

lemma eval_stages:
  "in_process_tcp E (with_evaluation b c) key s = apsnd (with_evaluation b) (in_process_tcp E c key s)"
  "in_process_udp E (with_evaluation b c) key s = apsnd (with_evaluation b) (in_process_udp E c key s)"
  "in_process_icmp E (with_evaluation b c) key s = apsnd (with_evaluation b) (in_process_icmp E c key s)"
  unfolding in_process_tcp_def in_process_udp_def in_process_icmp_def Let_def with_evaluation_updates eval_simps
  by (simp_all split: prod.split sum.split)

lemma eval_l4: "in_process_l4 E (with_evaluation b c) key s = apsnd (with_evaluation b) (in_process_l4 E c key s)"
  unfolding in_process_l4_def eval_stages eval_simps by simp

lemma eval_l3: "in_process_l3 E (with_evaluation b c) key s = apsnd (apfst (with_evaluation b)) (in_process_l3 E c key s)"
  unfolding in_process_l3_def Let_def with_evaluation_updates eval_simps
  by (simp split: prod.split sum.split)

lemma eval_chain [eval_simps]:
  "xdp_pass (with_evaluation b c) = xdp_pass c" "CHAIN_PASS_ALL (with_evaluation b c) = CHAIN_PASS_ALL c"
  unfolding fun_eq_iff xdp_pass_def CHAIN_PASS_ALL_def eval_simps by simp_all

lemma eval_xdp_filter: "xfw_xdp_filter E (with_evaluation b c) s = xfw_xdp_filter E c s"
  unfolding xfw_xdp_filter_def Let_def with_evaluation_updates eval_l3 eval_simps
  by (simp add: eval_l4 eval_simps case_prod_beta split: sum.split)

text \<open>
  C28. Evaluation mode is a dry run: the flag does not influence what the filters do to the
  state or what they decide, and the program's answer differs from the enforcing one
  exactly in that a DROP becomes a PASS.
\<close>

theorem evaluation_mode_is_dry_run:
  "xfw_xdp_filter E (with_evaluation True c) s = xfw_xdp_filter E (with_evaluation False c) s \<and>
   finalize_result (with_evaluation False c) v = v \<and>
   finalize_result (with_evaluation True c) v = (if v = XFW_CTX_DROP then XFW_CTX_PASS else v)"
  by (simp add: eval_xdp_filter finalize_result_def)

end
