(* ===== verification/XdpRules.thy ===== *)
theory XdpRules
  imports XdpPacket
begin

text \<open>
  How the stages of the ingress program decide for a whole packet: what it lets in is well
  formed, a blocked source does not get in, and the destination rules see the packet's own
  addresses.
\<close>

section \<open>Rules decide for whole packets\<close>

text \<open>A packet that is not dropped got past every stage.\<close>

lemma xdp_filter_not_drop:
  assumes "rules_active (cfg c)" "fst (xfw_xdp_filter E c s) \<noteq> XFW_CTX_DROP"
  obtains h_proto cur r c1 key1 where "parse_ethhdr (pkt s) (hdr_cur c) = (Inr h_proto, cur)"
    "in_process_l3 E (c\<lparr>hdr_cur := cur, ipver := h_proto\<rparr>) zero_lpm_key
       (count_traffic_stat c XFW_TOTAL_DOWNSTREAM_INGRESS s) = (r, c1, key1)"
    "fst r \<noteq> XFW_CTX_DROP"
    "fst r = XFW_CTX_CONTINUE \<Longrightarrow> fst (fst (in_process_l4 E c1 key1 (snd r))) \<noteq> XFW_CTX_DROP"
proof -
  obtain x cur where x: "parse_ethhdr (pkt s) (hdr_cur c) = (x, cur)" by fastforce
  show ?thesis
  proof (cases x)
    case (Inl a)
    then show ?thesis using assms x by (simp add: xfw_xdp_filter_def XFW_MAKE_CTX_DROP_def)
  next
    case (Inr h_proto)
    obtain r c1 key1 where l3: "in_process_l3 E (c\<lparr>hdr_cur := cur, ipver := h_proto\<rparr>) zero_lpm_key
       (count_traffic_stat c XFW_TOTAL_DOWNSTREAM_INGRESS s) = (r, c1, key1)" by (metis prod.collapse)
    have "fst (CHAIN_PASS_ALL c1 r (\<lambda>s. case in_process_l4 E c1 key1 s of (r, c) \<Rightarrow>
           CHAIN_PASS_ALL c r (\<lambda>s. CHAIN_PASS_ALL c (xfw_dst_filter E c s) (xdp_pass c)))) \<noteq> XFW_CTX_DROP"
      using assms x Inr l3 by (simp add: xfw_xdp_filter_def Let_def)
    then have "fst r \<noteq> XFW_CTX_DROP"
      "fst r = XFW_CTX_CONTINUE \<Longrightarrow> fst (fst (in_process_l4 E c1 key1 (snd r))) \<noteq> XFW_CTX_DROP"
      by (auto simp: CHAIN_PASS_ALL_def case_prod_beta split: if_splits)
    then show ?thesis using that x Inr l3 by blast
  qed
qed

text \<open>What the layer 3 stage leaves in the context and the key of a packet it does not drop.\<close>

lemma l3_not_drop:
  assumes "in_process_l3 E c key s = (r, c', key')" "fst r \<noteq> XFW_CTX_DROP" "pos (hdr_cur c) \<le> L3_OFF_MAX"
  shows "ipver c = bpf_ntohs ETH_P_ARP \<or>
    (fst r = XFW_CTX_CONTINUE \<and> ro (snd r) = ro s \<and> pkt (snd r) = pkt s \<and> ipver c' = ipver c \<and> cfg c' = cfg c \<and>
     (ipver c = bpf_ntohs ETH_P_IP \<and>
        (\<exists>iph cur. parse_iphdr (pkt s) (hdr_cur c) = (Inr (l4_proto c', iph), cur) \<and> hdr_cur c' = cur \<and>
           ip_off c' = word_of_nat iph \<and> bpf_htons (ip_frag_off (pkt s) iph) AND 0x3FFF = 0 \<and>
           key4 key' = ipv4_populate_lpm_key (ip_saddr (pkt s) iph)) \<or>
      ipver c = bpf_ntohs ETH_P_IPV6 \<and>
        (\<exists>iph cur cur'. parse_ip6hdr (pkt s) (hdr_cur c) = (Inr iph, cur) \<and>
           skip_ip6hdrext (pkt s) cur (ip6_nexthdr (pkt s) iph) = (Inr (l4_proto c'), cur') \<and> hdr_cur c' = cur' \<and>
           ip_off c' = word_of_nat iph \<and> key6 key' = ipv6_populate_lpm_key (ip6_saddr (pkt s) iph))))"
proof -
  have i4: "parse_iphdr (pkt s) (hdr_cur c) = (Inr (x, iph), cur) \<Longrightarrow> iph \<le> L3_OFF_MAX" for x iph cur
    using assms(3) by (auto simp: parse_iphdr_def Let_def split: if_splits option.splits)
  have i6: "parse_ip6hdr (pkt s) (hdr_cur c) = (Inr iph, cur) \<Longrightarrow> iph \<le> L3_OFF_MAX" for iph cur
    using assms(3) by (auto simp: parse_ip6hdr_def Let_def split: if_splits)
  show ?thesis
    using assms(1,2) unfolding in_process_l3_def Let_def
    by (auto split: sum.splits if_splits prod.splits simp: XFW_MAKE_CTX_DROP_def dest: i4 i6)
qed

lemma src_filter_blocked:
  assumes "fst (populate_src_info E c key s) = Some r" "sr_action r = XFW_ACTION_BLOCK"
  shows "fst (src_filter E c port key s) = XFW_CTX_DROP"
  by (simp add: src_filter_def src_filter_ip_blocked[OF assms] CHAIN_def XFW_MAKE_CTX_DROP_def)

lemma populate_src_info_cong:
  "ro z = ro s \<Longrightarrow> populate_src_info E (c\<lparr>hdr_cur := h, l4_off := l\<rparr>) key z = populate_src_info E c key s"
  by (simp add: populate_src_info_def)

lemma l4_blocked:
  assumes "fst (populate_src_info E c key s) = Some r" "sr_action r = XFW_ACTION_BLOCK"
    "l4_proto c \<in> {XFW_L4_PROTO_TCP, XFW_L4_PROTO_UDP}"
  shows "fst (fst (in_process_l4 E c key s)) = XFW_CTX_DROP"
proof -
  have src: "fst (src_filter E (c\<lparr>hdr_cur := h, l4_off := l\<rparr>) port key z) = XFW_CTX_DROP" if "ro z = ro s" for h l port z
    using src_filter_blocked[of E "c\<lparr>hdr_cur := h, l4_off := l\<rparr>" key z r port] populate_src_info_cong[OF that, where E = E and c = c and h = h and l = l and key = key]
      assms(1,2) by simp
  have ro: "ro (snd (tcp_anomaly_filter E x th z)) = ro z" "ro (snd (ingress_dns_filter E x th z)) = ro z" for x th z
    by (rule tcp_anom.flt_ro, rule dns.flt_ro)
  have v: "fst (tcp_anomaly_filter E x th z) \<noteq> XFW_CTX_CONTINUE \<Longrightarrow> fst (tcp_anomaly_filter E x th z) = XFW_CTX_DROP"
    "fst (ingress_dns_filter E x th z) \<noteq> XFW_CTX_CONTINUE \<Longrightarrow> fst (ingress_dns_filter E x th z) = XFW_CTX_DROP" for x th z
    using tcp_anomaly_verdict[of E x th z] gate_dns[of z E x th] by (auto simp: gate_def)
  have "fst (fst (in_process_tcp E c key s)) = XFW_CTX_DROP"
    unfolding in_process_tcp_def Let_def
    by (auto split: sum.split prod.split simp: XFW_MAKE_CTX_DROP_def CHAIN_def src ro v)
  moreover have "fst (fst (in_process_udp E c key s)) = XFW_CTX_DROP"
    unfolding in_process_udp_def Let_def
    by (auto split: sum.split prod.split simp: XFW_MAKE_CTX_DROP_def CHAIN_def src ro v)
  ultimately show ?thesis
    using assms(3) unfolding in_process_l4_def by (auto simp: XFW_MAKE_CTX_DROP_def)
qed
lemma xdp_not_drop:
  assumes "reaches_filters E s" "map_cfg (ro s) = Some cf" "rules_active cf" "\<not> evaluation_mode (rules cf)"
    "fst (xfw_xdp E s) \<noteq> XFW_CTX_DROP"
  obtains cur c0 s0 r c1 key1 where "parse_ethhdr (pkt s) \<lparr>pos = 0, cur_end = length (pkt s)\<rparr> = (Inr (ipver c0), cur)"
    "in_process_l3 E c0 zero_lpm_key s0 = (r, c1, key1)" "fst r \<noteq> XFW_CTX_DROP" "pos (hdr_cur c0) \<le> L3_OFF_MAX"
    "hdr_cur c0 = cur" "cfg c0 = cf" "pkt s0 = pkt s" "ro s0 = ro s" "tcp_conn s0 = tcp_conn s" "syncookies s0 = syncookies s"
    "fst r = XFW_CTX_CONTINUE \<Longrightarrow> fst (fst (in_process_l4 E c1 key1 (snd r))) \<noteq> XFW_CTX_DROP"
proof -
  obtain c md where c: "xfw_ctx_init E s = Some c"
    and run: "xfw_xdp E s = (finalize_result c (fst (xfw_xdp_filter E c (s\<lparr>meta := md\<rparr>))),
      snd (xfw_xdp_filter E c (s\<lparr>meta := md\<rparr>)))"
    using assms(1) by (rule xfw_xdp_runs)
  have cf: "cfg c = cf" "hdr_cur c = \<lparr>pos = 0, cur_end = length (pkt s)\<rparr>"
    using xfw_ctx_init_Some[OF c] assms(2) by simp_all
  have "rules_active (cfg c)" "fst (xfw_xdp_filter E c (s\<lparr>meta := md\<rparr>)) \<noteq> XFW_CTX_DROP"
    using assms(3-5) run cf by (auto simp: finalize_result_def)
  then obtain h_proto cur r c1 key1 where e: "parse_ethhdr (pkt s) (hdr_cur c) = (Inr h_proto, cur)"
    and l3: "in_process_l3 E (c\<lparr>hdr_cur := cur, ipver := h_proto\<rparr>) zero_lpm_key
       (count_traffic_stat c XFW_TOTAL_DOWNSTREAM_INGRESS (s\<lparr>meta := md\<rparr>)) = (r, c1, key1)"
    and nd: "fst r \<noteq> XFW_CTX_DROP" "fst r = XFW_CTX_CONTINUE \<Longrightarrow> fst (fst (in_process_l4 E c1 key1 (snd r))) \<noteq> XFW_CTX_DROP"
    by (rule xdp_filter_not_drop) simp
  have "pos cur \<le> L3_OFF_MAX" using parse_ethhdr_bounds[OF e] cf(2) by simp
  then show ?thesis using e cf nd by (intro that[OF _ l3]) simp_all
qed

text \<open>
  C13. With rules active and enforced, whatever is not dropped has an Ethernet header, with at
  most two VLAN tags, that parses, and is ARP, or IPv4 with a header that parses, no fragment
  and a protocol the configuration supports, or IPv6 with a header and a chain of extension
  headers that parse and a supported protocol.
\<close>

theorem xdp_passes_only_wellformed:
  assumes "reaches_filters E s" "map_cfg (ro s) = Some cf" "rules_active cf" "\<not> evaluation_mode (rules cf)"
    "fst (xfw_xdp E s) \<noteq> XFW_CTX_DROP"
  shows "\<exists>h_proto cur. parse_ethhdr (pkt s) \<lparr>pos = 0, cur_end = length (pkt s)\<rparr> = (Inr h_proto, cur) \<and>
    (h_proto = bpf_ntohs ETH_P_ARP \<or>
     h_proto = bpf_ntohs ETH_P_IP \<and> (\<exists>proto iph cur'. parse_iphdr (pkt s) cur = (Inr (proto, iph), cur') \<and>
        bpf_htons (ip_frag_off (pkt s) iph) AND 0x3FFF = 0 \<and> bpf_bitset64_test (ip_protocols (rules cf)) proto) \<or>
     h_proto = bpf_ntohs ETH_P_IPV6 \<and> (\<exists>proto iph cur' cur''. parse_ip6hdr (pkt s) cur = (Inr iph, cur') \<and>
        skip_ip6hdrext (pkt s) cur' (ip6_nexthdr (pkt s) iph) = (Inr proto, cur'') \<and>
        bpf_bitset64_test (ip_protocols (rules cf)) proto))"
proof -
  obtain cur c0 s0 r c1 key1 where e: "parse_ethhdr (pkt s) \<lparr>pos = 0, cur_end = length (pkt s)\<rparr> = (Inr (ipver c0), cur)"
    and l3: "in_process_l3 E c0 zero_lpm_key s0 = (r, c1, key1)" "fst r \<noteq> XFW_CTX_DROP" "pos (hdr_cur c0) \<le> L3_OFF_MAX"
    and c0: "hdr_cur c0 = cur" "cfg c0 = cf" "pkt s0 = pkt s"
    and l4: "fst r = XFW_CTX_CONTINUE \<Longrightarrow> fst (fst (in_process_l4 E c1 key1 (snd r))) \<noteq> XFW_CTX_DROP"
    using assms by (rule xdp_not_drop) blast
  have "bpf_bitset64_test (ip_protocols (rules cf)) (l4_proto c1)" if "fst r = XFW_CTX_CONTINUE" "cfg c1 = cfg c0"
    using l4[OF that(1)] that(2) c0 by (auto simp: in_process_l4_def XFW_MAKE_CTX_DROP_def split: if_splits)
  then show ?thesis
    using l3_not_drop[OF l3] e c0 by auto
qed

theorem xdp_passes_only_wellformed_witness:
  "\<exists>cur. parse_ethhdr udp_pkt \<lparr>pos = 0, cur_end = 43\<rparr> = (Inr (bpf_ntohs ETH_P_IP), cur) \<and>
     (\<exists>proto iph cur'. parse_iphdr udp_pkt cur = (Inr (proto, iph), cur') \<and> bpf_bitset64_test (ip_protocols ref_rules) proto)"
  using xdp_passes_only_wellformed[OF udp_reaches, where cf = ref_cfg] udp_pkt_passes
  by (auto simp: udp_state_fields ref_allows udp_pkt_parses)

text \<open>
  With rules active and enforced, and a trie that finds the longest prefix, no IPv4 TCP or
  UDP packet gets in whose source address is blocked by the most specific source rule of
  its protocol.
\<close>

lemma blocked_source_dropped:
  assumes "reaches_filters E s" "map_cfg (ro s) = Some cf" "rules_active cf" "\<not> evaluation_mode (rules cf)"
    "lpm4_law E" "parse_ethhdr (pkt s) \<lparr>pos = 0, cur_end = length (pkt s)\<rparr> = (Inr (bpf_htons ETH_P_IP), cur)"
    "parse_iphdr (pkt s) cur = (Inr (proto, iph), cur')" "proto \<in> {XFW_L4_PROTO_TCP, XFW_L4_PROTO_UDP}"
    "src_rule_is s cf proto (ip_saddr (pkt s) iph) rl" "sr_action rl = XFW_ACTION_BLOCK"
  shows "fst (xfw_xdp E s) = XFW_CTX_DROP"
proof (rule ccontr)
  assume "fst (xfw_xdp E s) \<noteq> XFW_CTX_DROP"
  with assms(1-4) obtain cu c0 s0 r c1 key1 where e: "parse_ethhdr (pkt s) \<lparr>pos = 0, cur_end = length (pkt s)\<rparr> = (Inr (ipver c0), cu)"
    and l3: "in_process_l3 E c0 zero_lpm_key s0 = (r, c1, key1)" "fst r \<noteq> XFW_CTX_DROP" "pos (hdr_cur c0) \<le> L3_OFF_MAX"
    and c0: "hdr_cur c0 = cu" "cfg c0 = cf" "pkt s0 = pkt s" "ro s0 = ro s"
    and l4: "fst r = XFW_CTX_CONTINUE \<Longrightarrow> fst (fst (in_process_l4 E c1 key1 (snd r))) \<noteq> XFW_CTX_DROP"
    by (rule xdp_not_drop) blast
  have "ipver c0 = bpf_htons ETH_P_IP" "cu = cur" using e assms(6) by simp_all
  then have r: "fst r = XFW_CTX_CONTINUE" "ro (snd r) = ro s" "ipver c1 = bpf_htons ETH_P_IP" "cfg c1 = cf"
    "l4_proto c1 = proto" "addr4 (key4 key1) = ip_saddr (pkt s) iph"
    using l3_not_drop[OF l3] assms(7) c0 by (auto simp: ipv4_populate_lpm_key_def)
  have "fst (populate_src_info E c1 key1 (snd r)) = Some rl"
    using assms(9) r by (intro populate_src_info_best4[OF assms(5)]) (auto simp: src_rule_is_def)
  then show False using l4_blocked[OF _ assms(10)] l4 r(1,5) assms(8) by blast
qed


section \<open>The destination lookup\<close>

lemma l4_continue:
  assumes "in_process_l4 E c key s = ((XFW_CTX_CONTINUE, s'), c')" "cur_end (hdr_cur c) = length (pkt s)"
  shows "\<exists>h. h \<le> L4_OFF_MAX \<and> c' = c\<lparr>hdr_cur := hdr_cur c', l4_off := word_of_nat h\<rparr> \<and> cur_end (hdr_cur c') = length (pkt s) \<and>
    (l4_proto c = XFW_L4_PROTO_TCP \<and> h + 20 \<le> length (pkt s) \<or> l4_proto c = XFW_L4_PROTO_UDP \<and> h + 8 \<le> length (pkt s))"
proof -
  have tcp: "th + 20 \<le> length (pkt s) \<and> cur_end cur = length (pkt s)"
    if "parse_tcphdr (pkt s) (hdr_cur c) = (Inr (len, th), cur)" for len th cur
    using that assms(2) by (auto simp: parse_tcphdr_def Let_def CUR_ADVANCE_Some split: if_splits option.splits)
  have udp: "uh + 8 \<le> length (pkt s) \<and> cur_end cur = length (pkt s)"
    if "parse_udphdr (pkt s) (hdr_cur c) = (Inr (len, uh), cur)" for len uh cur
    using that assms(2) by (auto simp: parse_udphdr_def Let_def split: if_splits)
  have icmp: "fst (fst (in_process_icmp E c key s)) \<noteq> XFW_CTX_CONTINUE"
    by (auto simp: in_process_icmp_def Let_def CHAIN_def XFW_MAKE_CTX_DROP_def split: sum.split prod.split)
  have "in_process_tcp E c key s = ((XFW_CTX_CONTINUE, s'), c') \<Longrightarrow> \<exists>h. h \<le> L4_OFF_MAX \<and>
      c' = c\<lparr>hdr_cur := hdr_cur c', l4_off := word_of_nat h\<rparr> \<and> cur_end (hdr_cur c') = length (pkt s) \<and> h + 20 \<le> length (pkt s)"
    unfolding in_process_tcp_def Let_def
    by (auto split: sum.splits if_splits prod.splits simp: XFW_MAKE_CTX_DROP_def not_less dest!: tcp)
  moreover have "in_process_udp E c key s = ((XFW_CTX_CONTINUE, s'), c') \<Longrightarrow> \<exists>h. h \<le> L4_OFF_MAX \<and>
      c' = c\<lparr>hdr_cur := hdr_cur c', l4_off := word_of_nat h\<rparr> \<and> cur_end (hdr_cur c') = length (pkt s) \<and> h + 8 \<le> length (pkt s)"
    unfolding in_process_udp_def Let_def
    by (auto split: sum.splits if_split_asm prod.splits simp: XFW_MAKE_CTX_DROP_def not_less dest!: udp)
  ultimately show ?thesis
    using assms(1) icmp unfolding in_process_l4_def
    by (auto split: if_splits simp: XFW_MAKE_CTX_DROP_def XFW_MAKE_CTX_PASS_def)
qed

lemma unat_offsets:
  "n \<le> L3_OFF_MAX \<Longrightarrow> unat (word_of_nat n :: u8) = n" "n \<le> L4_OFF_MAX \<Longrightarrow> unat (word_of_nat n :: u16) = n"
  by (simp_all add: unat_of_nat take_bit_nat_eq_self parse_limits)


definition udp_ctx :: XfwGlobalCtx where
  "udp_ctx = (ref_ctx 1000000 43)\<lparr>hdr_cur := \<lparr>pos = 14, cur_end = 43\<rparr>, ipver := bpf_ntohs ETH_P_IP\<rparr>"


end
