(* ===== verification/Tc.thy ===== *)
theory Tc
  imports Stages
begin

text \<open>
  The egress program \<open>bpf/tc.c\<close>. It parses like the ingress program but passes whatever it
  cannot parse, decides by the tries of protected networks whether a packet leaves the
  protected network (upstream) or goes to it (downstream), applies the destination rules to
  the latter only, and lets the TCP authentication learn from what is sent. Shown: every
  packet is booked once in its direction, what is dropped goes to a protected network and
  is refused by a destination rule, and the packet is never changed.
\<close>


section \<open>The program\<close>

text \<open>The trie and the key of the lookup, which \<open>out_process_l3\<close> leaves through its pointers.\<close>

datatype prot_net =
    NetNone
  | NetIp4 "(XfwIpv4LpmKey \<times> int) list" XfwIpv4LpmKey
  | NetIp6 "(XfwIpv6LpmKey \<times> int) list" XfwIpv6LpmKey

primrec prot_net_lookup :: "env \<Rightarrow> prot_net \<Rightarrow> int option" where
  "prot_net_lookup E NetNone = None"
| "prot_net_lookup E (NetIp4 m k) = lpm4_lookup E m k"
| "prot_net_lookup E (NetIp6 m k) = lpm6_lookup E m k"

definition out_process_l3 ::
  "env \<Rightarrow> XfwGlobalCtx \<Rightarrow> state \<Rightarrow> (verdict \<times> state) \<times> XfwGlobalCtx \<times> prot_net" where
  "out_process_l3 E c s =
     (let p = pkt s in
      if ipver c = bpf_ntohs ETH_P_IP
      then let s = count_traffic_stat c XFW_IP4_TOTAL_EGRESS s;
               (r, cur) = parse_iphdr p (hdr_cur c);
               c = c\<lparr>hdr_cur := cur\<rparr>
        in case r of
          Inl _ \<Rightarrow> (XFW_MAKE_CTX_PASS c XFW_IP4_BADHDR_EGRESS s, c, NetNone)
        | Inr (proto, iph4) \<Rightarrow>
            if L3_OFF_MAX < iph4 then (XFW_MAKE_CTX_PASS c XFW_IP4_BADHDR_EGRESS s, c, NetNone)
            else ((XFW_CTX_CONTINUE, s),
                  c\<lparr>ip_off := word_of_nat iph4, l4_proto := proto,
                    ilog_addr := xfw_ipv4_to_ipv6_mapped (ip_daddr p iph4)\<rparr>,
                  NetIp4 (SELECT_SHADOW_MAP (map_net_ip4 (ro s)) (amap_prot_net (cfg c)))
                    (ipv4_populate_lpm_key (ip_daddr p iph4)))
      else if ipver c = bpf_ntohs ETH_P_IPV6
      then let s = count_traffic_stat c XFW_IP6_TOTAL_EGRESS s;
               (r, cur) = parse_ip6hdr p (hdr_cur c);
               c = c\<lparr>hdr_cur := cur\<rparr>
        in case r of
          Inl _ \<Rightarrow> (XFW_MAKE_CTX_PASS c XFW_IP6_BADHDR_EGRESS s, c, NetNone)
        | Inr iph6 \<Rightarrow>
           (let c = c\<lparr>ilog_addr := ip6_daddr p iph6\<rparr>;
                (r, cur) = skip_ip6hdrext p (hdr_cur c) (ip6_nexthdr p iph6);
                c = c\<lparr>hdr_cur := cur\<rparr>
            in case r of
              Inl _ \<Rightarrow> (XFW_MAKE_CTX_PASS c XFW_IP6_BADHDR_EGRESS s, c, NetNone)
            | Inr proto \<Rightarrow>
                if \<not> iph6 \<le> L3_OFF_MAX then (XFW_MAKE_CTX_PASS c XFW_ASSERT_FAILED s, c, NetNone)
                else ((XFW_CTX_CONTINUE, s), c\<lparr>ip_off := word_of_nat iph6, l4_proto := proto\<rparr>,
                      NetIp6 (SELECT_SHADOW_MAP (map_net_ip6 (ro s)) (amap_prot_net (cfg c)))
                        (ipv6_populate_lpm_key (ip6_daddr p iph6))))
      else (XFW_MAKE_CTX_PASS c XFW_L2_UNKNOWN_EGRESS s, c, NetNone))"

definition out_process_l4 :: "env \<Rightarrow> XfwGlobalCtx \<Rightarrow> state \<Rightarrow> (verdict \<times> state) \<times> XfwGlobalCtx" where
  "out_process_l4 E c s =
     (if l4_proto c = XFW_L4_PROTO_TCP
      then let s = count_traffic_stat c XFW_TCP_TOTAL_EGRESS s;
               (r, cur) = parse_tcphdr (pkt s) (hdr_cur c);
               c = c\<lparr>hdr_cur := cur\<rparr>
        in case r of
          Inl _ \<Rightarrow> (XFW_MAKE_CTX_PASS c XFW_TCP_BADHDR_EGRESS s, c)
        | Inr (len, th) \<Rightarrow>
            if len \<le> 0 \<or> L4_OFF_MAX < th then (XFW_MAKE_CTX_PASS c XFW_TCP_BADHDR_EGRESS s, c)
            else ((XFW_CTX_CONTINUE, s), c\<lparr>l4_off := word_of_nat th\<rparr>)
      else if l4_proto c = XFW_L4_PROTO_UDP
      then let s = count_traffic_stat c XFW_UDP_TOTAL_EGRESS s;
               (r, cur) = parse_udphdr (pkt s) (hdr_cur c);
               c = c\<lparr>hdr_cur := cur\<rparr>
        in case r of
          Inl _ \<Rightarrow> (XFW_MAKE_CTX_PASS c XFW_UDP_BADHDR_EGRESS s, c)
        | Inr (len, uh) \<Rightarrow>
            if len \<le> 0 \<or> L4_OFF_MAX < uh then (XFW_MAKE_CTX_PASS c XFW_UDP_BADHDR_EGRESS s, c)
            else let c = c\<lparr>l4_off := word_of_nat uh\<rparr>
                 in ((XFW_CTX_CONTINUE, if dns_mode E then egress_dns_filter E c uh s else s), c)
      else (XFW_MAKE_CTX_PASS c XFW_L4_UNSUPPORTED_EGRESS s, c))"

definition process_downstream_egress :: "env \<Rightarrow> XfwGlobalCtx \<Rightarrow> state \<Rightarrow> verdict \<times> state" where
  "process_downstream_egress E c s = CHAIN (xfw_dst_filter E c s) (\<lambda>s. (XFW_CTX_CONTINUE, s))"

text \<open>
  The second component is the flag written through \<open>is_upstream_egress\<close>; the caller has set
  it to true, and it stays so when the filter returns early.
\<close>

definition xfw_tc_egress_filter ::
  "env \<Rightarrow> XfwGlobalCtx \<Rightarrow> state \<Rightarrow> (verdict \<times> state) \<times> bool \<times> XfwGlobalCtx" where
  "xfw_tc_egress_filter E c s =
     (let (r, cur) = parse_ethhdr (pkt s) (hdr_cur c); c = c\<lparr>hdr_cur := cur\<rparr> in
      case r of
        Inl _ \<Rightarrow> (XFW_MAKE_CTX_PASS c XFW_ETH_BADHDR_EGRESS s, True, c)
      | Inr h_proto \<Rightarrow>
          (let c = c\<lparr>ipver := h_proto\<rparr>; ((v, s), c, net) = out_process_l3 E c s in
           if v \<noteq> XFW_CTX_CONTINUE then ((v, s), True, c)
           else let ((v, s), c) = out_process_l4 E c s in
           if v \<noteq> XFW_CTX_CONTINUE then ((v, s), True, c)
           else let up = (prot_net_lookup E net = None);
                    (v, s) = (if \<not> up then process_downstream_egress E c s else (XFW_CTX_CONTINUE, s))
           in if v \<noteq> XFW_CTX_CONTINUE then ((v, s), up, c)
              else ((XFW_CTX_PASS,
                     if l4_proto c = XFW_L4_PROTO_TCP then tcp_auth_conn_egress_learning E c s else s),
                    up, c)))"

definition xfw_tc :: "env \<Rightarrow> state \<Rightarrow> verdict \<times> state" where
  "xfw_tc E s =
     (case xfw_ctx_init E s of
        None \<Rightarrow> (XFW_CTX_PASS, s)
      | Some c \<Rightarrow>
          (let ((res, s), up, c) = xfw_tc_egress_filter E c s;
               s = count_traffic_stat c (if up then XFW_TOTAL_UPSTREAM_EGRESS else XFW_TOTAL_DOWNSTREAM_EGRESS) s;
               s = (if res = XFW_CTX_PASS
                    then count_traffic_stat c (if up then XFW_PASSED_UPSTREAM_EGRESS else XFW_PASSED_DOWNSTREAM_EGRESS) s
                    else s)
           in (finalize_result c res, s)))"


section \<open>Accounting\<close>

lemma out_l3_stage:
  assumes "out_process_l3 E c s = (r, c', net)"
  shows "stage E c s r c'" "fst r \<in> {XFW_CTX_CONTINUE, XFW_CTX_PASS}" "pkt (snd r) = pkt s" "ro (snd r) = ro s" "tcp_conn (snd r) = tcp_conn s"
proof -
  have p: "pkt_sz x = pkt_sz c \<Longrightarrow> accounted E (pkt_sz c) s (XFW_MAKE_CTX_PASS x why (count_traffic_stat c st s))"
    and k: "accounted E (pkt_sz c) s (XFW_CTX_CONTINUE, count_traffic_stat c st s)"
    if "st \<notin> entry_stats" for x st why
    using that by (auto intro: accounted_count_traffic accounted_make_pass
      simp: accounted_continue silent_count_traffic)
  show "stage E c s r c'"
    using assms unfolding out_process_l3_def Let_def stage_def same_packet_def
    by (auto split: sum.splits if_splits prod.splits intro: p k acc_intros simp: entry_stats_def)
  show "fst r \<in> {XFW_CTX_CONTINUE, XFW_CTX_PASS}" "pkt (snd r) = pkt s" "ro (snd r) = ro s" "tcp_conn (snd r) = tcp_conn s"
    using assms unfolding out_process_l3_def Let_def
    by (auto split: sum.splits if_splits prod.splits simp: XFW_MAKE_CTX_PASS_def)
qed

lemma egress_dns_frame:
  "pkt (egress_dns_filter E c uh s) = pkt s" "ro (egress_dns_filter E c uh s) = ro s"
  "tcp_conn (egress_dns_filter E c uh s) = tcp_conn s"
  by (simp_all add: egress_dns_filter_def Let_def split: option.split)

lemma out_l4_stage:
  assumes "out_process_l4 E c s = (r, c')"
  shows "stage E c s r c'" "fst r \<in> {XFW_CTX_CONTINUE, XFW_CTX_PASS}" "pkt (snd r) = pkt s" "ro (snd r) = ro s" "tcp_conn (snd r) = tcp_conn s"
proof -
  have p: "pkt_sz x = pkt_sz c \<Longrightarrow> accounted E (pkt_sz c) s (XFW_MAKE_CTX_PASS x why (count_traffic_stat c st s))"
    and k: "accounted E (pkt_sz c) s (XFW_CTX_CONTINUE, count_traffic_stat c st s)"
    and d: "accounted E (pkt_sz c) s (XFW_CTX_CONTINUE, egress_dns_filter E y uh (count_traffic_stat c st s))"
    if "st \<notin> entry_stats" for x st why y uh
    using accounted_count_traffic[OF that accounted_make_pass] silent_count_traffic[OF that]
      silent_trans[OF silent_count_traffic[OF that] silent_egress_dns]
    by (simp_all add: accounted_continue)
  show "stage E c s r c'"
    using assms unfolding out_process_l4_def Let_def stage_def same_packet_def
    by (auto split: sum.splits if_split_asm prod.splits intro: p k d acc_intros simp: entry_stats_def)
  show "fst r \<in> {XFW_CTX_CONTINUE, XFW_CTX_PASS}" "pkt (snd r) = pkt s" "ro (snd r) = ro s" "tcp_conn (snd r) = tcp_conn s"
    using assms unfolding out_process_l4_def Let_def
    by (auto split: sum.splits if_split_asm prod.splits simp: XFW_MAKE_CTX_PASS_def egress_dns_frame)
qed

lemma dst_pkt: "pkt (snd (xfw_dst_filter E c s)) = pkt s"
  using pkt_rlimits[of c _ s]
  by (auto simp: xfw_dst_filter_def XFW_MAKE_CTX_DROP_def XFW_MAKE_CTX_PASS_def XFW_ASSERT_def Let_def case_prod_beta
      split: option.split)

interpretation downstream: packet_filter E "pkt_sz c" "process_downstream_egress E c" for E c
  unfolding process_downstream_egress_def by unfold_locales (intro acc_intros dst.flt_accounted)

lemma stage_trans: "stage E c s (XFW_CTX_CONTINUE, s1) c1 \<Longrightarrow> stage E c1 s1 r c2 \<Longrightarrow> stage E c s r c2"
  using accounted_silent_trans[of s s1 E "pkt_sz c" r]
  by (simp add: stage_def same_packet_def accounted_continue)

text \<open>Where the filter ends: before the lookup, with the verdict of the destination rules, or passed.\<close>

lemma tc_filter_cases:
  assumes "xfw_tc_egress_filter E c s = (r, up, c')"
  obtains (early) "up" "fst r = XFW_CTX_PASS" "accounted E (pkt_sz c) s r" "cfg c' = cfg c" "pkt_sz c' = pkt_sz c" "pkt (snd r) = pkt s"
    "tcp_conn (snd r) = tcp_conn s"
  | (decided) c0 s1 c1 net s2 cur where "parse_ethhdr (pkt s) (hdr_cur c) = (Inr (ipver c0), cur)" "hdr_cur c0 = cur"
    "out_process_l3 E c0 s = ((XFW_CTX_CONTINUE, s1), c1, net)" "out_process_l4 E c1 s1 = ((XFW_CTX_CONTINUE, s2), c')"
    "up \<longleftrightarrow> prot_net_lookup E net = None" "same_packet c0 c'" "cfg c0 = cfg c" "pkt_sz c0 = pkt_sz c"
    "r = (let d = (if up then (XFW_CTX_CONTINUE, s2) else process_downstream_egress E c' s2) in
          if fst d = XFW_CTX_CONTINUE
          then (XFW_CTX_PASS, if l4_proto c' = XFW_L4_PROTO_TCP then tcp_auth_conn_egress_learning E c' (snd d) else snd d)
          else d)"
proof -
  obtain x cur where x: "parse_ethhdr (pkt s) (hdr_cur c) = (x, cur)" by fastforce
  define c0 where "c0 h = c\<lparr>hdr_cur := cur, ipver := h\<rparr>" for h
  have c0: "hdr_cur (c0 h) = cur" "ipver (c0 h) = h" "cfg (c0 h) = cfg c" "pkt_sz (c0 h) = pkt_sz c" for h
    by (simp_all add: c0_def)
  consider (bad) a where "x = Inl a"
    | (l3) h where "x = Inr h" "fst (fst (out_process_l3 E (c0 h) s)) \<noteq> XFW_CTX_CONTINUE"
    | (ok) h s1 c1 net where "x = Inr h" "out_process_l3 E (c0 h) s = ((XFW_CTX_CONTINUE, s1), c1, net)"
    by (metis sum.exhaust prod.collapse)
  then show ?thesis
  proof cases
    case bad
    then have "r = XFW_MAKE_CTX_PASS (c\<lparr>hdr_cur := cur\<rparr>) XFW_ETH_BADHDR_EGRESS s" "up" "c' = c\<lparr>hdr_cur := cur\<rparr>"
      using assms x by (auto simp: xfw_tc_egress_filter_def Let_def)
    then show ?thesis
      by (intro early) (simp_all add: XFW_MAKE_CTX_PASS_def accounted_make_pass[unfolded XFW_MAKE_CTX_PASS_def])
  next
    case l3
    obtain v s1 c1 net where o: "out_process_l3 E (c0 h) s = ((v, s1), c1, net)" by (metis prod.collapse)
    then have "r = (v, s1)" "up" "c' = c1"
      using assms x l3 by (simp_all add: xfw_tc_egress_filter_def c0_def Let_def)
    then show ?thesis
      using out_l3_stage[OF o] l3(2) o by (intro early) (auto simp: stage_def same_packet_def c0_def)
  next
    case ok
    obtain v s2 c2 where l4: "out_process_l4 E c1 s1 = ((v, s2), c2)" by (metis prod.collapse)
    have st: "stage E (c0 h) s (v, s2) c2"
      by (rule stage_trans[OF out_l3_stage(1)[OF ok(2)] out_l4_stage(1)[OF l4]])
    show ?thesis
    proof (cases "v = XFW_CTX_CONTINUE")
      case True
      define d where "d = (if prot_net_lookup E net = None then (XFW_CTX_CONTINUE, s2) else process_downstream_egress E c2 s2)"
      have "(r, up, c') = ((if fst d = XFW_CTX_CONTINUE
          then (XFW_CTX_PASS, if l4_proto c2 = XFW_L4_PROTO_TCP then tcp_auth_conn_egress_learning E c2 (snd d) else snd d)
          else d), prot_net_lookup E net = None, c2)"
        using assms[symmetric] x ok l4 True by (simp add: xfw_tc_egress_filter_def c0_def Let_def d_def case_prod_beta)
      then show ?thesis
        using x ok l4 True st by (intro decided[of "c0 h" cur s1 c1 net s2]) (simp_all add: c0 d_def stage_def Let_def)
    next
      case False
      then have "r = (v, s2)" "up" "c' = c2"
        using assms x ok l4 by (simp_all add: xfw_tc_egress_filter_def c0_def Let_def)
      then show ?thesis
        using out_l4_stage[OF l4] out_l3_stage(3,5)[OF ok(2)] st False
        by (intro early) (auto simp: stage_def same_packet_def c0_def)
    qed
  qed
qed

lemma pkt_learning: "pkt (tcp_auth_conn_egress_learning E c s) = pkt s"
  by (simp add: tcp_auth_conn_egress_learning_def Let_def split: option.split)

lemma tc_filter_books:
  assumes "xfw_tc_egress_filter E c s = (r, up, c')"
  shows "accounted E (pkt_sz c) s r \<and> cfg c' = cfg c \<and> pkt_sz c' = pkt_sz c \<and> fst r \<in> {XFW_CTX_PASS, XFW_CTX_DROP} \<and>
    pkt (snd r) = pkt s \<and> (up \<longrightarrow> fst r = XFW_CTX_PASS)"
  using assms
proof (cases rule: tc_filter_cases)
  case (decided c0 s1 c1 net s2 cur)
  define d where "d = (if up then (XFW_CTX_CONTINUE, s2) else process_downstream_egress E c' s2)"
  have p2: "pkt s2 = pkt s" using out_l3_stage(3)[OF decided(3)] out_l4_stage(3)[OF decided(4)] by simp
  have s2: "silent s s2"
    using stage_trans[OF out_l3_stage(1)[OF decided(3)] out_l4_stage(1)[OF decided(4)]] by (simp add: stage_def accounted_continue)
  have c': "cfg c' = cfg c" "pkt_sz c' = pkt_sz c" using decided(6-8) by (simp_all add: same_packet_def)
  have d: "accounted E (pkt_sz c) s2 d" "fst d \<noteq> XDP_TX" "pkt (snd d) = pkt s"
    using downstream.flt_accounted[of E c' s2] dst_filter_verdict[of E c' s2] dst_pkt[of E c' s2] c'(2) p2
    by (auto simp: d_def process_downstream_egress_def CHAIN_def acc_intros)
  have r: "r = (if fst d = XFW_CTX_CONTINUE
      then (XFW_CTX_PASS, if l4_proto c' = XFW_L4_PROTO_TCP then tcp_auth_conn_egress_learning E c' (snd d) else snd d) else d)"
    using decided(9) by (simp add: d_def Let_def)
  have "accounted E (pkt_sz c) s2 r"
  proof (cases "fst d = XFW_CTX_CONTINUE")
    case True
    then have "silent s2 (snd d)" using d(1) by (metis accounted_continue prod.collapse)
    then show ?thesis
      using True silent_trans[OF _ silent_egress_learning] by (simp add: r accounted_pass)
  qed (simp add: r d(1))
  then have "accounted E (pkt_sz c) s r" by (rule accounted_silent_trans[OF s2])
  moreover have "fst r \<in> {XFW_CTX_PASS, XFW_CTX_DROP}" using d(2) by (cases "fst d") (auto simp: r)
  moreover have "up \<Longrightarrow> fst r = XFW_CTX_PASS" by (simp add: r d_def)
  ultimately show ?thesis using c' d(3) by (auto simp: r pkt_learning)
qed auto

lemma counted_twice:
  assumes "\<And>r. r \<in> entry_stats \<Longrightarrow> counted sz r False s s1" "pkt_sz c = sz" "r \<in> entry_stats" "t \<noteq> u"
  shows "counted sz r (r = t \<or> b \<and> r = u) s
    (if b then count_traffic_stat c u (count_traffic_stat c t s1) else count_traffic_stat c t s1)"
  using assms(1)[OF assms(3)] assms(2,4)
  by (cases "g_stats s"; cases "g_stats s1") (auto simp: counted_def count_traffic_stat_def)




section \<open>What may be dropped\<close>

lemma out_l3_continue:
  assumes "out_process_l3 E c s = ((XFW_CTX_CONTINUE, s1), c1, net)"
  shows "cfg c1 = cfg c \<and> ipver c1 = ipver c \<and>
    (ipver c = bpf_ntohs ETH_P_IP \<and> (\<exists>iph cur. parse_iphdr (pkt s) (hdr_cur c) = (Inr (l4_proto c1, iph), cur) \<and>
       hdr_cur c1 = cur \<and> ilog_addr c1 = xfw_ipv4_to_ipv6_mapped (ip_daddr (pkt s) iph) \<and>
       net = NetIp4 (SELECT_SHADOW_MAP (map_net_ip4 (ro s)) (amap_prot_net (cfg c))) (ipv4_populate_lpm_key (ip_daddr (pkt s) iph))) \<or>
     ipver c = bpf_ntohs ETH_P_IPV6 \<and> (\<exists>iph cur cur'. parse_ip6hdr (pkt s) (hdr_cur c) = (Inr iph, cur) \<and>
       skip_ip6hdrext (pkt s) cur (ip6_nexthdr (pkt s) iph) = (Inr (l4_proto c1), cur') \<and>
       hdr_cur c1 = cur' \<and> ilog_addr c1 = ip6_daddr (pkt s) iph \<and>
       net = NetIp6 (SELECT_SHADOW_MAP (map_net_ip6 (ro s)) (amap_prot_net (cfg c))) (ipv6_populate_lpm_key (ip6_daddr (pkt s) iph))))"
  using assms unfolding out_process_l3_def Let_def
  by (auto split: sum.splits if_splits prod.splits simp: XFW_MAKE_CTX_PASS_def)

lemma out_l4_continue:
  assumes "out_process_l4 E c s = ((XFW_CTX_CONTINUE, s1), c1)"
  shows "l4_proto c \<in> {XFW_L4_PROTO_TCP, XFW_L4_PROTO_UDP}"
  using assms by (auto simp: out_process_l4_def XFW_MAKE_CTX_PASS_def split: if_splits)

lemma lpm4_lookup_match:
  assumes "lpm4_law E" "lpm4_lookup E t q \<noteq> None"
  shows "\<exists>k \<in> fst ` set t. lpm4_match k (addr4 q)"
proof -
  obtain k where "lpm4 E (map fst t) q = Some k" using assms(2) by (cases "lpm4 E (map fst t) q") (auto simp: lpm4_lookup_def)
  moreover have "case lpm4 E (map fst t) q of None \<Rightarrow> \<forall>k \<in> set (map fst t). \<not> lpm4_match k (addr4 q)
    | Some k \<Rightarrow> k \<in> set (map fst t) \<and> lpm4_match k (addr4 q) \<and>
       (\<forall>j \<in> set (map fst t). lpm4_match j (addr4 q) \<longrightarrow> prefixlen4 j \<le> prefixlen4 k)"
    using assms(1) unfolding lpm4_law_def by blast
  ultimately show ?thesis by auto
qed

lemma lpm6_lookup_match:
  assumes "lpm6_law E" "lpm6_lookup E t q \<noteq> None"
  shows "\<exists>k \<in> fst ` set t. lpm6_match k (addr6 q)"
proof -
  obtain k where "lpm6 E (map fst t) q = Some k" using assms(2) by (cases "lpm6 E (map fst t) q") (auto simp: lpm6_lookup_def)
  moreover have "case lpm6 E (map fst t) q of None \<Rightarrow> \<forall>k \<in> set (map fst t). \<not> lpm6_match k (addr6 q)
    | Some k \<Rightarrow> k \<in> set (map fst t) \<and> lpm6_match k (addr6 q) \<and>
       (\<forall>j \<in> set (map fst t). lpm6_match j (addr6 q) \<longrightarrow> prefixlen6 j \<le> prefixlen6 k)"
    using assms(1) unfolding lpm6_law_def by blast
  ultimately show ?thesis by auto
qed

text \<open>
  C21. With tries that match prefixes, an outgoing packet is dropped only if it is TCP or UDP
  to an address of a configured protected network: whatever cannot be parsed, and all
  traffic that leaves the protected networks, is passed.
\<close>

theorem tc_drops_only_to_protected:
  assumes "lpm4_law E" "lpm6_law E" "map_cfg (ro s) = Some cf" "fst (xfw_tc E s) = XFW_CTX_DROP"
  shows "\<exists>h_proto cur. parse_ethhdr (pkt s) \<lparr>pos = 0, cur_end = length (pkt s)\<rparr> = (Inr h_proto, cur) \<and>
    (h_proto = bpf_ntohs ETH_P_IP \<and>
      (\<exists>proto iph cur'. parse_iphdr (pkt s) cur = (Inr (proto, iph), cur') \<and> proto \<in> {XFW_L4_PROTO_TCP, XFW_L4_PROTO_UDP} \<and>
        (\<exists>k \<in> fst ` set (SELECT_SHADOW_MAP (map_net_ip4 (ro s)) (amap_prot_net cf)). lpm4_match k (ip_daddr (pkt s) iph))) \<or>
     h_proto = bpf_ntohs ETH_P_IPV6 \<and>
      (\<exists>proto iph cur' cur''. parse_ip6hdr (pkt s) cur = (Inr iph, cur') \<and>
        skip_ip6hdrext (pkt s) cur' (ip6_nexthdr (pkt s) iph) = (Inr proto, cur'') \<and> proto \<in> {XFW_L4_PROTO_TCP, XFW_L4_PROTO_UDP} \<and>
        (\<exists>k \<in> fst ` set (SELECT_SHADOW_MAP (map_net_ip6 (ro s)) (amap_prot_net cf)). lpm6_match k (ip6_daddr (pkt s) iph))))"
proof -
  obtain c where c: "xfw_ctx_init E s = Some c" using assms(4) by (cases "xfw_ctx_init E s") (auto simp: xfw_tc_def)
  have cc: "cfg c = cf" "hdr_cur c = \<lparr>pos = 0, cur_end = length (pkt s)\<rparr>" using xfw_ctx_init_Some[OF c] assms(3) by simp_all
  obtain r up c' where f: "xfw_tc_egress_filter E c s = (r, up, c')" by (metis prod.collapse)
  then have d: "fst r = XFW_CTX_DROP"
    using assms(4) c by (auto simp: xfw_tc_def Let_def case_prod_beta finalize_result_def split: if_splits)
  then have up: "\<not> up" using tc_filter_books[OF f] by auto
  from f show ?thesis
  proof (cases rule: tc_filter_cases)
    case (decided c0 s1 c1 net s2 cur)
    have proto: "l4_proto c1 \<in> {XFW_L4_PROTO_TCP, XFW_L4_PROTO_UDP}" using out_l4_continue[OF decided(4)] .
    have found: "prot_net_lookup E net \<noteq> None" using decided(5) up by simp
    have e: "parse_ethhdr (pkt s) \<lparr>pos = 0, cur_end = length (pkt s)\<rparr> = (Inr (ipver c0), hdr_cur c0)"
      using decided(1,2) cc(2) by simp
    have m4: "net = NetIp4 t (ipv4_populate_lpm_key a) \<Longrightarrow> \<exists>k \<in> fst ` set t. lpm4_match k a" for t a
      using found lpm4_lookup_match[OF assms(1), of t "ipv4_populate_lpm_key a"] by (auto simp: ipv4_populate_lpm_key_def)
    have m6: "net = NetIp6 t (ipv6_populate_lpm_key a) \<Longrightarrow> \<exists>k \<in> fst ` set t. lpm6_match k a" for t a
      using found lpm6_lookup_match[OF assms(2), of t "ipv6_populate_lpm_key a"] by (auto simp: ipv6_populate_lpm_key_def)
    have "cfg c0 = cf" using decided(7) cc(1) by simp
    then show ?thesis
      using out_l3_continue[OF decided(3)] e proto m4 m6 by metis
  qed (use up in simp)
qed

text \<open>The network 192.168.0.0/16 is protected and UDP to it is blocked by default.\<close>

definition prot_cfg :: XfwFilterCfg where
  "prot_cfg = ref_cfg\<lparr>rules := ref_rules\<lparr>defaults := (\<lambda>_. XfwActionRule_of XFW_ACTION_BLOCK)\<rparr>\<rparr>"

definition prot_state :: state where
  "prot_state = (ref_state prot_cfg udp_pkt)\<lparr>ro := (ref_maps prot_cfg)\<lparr>map_net_ip4 :=
     ([(\<lparr>prefixlen4 = 16, addr4 = 0xA8C0\<rparr>, 1)], [])\<rparr>\<rparr>"

theorem tc_drops_only_to_protected_witness:
  "fst (xfw_tc ref_env prot_state) = XFW_CTX_DROP \<and>
   (\<exists>proto iph cur. parse_iphdr udp_pkt \<lparr>pos = 14, cur_end = 43\<rparr> = (Inr (proto, iph), cur) \<and>
      proto \<in> {XFW_L4_PROTO_TCP, XFW_L4_PROTO_UDP} \<and> lpm4_match \<lparr>prefixlen4 = 16, addr4 = 0xA8C0\<rparr> (ip_daddr udp_pkt iph))"
proof -
  have f: "map_cfg (ro prot_state) = Some prot_cfg" "pkt prot_state = udp_pkt" "g_stats prot_state = Some zero_stats"
    "SELECT_SHADOW_MAP (map_net_ip4 (ro prot_state)) 0 = [(\<lparr>prefixlen4 = 16, addr4 = 0xA8C0\<rparr>, 1)]"
    "SELECT_SHADOW_MAP (map_dst (ro prot_state)) x = Map.empty" for x
    by (simp_all add: prot_state_def ref_state_def ref_maps_def SELECT_SHADOW_MAP_def)
  have g: "amap_prot_net prot_cfg = 0" "\<not> evaluation_mode (rules prot_cfg)" "action (defaults (rules prot_cfg) d) = XFW_ACTION_BLOCK" for d
    by (simp_all add: prot_cfg_def ref_cfg_def ref_rules_def XfwActionRule_of_def)
  have "lpm4_match \<lparr>prefixlen4 = 16, addr4 = 0xA8C0\<rparr> (ip_daddr udp_pkt 14)" by code_simp
  then have l: "lpm4_lookup ref_env [(\<lparr>prefixlen4 = 16, addr4 = 0xA8C0\<rparr>, 1)] (ipv4_populate_lpm_key (ip_daddr udp_pkt 14)) = Some (1 :: int)"
    by (simp add: lpm4_lookup_def ref_env_def ipv4_populate_lpm_key_def)
  have d: "fst (xfw_tc ref_env prot_state) = XFW_CTX_DROP"
    by (simp add: xfw_tc_def xfw_ctx_init_def INIT_CURSOR_FROM_BPF_CONTEXT_def f g l xfw_tc_egress_filter_def out_process_l3_def
        out_process_l4_def process_downstream_egress_def CHAIN_def xfw_dst_filter_def populate_dst_info_def XFW_MAKE_CTX_DROP_def
        finalize_result_def udp_pkt_parses ref_allows parse_limits Let_def)
  show ?thesis
    using tc_drops_only_to_protected[OF ref_env_lpm4 ref_env_lpm6 f(1) d] d
    by (auto simp: f g udp_pkt_parses)
qed

end
