(* ===== verification/Frames.thy ===== *)
theory Frames
  imports Stages
begin

text \<open>
  Parts of the state that a filter has no business with. A view of the state that does not
  see the counters, the rate limit buckets, the incident log and the metadata area is the
  same before and after every rule filter. The flow table, the recorded DNS queries, the
  SYN cookie timestamps and the rule maps are such views.
\<close>

locale state_view =
  fixes view :: "state \<Rightarrow> 'a"
  assumes view_upd [simp]: "view (s\<lparr>g_stats := x\<rparr>) = view s" "view (s\<lparr>ratelimit := rl\<rparr>) = view s"
    "view (s\<lparr>src_ratelim := sr\<rparr>) = view s" "view (s\<lparr>src_port_rl := sp\<rparr>) = view s"
    "view (s\<lparr>ilog_map := im\<rparr>) = view s" "view (s\<lparr>log_events := le\<rparr>) = view s"
    "view (s\<lparr>log_ev_cnt := lc\<rparr>) = view s" "view (s\<lparr>meta := md\<rparr>) = view s"
begin

lemma counts [simp]:
  "view (count_traffic_stat c r1 s) = view s" "view (count_pass_stat c r2 s) = view s" "view (count_tx_stat c r3 s) = view s"
  by (simp_all add: count_traffic_stat_def count_pass_stat_def count_tx_stat_def)

lemma incident [simp]: "view (register_incident E a n r s) = view s"
  by (simp add: register_incident_def Let_def case_prod_beta update_map_info_def
      push_swap_event_def push_swap_event_and_update_drop_cnt_def update_drop_cnt_def split: option.split)

lemma decisions [simp]:
  "view (snd (XFW_MAKE_CTX_DROP E c r1 s)) = view s" "view (snd (XFW_MAKE_CTX_PASS c r2 s)) = view s"
  "view (snd (DNS_DROP E d r1 s)) = view s"
  by (simp_all add: XFW_MAKE_CTX_DROP_def XFW_MAKE_CTX_PASS_def DNS_DROP_def)

lemma asserts: "view (snd (k ())) = view s \<Longrightarrow> view (snd (XFW_ASSERT v c s k)) = view s"
  by (simp add: XFW_ASSERT_def)

lemma rlimits [simp]: "view (snd (xfw_is_allowed_by_rlimits c r s)) = view s"
  by (simp add: xfw_is_allowed_by_rlimits_def case_prod_beta split: option.split)

lemma rules:
  "view (snd (icmp_filter E c key s)) = view s" "view (snd (src_filter_ip E c k s)) = view s"
  "view (snd (src_filter_port E c port s)) = view s" "view (snd (syn_rlimit E c s)) = view s"
  "view (snd (rst_rlimit E c s)) = view s" "view (snd (xfw_dst_filter E c s)) = view s"
  "view (snd (tcp_anomaly_filter E c th s)) = view s"
  by (simp_all add: icmp_filter_def src_filter_ip_def src_ip_rlimit_def src_filter_port_def src_port_rlimit_def
      syn_rlimit_def rst_rlimit_def xfw_dst_filter_def tcp_anomaly_filter_def XFW_ASSERT_def case_prod_beta Let_def
      split: option.split)

lemma chain: "view (snd r) = view s \<Longrightarrow> (\<And>s1. view (snd (k s1)) = view s1) \<Longrightarrow> view (snd (CHAIN r k)) = view s"
  by (simp add: CHAIN_def)

lemma src_rules: "view (snd (src_filter E c port key s)) = view s"
  by (simp add: src_filter_def CHAIN_def rules)

lemma dns_parse: "view (snd (parse_single_dns_question cur s)) = view s" "view (snd (parse_full_dns_rr cur s)) = view s"
  using question_frame[of cur s] rr_frame[of cur s] by auto

lemma dns_answers: "view (snd (process_answers n E d s)) = view s"
  by (induction n arbitrary: d s) (simp_all add: case_prod_beta Let_def dns_parse split: option.split)

lemma dns_query: "view (snd (process_ingress_dns_query E d dh s)) = view s"
  by (simp add: process_ingress_dns_query_def Let_def case_prod_beta dns_parse split: option.split)

lemma dns_response: "view (snd (process_ingress_dns_response E d dh s)) = view s"
  by (simp add: process_ingress_dns_response_def Let_def case_prod_beta dns_parse dns_answers split: option.split)

lemma dns_rules: "view (snd (ingress_dns_filter E c uh s)) = view s"
  by (simp add: ingress_dns_filter_def ingress_dns_filter_global_def Let_def case_prod_beta dns_query dns_response
      split: option.split)

end

interpretation conn_view: state_view tcp_conn by unfold_locales simp_all

interpretation dns_view: state_view dns_egr by unfold_locales simp_all

interpretation sc_view: state_view syncookies by unfold_locales simp_all

interpretation ro_view: state_view ro by unfold_locales simp_all

interpretation pkt_view: state_view pkt by unfold_locales simp_all

end
