(* ===== verification/Datapath.thy ===== *)
theory Datapath
  imports XdpRules Tc Frames
begin

text \<open>
  The two programs together. They share the flow table: what leaves through \<open>xfw_tc\<close> opens
  flows and what comes in through \<open>xfw_xdp\<close> is checked against them. Over any interleaving
  of packets, with the manager changing the configuration in between, only flows that were
  opened get in.
\<close>


section \<open>The peer of a TCP packet\<close>

text \<open>
  The TCP header of a packet and the peer it comes from or goes to, by the parsers of the two
  programs: the address in IPv4-mapped form where the packet is IPv4.
\<close>

definition tcp_headers :: "packet \<Rightarrow> XfwIp \<Rightarrow> XfwIp \<Rightarrow> nat \<Rightarrow> bool" where
  "tcp_headers p src dst th \<longleftrightarrow> (\<exists>h_proto cur cur' cur'' len.
     parse_ethhdr p \<lparr>pos = 0, cur_end = length p\<rparr> = (Inr h_proto, cur) \<and> parse_tcphdr p cur' = (Inr (len, th), cur'') \<and>
     (h_proto = bpf_ntohs ETH_P_IP \<and> (\<exists>iph. parse_iphdr p cur = (Inr (XFW_L4_PROTO_TCP, iph), cur') \<and>
        src = xfw_ipv4_to_ipv6_mapped (ip_saddr p iph) \<and> dst = xfw_ipv4_to_ipv6_mapped (ip_daddr p iph)) \<or>
      h_proto = bpf_ntohs ETH_P_IPV6 \<and> (\<exists>iph cur6. parse_ip6hdr p cur = (Inr iph, cur6) \<and>
        skip_ip6hdrext p cur6 (ip6_nexthdr p iph) = (Inr XFW_L4_PROTO_TCP, cur') \<and>
        src = ip6_saddr p iph \<and> dst = ip6_daddr p iph)))"

definition comes_from :: "packet \<Rightarrow> XfwSockAddr \<Rightarrow> nat \<Rightarrow> bool" where
  "comes_from p a th \<longleftrightarrow> (\<exists>dst. tcp_headers p (sa_addr a) dst th) \<and> sa_port a = l4_source p th"

definition goes_to :: "packet \<Rightarrow> XfwSockAddr \<Rightarrow> nat \<Rightarrow> bool" where
  "goes_to p a th \<longleftrightarrow> (\<exists>src. tcp_headers p src (sa_addr a) th) \<and> sa_port a = l4_dest p th"

definition syn_only :: "packet \<Rightarrow> nat \<Rightarrow> bool" where
  "syn_only p th \<longleftrightarrow> tcp_syn p th \<and> \<not> tcp_ack p th \<and> \<not> tcp_fin p th \<and> \<not> tcp_rst p th"

definition ack_only :: "packet \<Rightarrow> nat \<Rightarrow> bool" where
  "ack_only p th \<longleftrightarrow> tcp_ack p th \<and> \<not> tcp_syn p th \<and> \<not> tcp_fin p th \<and> \<not> tcp_rst p th"

text \<open>What opens a flow: an ACK with a cookie the kernel accepts, and an outgoing SYN (any segment while authentication is off).\<close>

definition cookie_ack :: "env \<Rightarrow> packet \<Rightarrow> XfwSockAddr \<Rightarrow> bool" where
  "cookie_ack E p a \<longleftrightarrow> (\<exists>th c s. comes_from p a th \<and> ack_only p th \<and> pkt s = p \<and>
     fst (tcp_syncookies_ack_filter E c th s) = XFW_CTX_CONTINUE)"

definition sent_open :: "XfwFilterCfg option \<Rightarrow> packet \<Rightarrow> XfwSockAddr \<Rightarrow> bool" where
  "sent_open cf p a \<longleftrightarrow> (\<exists>th. goes_to p a th \<and> \<not> tcp_rst p th \<and>
     (tcp_syn p th \<or> (\<exists>f. cf = Some f \<and> \<not> tcp_auth_enabled (rules f))))"

section \<open>Which steps change the flow table\<close>

lemma auth_filter_dom: "dom (tcp_conn (snd (tcp_auth_conn_ingress_filter E c a ev s))) \<subseteq> dom (tcp_conn s)"
  by (auto simp: tcp_auth_conn_ingress_filter_def tcp_auth_conn_lookup_def tcp_auth_conn_delete_def
      tcp_auth_conn_set_fin_time_def split: option.split XfwTcpAuthEvent.split)

lemma sc_conn:
  "tcp_conn (snd (tcp_syncookies_ack_filter E c th s)) = tcp_conn s"
  "tcp_conn (snd (tcp_syncookies_syn_filter E c th s)) = tcp_conn s"
proof -
  show "tcp_conn (snd (tcp_syncookies_ack_filter E c th s)) = tcp_conn s"
    by (simp add: tcp_syncookies_ack_filter_def syncookie_failed_def XFW_ASSERT_def Let_def split: option.split)
  have r: "tcp_conn (snd (syncookie_reply E c th sm s)) = tcp_conn s" for sm s
    by (simp add: syncookie_reply_def syncookie_failed_def MAKE_XDP_TX_def Let_def case_prod_beta)
  have "tcp_conn (snd (syncookie_try E c th ts s)) = tcp_conn s" for ts s
    unfolding syncookie_try_def Let_def XFW_ASSERT_def syncookie_failed_def by (simp add: r split: option.split)
  then show "tcp_conn (snd (tcp_syncookies_syn_filter E c th s)) = tcp_conn s"
    by (simp add: tcp_syncookies_syn_filter_def Let_def case_prod_beta split: option.split)
qed

lemma rcv_syn_conn: "tcp_conn (snd (tcp_rcv_syn_filter E c th s)) = tcp_conn s"
  by (simp add: tcp_rcv_syn_filter_def CHAIN_def conn_view.rules sc_conn)

lemma rcv_ack_dom:
  assumes "update_law (update_tcp_conn E)"
  shows "dom (tcp_conn (snd (tcp_rcv_ack_filter E c th a s))) \<subseteq> dom (tcp_conn s) \<union>
    {x. x = a \<and> (\<exists>z. pkt z = pkt s \<and> fst (tcp_syncookies_ack_filter E c th z) = XFW_CTX_CONTINUE)}"
    (is "_ \<subseteq> _ \<union> ?A")
proof -
  have auth: "dom (tcp_conn (snd (tcp_auth_conn_ingress_filter E c a ev z))) \<subseteq> dom (tcp_conn s) \<union> ?A"
    if "tcp_conn z = tcp_conn s" for ev z
    using auth_filter_dom[of E c a ev z] that by auto
  have add: "dom (tcp_conn (snd (CHAIN (tcp_syncookies_ack_filter E c th z) (\<lambda>s. (XFW_CTX_CONTINUE, tcp_auth_conn_add E a s)))))
      \<subseteq> dom (tcp_conn s) \<union> ?A" if "tcp_conn z = tcp_conn s" "pkt z = pkt s" for z
  proof (cases "fst (tcp_syncookies_ack_filter E c th z) = XFW_CTX_CONTINUE")
    case True
    then have "a \<in> ?A" using that(2) by blast
    then show ?thesis
      using True add_conn_dom[OF assms, of a "snd (tcp_syncookies_ack_filter E c th z)"] that(1)
      by (simp add: CHAIN_def sc_conn)
  qed (simp add: CHAIN_def sc_conn that(1) subset_Un_eq)
  show ?thesis
  proof (cases "syncookies s")
    case None
    then show ?thesis using auth[OF refl] by (simp add: tcp_rcv_ack_filter_def)
  next
    case (Some ts)
    obtain flood ts' where f: "tcp_syncookies_flood_mode c ts = (flood, ts')" by fastforce
    show ?thesis
      using auth[OF refl] auth[of "s\<lparr>syncookies := Some ts'\<rparr>"] add[of "s\<lparr>syncookies := Some ts'\<rparr>"]
      by (simp add: tcp_rcv_ack_filter_def Some f Let_def)
  qed
qed

lemma flags_dom:
  assumes "update_law (update_tcp_conn E)"
  shows "dom (tcp_conn (snd (tcp_flags_filter E c th a s))) \<subseteq> dom (tcp_conn s) \<union>
    {x. x = a \<and> ack_only (pkt s) th \<and> (\<exists>z. pkt z = pkt s \<and> fst (tcp_syncookies_ack_filter E c th z) = XFW_CTX_CONTINUE)}"
    (is "_ \<subseteq> _ \<union> ?A")
proof -
  have auth: "dom (tcp_conn (snd (tcp_auth_conn_ingress_filter E c a ev (count_traffic_stat c st s)))) \<subseteq> dom (tcp_conn s) \<union> ?A"
    "dom (tcp_conn (snd (tcp_auth_conn_ingress_filter E c a ev s))) \<subseteq> dom (tcp_conn s) \<union> ?A" for ev st
    using auth_filter_dom[of E c a ev "count_traffic_stat c st s"] auth_filter_dom[of E c a ev s] by auto
  have rst: "dom (tcp_conn (snd (CHAIN (tcp_auth_conn_ingress_filter E c a ev (count_traffic_stat c st s)) (rst_rlimit E c))))
      \<subseteq> dom (tcp_conn s) \<union> ?A" for ev st
    using auth(1)[of ev st] by (simp add: CHAIN_def conn_view.rules)
  have ack: "dom (tcp_conn (snd (tcp_rcv_ack_filter E c th a (count_traffic_stat c XFW_ACK s)))) \<subseteq> dom (tcp_conn s) \<union> ?A"
    if "ack_only (pkt s) th"
    using rcv_ack_dom[OF assms, of c th a "count_traffic_stat c XFW_ACK s"] that by auto
  consider "tcp_fin (pkt s) th" | "\<not> tcp_fin (pkt s) th" "tcp_rst (pkt s) th"
    | "\<not> tcp_fin (pkt s) th" "\<not> tcp_rst (pkt s) th" "tcp_syn (pkt s) th" "tcp_ack (pkt s) th"
    | "\<not> tcp_fin (pkt s) th" "\<not> tcp_rst (pkt s) th" "tcp_syn (pkt s) th" "\<not> tcp_ack (pkt s) th"
    | "\<not> tcp_fin (pkt s) th" "\<not> tcp_rst (pkt s) th" "\<not> tcp_syn (pkt s) th" "tcp_ack (pkt s) th"
    | "\<not> tcp_fin (pkt s) th" "\<not> tcp_rst (pkt s) th" "\<not> tcp_syn (pkt s) th" "\<not> tcp_ack (pkt s) th"
    by blast
  then show ?thesis
    using auth rst ack by cases (simp_all add: tcp_flags_filter_def rcv_syn_conn ack_only_def)
qed

text \<open>The flow table after a stage: entries that were there, and the peer of an accepted cookie.\<close>

lemma tcp_dom:
  assumes "update_law (update_tcp_conn E)" "in_process_tcp E c key s = (r, c')"
  shows "dom (tcp_conn (snd r)) \<subseteq> dom (tcp_conn s) \<union>
    {x. \<exists>th len cur c'' z. parse_tcphdr (pkt s) (hdr_cur c) = (Inr (len, th), cur) \<and>
       x = \<lparr>sa_addr = ilog_addr c, sa_port = l4_source (pkt s) th\<rparr> \<and> ack_only (pkt s) th \<and> pkt z = pkt s \<and>
       fst (tcp_syncookies_ack_filter E c'' th z) = XFW_CTX_CONTINUE}" (is "_ \<subseteq> _ \<union> ?A")
proof -
  obtain x cur where x: "parse_tcphdr (pkt s) (hdr_cur c) = (x, cur)" by fastforce
  show ?thesis
  proof (cases x)
    case (Inl e)
    then show ?thesis using assms(2) x by (auto simp: in_process_tcp_def Let_def)
  next
    case (Inr y)
    obtain len th where y: "y = (len, th)" by (cases y)
    define c1 where "c1 = c\<lparr>hdr_cur := cur, l4_off := word_of_nat th\<rparr>"
    define s1 where "s1 = count_traffic_stat c XFW_TCP_TOTAL_INGRESS s"
    let ?a = "\<lparr>sa_addr = ilog_addr c, sa_port = l4_source (pkt s) th\<rparr>"
    have fl: "dom (tcp_conn (snd (tcp_flags_filter E c1 th ?a z))) \<subseteq> dom (tcp_conn s) \<union> ?A"
      if "tcp_conn z = tcp_conn s" "pkt z = pkt s" for z
      using flags_dom[OF assms(1), of c1 th ?a z] that x Inr y by auto blast
    have s1: "tcp_conn s1 = tcp_conn s" "pkt s1 = pkt s" by (simp_all add: s1_def)
    show ?thesis
    proof (cases "len \<le> 0 \<or> L4_OFF_MAX < th")
      case True
      then show ?thesis using assms(2) x Inr y by (auto simp: in_process_tcp_def Let_def)
    next
      case False
      have "r = CHAIN (tcp_anomaly_filter E c1 th s1) (\<lambda>s. CHAIN (src_filter E c1 (l4_source (pkt s) th) key s) (\<lambda>s.
          tcp_flags_filter E c1 th \<lparr>sa_addr = ilog_addr c1, sa_port = l4_source (pkt s) th\<rparr> s))"
        using assms(2)[symmetric] x Inr y False by (simp add: in_process_tcp_def Let_def c1_def s1_def)
      moreover have "ilog_addr c1 = ilog_addr c" by (simp add: c1_def)
      ultimately show ?thesis
        using fl s1 by (simp add: CHAIN_def conn_view.rules conn_view.src_rules pkt_view.rules pkt_view.src_rules subset_Un_eq)
    qed
  qed
qed

lemma udp_icmp_conn:
  "tcp_conn (snd (fst (in_process_udp E c key s))) = tcp_conn s" "tcp_conn (snd (fst (in_process_icmp E c key s))) = tcp_conn s"
  unfolding in_process_udp_def in_process_icmp_def Let_def
  by (simp_all add: CHAIN_def conn_view.rules conn_view.src_rules conn_view.dns_rules split: sum.split prod.split)

lemma l3_conn:
  assumes "in_process_l3 E c key s = (r, c1, key1)"
  shows "tcp_conn (snd r) = tcp_conn s \<and> syncookies (snd r) = syncookies s \<and> (fst r = XFW_CTX_CONTINUE \<longrightarrow> pkt (snd r) = pkt s \<and>
    (ipver c = bpf_ntohs ETH_P_IP \<and> (\<exists>iph. parse_iphdr (pkt s) (hdr_cur c) = (Inr (l4_proto c1, iph), hdr_cur c1) \<and>
       ilog_addr c1 = xfw_ipv4_to_ipv6_mapped (ip_saddr (pkt s) iph)) \<or>
     ipver c = bpf_ntohs ETH_P_IPV6 \<and> (\<exists>iph cur. parse_ip6hdr (pkt s) (hdr_cur c) = (Inr iph, cur) \<and>
       skip_ip6hdrext (pkt s) cur (ip6_nexthdr (pkt s) iph) = (Inr (l4_proto c1), hdr_cur c1) \<and>
       ilog_addr c1 = ip6_saddr (pkt s) iph)))"
  using assms unfolding in_process_l3_def Let_def
  by (auto split: sum.splits if_splits prod.splits simp: XFW_MAKE_CTX_PASS_def XFW_MAKE_CTX_DROP_def sc_view.incident)


lemma xdp_chain_conn:
  "tcp_conn (snd (xdp_pass c s)) = tcp_conn s"
  "dom (tcp_conn (snd r)) \<subseteq> B \<Longrightarrow> (\<And>z. fst r = XFW_CTX_CONTINUE \<Longrightarrow> z = snd r \<Longrightarrow> dom (tcp_conn (snd (k z))) \<subseteq> B) \<Longrightarrow>
     dom (tcp_conn (snd (CHAIN_PASS_ALL c r k))) \<subseteq> B"
  by (auto simp: xdp_pass_def CHAIN_PASS_ALL_def)

lemma dst_tail_conn: "tcp_conn (snd (CHAIN_PASS_ALL c (xfw_dst_filter E c s) (xdp_pass c))) = tcp_conn s"
  by (simp add: CHAIN_PASS_ALL_def xdp_pass_def conn_view.rules)

lemma l4_cookie_dom:
  assumes "update_law (update_tcp_conn E)" "parse_ethhdr (pkt s) \<lparr>pos = 0, cur_end = length (pkt s)\<rparr> = (Inr (ipver c), hdr_cur c)"
    "in_process_l3 E c key s = (r, c1, key1)" "fst r = XFW_CTX_CONTINUE"
  shows "dom (tcp_conn (snd (fst (in_process_l4 E c1 key1 (snd r))))) \<subseteq> dom (tcp_conn s) \<union> {a. cookie_ack E (pkt s) a}"
proof -
  have l3: "tcp_conn (snd r) = tcp_conn s" "pkt (snd r) = pkt s" using l3_conn[OF assms(3)] assms(4) by auto
  have h: "\<exists>dst. tcp_headers (pkt s) (ilog_addr c1) dst th"
    if "parse_tcphdr (pkt s) (hdr_cur c1) = (Inr (len, th), cur)" "l4_proto c1 = XFW_L4_PROTO_TCP" for len th cur
    using l3_conn[OF assms(3)] assms(2,4) that unfolding tcp_headers_def by (auto simp: Let_def)
  obtain r2 c2 where t: "in_process_tcp E c1 key1 (snd r) = (r2, c2)" by fastforce
  have tcp: "dom (tcp_conn (snd r2)) \<subseteq> dom (tcp_conn s) \<union> {a. cookie_ack E (pkt s) a}" if "l4_proto c1 = XFW_L4_PROTO_TCP"
  proof
    fix x assume x: "x \<in> dom (tcp_conn (snd r2))"
    consider "x \<in> dom (tcp_conn s)" | th len cur c'' z where "parse_tcphdr (pkt s) (hdr_cur c1) = (Inr (len, th), cur)"
      "x = \<lparr>sa_addr = ilog_addr c1, sa_port = l4_source (pkt s) th\<rparr>" "ack_only (pkt s) th" "pkt z = pkt s"
      "fst (tcp_syncookies_ack_filter E c'' th z) = XFW_CTX_CONTINUE"
      using subsetD[OF tcp_dom[OF assms(1) t] x] unfolding l3 by blast
    then show "x \<in> dom (tcp_conn s) \<union> {a. cookie_ack E (pkt s) a}"
    proof cases
      case 2
      then show ?thesis using h[OF 2(1) that] by (auto simp: cookie_ack_def comes_from_def)
    qed simp
  qed
  show ?thesis
    using tcp t udp_icmp_conn[of E c1 key1 "snd r"] l3(1) unfolding in_process_l4_def by auto
qed

lemma xdp_filter_dom:
  assumes "update_law (update_tcp_conn E)" "hdr_cur c = \<lparr>pos = 0, cur_end = length (pkt s)\<rparr>"
  shows "dom (tcp_conn (snd (xfw_xdp_filter E c s))) \<subseteq> dom (tcp_conn s) \<union> {a. cookie_ack E (pkt s) a}" (is "_ \<subseteq> ?B")
proof -
  define s1 where "s1 = count_traffic_stat c XFW_TOTAL_DOWNSTREAM_INGRESS s"
  have s1: "tcp_conn s1 = tcp_conn s" "pkt s1 = pkt s" by (simp_all add: s1_def)
  have main: "dom (tcp_conn (snd (CHAIN_PASS_ALL c1 r (\<lambda>s. case in_process_l4 E c1 key1 s of (r, c) \<Rightarrow>
           CHAIN_PASS_ALL c r (\<lambda>s. CHAIN_PASS_ALL c (xfw_dst_filter E c s) (xdp_pass c)))))) \<subseteq> ?B"
    if "in_process_l3 E (c\<lparr>hdr_cur := cur, ipver := h\<rparr>) zero_lpm_key s1 = (r, c1, key1)"
      "parse_ethhdr (pkt s) (hdr_cur c) = (Inr h, cur)" for h cur r c1 key1
  proof (rule xdp_chain_conn(2))
    show "dom (tcp_conn (snd r)) \<subseteq> ?B" using l3_conn[OF that(1)] s1 by auto
    fix z assume z: "fst r = XFW_CTX_CONTINUE" "z = snd r"
    have l4: "dom (tcp_conn (snd (fst (in_process_l4 E c1 key1 z)))) \<subseteq> ?B"
      using l4_cookie_dom[OF assms(1) _ that(1) z(1)] that(2) assms(2) s1 z(2) by simp
    show "dom (tcp_conn (snd (case in_process_l4 E c1 key1 z of (r, c) \<Rightarrow>
           CHAIN_PASS_ALL c r (\<lambda>s. CHAIN_PASS_ALL c (xfw_dst_filter E c s) (xdp_pass c))))) \<subseteq> ?B"
      unfolding case_prod_beta by (rule xdp_chain_conn(2)) (use l4 in \<open>simp_all add: dst_tail_conn\<close>)
  qed
  show ?thesis
    unfolding xfw_xdp_filter_def s1_def[symmetric] Let_def
    using s1 main by (auto simp: subset_Un_eq split: sum.split prod.split)
qed


lemma xdp_dom:
  assumes "update_law (update_tcp_conn E)"
  shows "dom (tcp_conn (snd (xfw_xdp E s))) \<subseteq> dom (tcp_conn s) \<union> {a. cookie_ack E (pkt s) a}"
proof (cases "reaches_filters E s")
  case True
  then obtain c md where c: "xfw_ctx_init E s = Some c"
    and run: "xfw_xdp E s = (finalize_result c (fst (xfw_xdp_filter E c (s\<lparr>meta := md\<rparr>))),
      snd (xfw_xdp_filter E c (s\<lparr>meta := md\<rparr>)))"
    by (rule xfw_xdp_runs)
  show ?thesis
    using xdp_filter_dom[OF assms, of c "s\<lparr>meta := md\<rparr>"] xfw_ctx_init_Some(3)[OF c] by (simp add: run)
next
  case False
  then have "tcp_conn (snd (xfw_xdp E s)) = tcp_conn s"
    by (auto simp: reaches_filters_def xfw_xdp_def create_metadata_def XFW_MAKE_CTX_PASS_def split: option.splits)
  then show ?thesis by auto
qed

text \<open>The egress program.\<close>

lemma learning_dom:
  assumes "update_law (update_tcp_conn E)"
  shows "dom (tcp_conn (tcp_auth_conn_egress_learning E c s)) \<subseteq> dom (tcp_conn s) \<union>
    {a. a = \<lparr>sa_addr = ilog_addr c, sa_port = l4_dest (pkt s) (unat (l4_off c))\<rparr> \<and> \<not> tcp_rst (pkt s) (unat (l4_off c)) \<and>
        (tcp_syn (pkt s) (unat (l4_off c)) \<or> \<not> tcp_auth_enabled (rules (cfg c)))}"
proof -
  let ?a = "\<lparr>sa_addr = ilog_addr c, sa_port = l4_dest (pkt s) (unat (l4_off c))\<rparr>"
  show ?thesis
    using add_conn_dom[OF assms, of ?a s]
    by (auto simp: tcp_auth_conn_egress_learning_def tcp_auth_conn_lookup_def tcp_auth_conn_delete_def
        tcp_auth_conn_set_fin_time_def Let_def split: option.splits if_splits)
qed

lemma out_l4_conn:
  assumes "out_process_l4 E c s = (r, c1)"
  shows "tcp_conn (snd r) = tcp_conn s" "ilog_addr c1 = ilog_addr c" "l4_proto c1 = l4_proto c"
    "fst r = XFW_CTX_CONTINUE \<Longrightarrow> l4_proto c = XFW_L4_PROTO_TCP \<Longrightarrow>
       \<exists>len th cur. parse_tcphdr (pkt s) (hdr_cur c) = (Inr (len, th), cur) \<and> th \<le> L4_OFF_MAX \<and> l4_off c1 = word_of_nat th"
proof -
  have d: "tcp_conn (egress_dns_filter E x uh z) = tcp_conn z" for x uh z
    by (simp add: egress_dns_filter_def Let_def split: option.split)
  show "tcp_conn (snd r) = tcp_conn s" "ilog_addr c1 = ilog_addr c" "l4_proto c1 = l4_proto c"
    using assms unfolding out_process_l4_def Let_def
    by (auto split: sum.splits if_split_asm prod.splits simp: XFW_MAKE_CTX_PASS_def d)
  assume "fst r = XFW_CTX_CONTINUE" "l4_proto c = XFW_L4_PROTO_TCP"
  then show "\<exists>len th cur. parse_tcphdr (pkt s) (hdr_cur c) = (Inr (len, th), cur) \<and> th \<le> L4_OFF_MAX \<and> l4_off c1 = word_of_nat th"
    using assms unfolding out_process_l4_def Let_def
    by (auto split: sum.splits if_splits prod.splits simp: XFW_MAKE_CTX_PASS_def not_less)
qed


lemma tc_dom:
  assumes "update_law (update_tcp_conn E)"
  shows "dom (tcp_conn (snd (xfw_tc E s))) \<subseteq> dom (tcp_conn s) \<union> {a. sent_open (map_cfg (ro s)) (pkt s) a}" (is "_ \<subseteq> ?B")
proof (cases "xfw_ctx_init E s")
  case (Some c)
  have cc: "map_cfg (ro s) = Some (cfg c)" "hdr_cur c = \<lparr>pos = 0, cur_end = length (pkt s)\<rparr>" using xfw_ctx_init_Some[OF Some] by simp_all
  obtain r up c' where f: "xfw_tc_egress_filter E c s = (r, up, c')" by (metis prod.collapse)
  have run: "tcp_conn (snd (xfw_tc E s)) = tcp_conn (snd r)" by (simp add: xfw_tc_def Some f Let_def case_prod_beta)
  from f have "dom (tcp_conn (snd r)) \<subseteq> ?B"
  proof (cases rule: tc_filter_cases)
    case (decided c0 s1 c1 net s2 cur)
    define d where "d = (if up then (XFW_CTX_CONTINUE, s2) else process_downstream_egress E c' s2)"
    have s1: "tcp_conn s1 = tcp_conn s" "pkt s1 = pkt s" using out_l3_stage(3,5)[OF decided(3)] by simp_all
    have s2: "tcp_conn s2 = tcp_conn s" "pkt s2 = pkt s" using out_l4_stage(3,5)[OF decided(4)] s1 by simp_all
    have d: "tcp_conn (snd d) = tcp_conn s" "pkt (snd d) = pkt s"
      using s2 by (simp_all add: d_def process_downstream_egress_def CHAIN_def conn_view.rules pkt_view.rules)
    have l4: "ilog_addr c' = ilog_addr c1" "l4_proto c' = l4_proto c1" using out_l4_conn(2,3)[OF decided(4)] .
    have learn: "dom (tcp_conn (tcp_auth_conn_egress_learning E c' (snd d))) \<subseteq> ?B" if "l4_proto c' = XFW_L4_PROTO_TCP"
    proof -
      have "l4_proto c1 = XFW_L4_PROTO_TCP" using that l4(2) by simp
      then obtain len th cur' where th: "parse_tcphdr (pkt s) (hdr_cur c1) = (Inr (len, th), cur')" "th \<le> L4_OFF_MAX" "l4_off c' = word_of_nat th"
        using out_l4_conn(4)[OF decided(4)] s1(2) by auto
      have "\<exists>src. tcp_headers (pkt s) src (ilog_addr c1) th"
        using out_l3_continue[OF decided(3)] decided(1,2) cc(2) th(1) that l4(2) unfolding tcp_headers_def by metis
      moreover have "unat (l4_off c') = th" using th(2,3) by (simp add: unat_offsets)
      moreover have "cfg c' = cfg c" using decided(6,7) by (simp add: same_packet_def)
      ultimately show ?thesis
        by (intro subset_trans[OF learning_dom[OF assms]]) (auto simp: sent_open_def goes_to_def d cc(1) l4(1) intro!: exI[of _ th])
    qed
    have "r = (if fst d = XFW_CTX_CONTINUE
      then (XFW_CTX_PASS, if l4_proto c' = XFW_L4_PROTO_TCP then tcp_auth_conn_egress_learning E c' (snd d) else snd d) else d)"
      using decided(9) by (simp add: d_def Let_def)
    then show ?thesis using learn d(1) by (auto split: if_splits)
  qed auto
  then show ?thesis by (simp only: run)
qed (auto simp: xfw_tc_def)


section \<open>Runs of both programs\<close>

text \<open>
  The states the two programs can reach from an empty flow table, whatever packets arrive
  and leave, with the configuration and the incident log changed by the manager in between,
  and the set of peers to which a flow was opened on the way.
\<close>

inductive reach :: "state \<Rightarrow> XfwSockAddr set \<Rightarrow> bool" where
  reach_start: "tcp_conn s = Map.empty \<Longrightarrow> reach s {}"
| reach_ingress: "reach s A \<Longrightarrow> update_law (update_tcp_conn E) \<Longrightarrow>
    reach (snd (xfw_xdp E (s\<lparr>pkt := p, meta := m\<rparr>))) (A \<union> {a. cookie_ack E p a})"
| reach_egress: "reach s A \<Longrightarrow> update_law (update_tcp_conn E) \<Longrightarrow>
    reach (snd (xfw_tc E (s\<lparr>pkt := p, meta := m\<rparr>))) (A \<union> {a. sent_open (map_cfg (ro s)) p a})"
| reach_configure: "reach s A \<Longrightarrow> reach (s\<lparr>ro := r\<rparr>) A"
| reach_log: "reach s A \<Longrightarrow> reach (s\<lparr>ilog_map := im, ilog_hint := h, log_events := le\<rparr>) A"

lemma reach_dom: "reach s A \<Longrightarrow> dom (tcp_conn s) \<subseteq> A"
proof (induction rule: reach.induct)
  case (reach_ingress s A E m p)
  have "dom (tcp_conn (snd (xfw_xdp E (s\<lparr>pkt := p, meta := m\<rparr>)))) \<subseteq> dom (tcp_conn s) \<union> {a. cookie_ack E p a}"
    using xdp_dom[OF reach_ingress(2), of "s\<lparr>pkt := p, meta := m\<rparr>"] by simp
  then show ?case using reach_ingress(3) by blast
next
  case (reach_egress s A E m p)
  have "dom (tcp_conn (snd (xfw_tc E (s\<lparr>pkt := p, meta := m\<rparr>)))) \<subseteq> dom (tcp_conn s) \<union> {a. sent_open (map_cfg (ro s)) p a}"
    using tc_dom[OF reach_egress(2), of "s\<lparr>pkt := p, meta := m\<rparr>"] by simp
  then show ?case using reach_egress(3) by blast
qed auto


section \<open>Only opened flows get in\<close>

definition ip_header_inside :: "XfwGlobalCtx \<Rightarrow> bool" where
  "ip_header_inside c \<longleftrightarrow>
     (if ipver c = bpf_ntohs ETH_P_IP then unat (ip_off c) + 20 \<le> cur_end (hdr_cur c)
      else unat (ip_off c) + 40 \<le> cur_end (hdr_cur c))"

lemma ack_filter_verdict:
  "ip_header_inside c \<Longrightarrow> fst (tcp_syncookies_ack_filter E c th s) \<in> {XFW_CTX_CONTINUE, XFW_CTX_DROP}"
  by (auto simp: tcp_syncookies_ack_filter_def ip_header_inside_def syncookie_failed_def XFW_MAKE_CTX_DROP_def XFW_ASSERT_def
      Let_def split: option.split)

lemma l3_inside:
  assumes "in_process_l3 E c key s = (r, c1, key1)" "fst r = XFW_CTX_CONTINUE" "pos (hdr_cur c) \<le> L3_OFF_MAX"
  shows "ip_header_inside c1"
proof -
  have arp: "ipver c \<noteq> bpf_ntohs ETH_P_ARP"
    using assms(1,2) by (auto simp: in_process_l3_def XFW_MAKE_CTX_PASS_def)
  have e: "cur_end (hdr_cur c1) = cur_end (hdr_cur c)" using untouched_l3[OF assms(1)] by simp
  show ?thesis
    using l3_not_drop[OF assms(1) _ assms(3)] assms(2) arp unat_offsets(1)[OF assms(3)]
    unfolding ip_header_inside_def e
    by (auto simp: parse_iphdr_def parse_ip6hdr_def Let_def split: if_splits option.splits)
qed

lemma flags_drop:
  assumes "tcp_auth_enabled (rules (cfg c))" "a \<notin> dom (tcp_conn s)" "\<not> syn_only (pkt s) th" "syncookies s \<noteq> None"
    "ip_header_inside c" "\<And>z. ack_only (pkt s) th \<Longrightarrow> pkt z = pkt s \<Longrightarrow> fst (tcp_syncookies_ack_filter E c th z) \<noteq> XFW_CTX_CONTINUE"
  shows "fst (tcp_flags_filter E c th a s) = XFW_CTX_DROP"
proof -
  have nt: "\<not> tcp_auth_has_conn_trusted E c a z" if "tcp_conn z = tcp_conn s" for z
    using assms(2) that by (auto simp: tcp_auth_has_conn_trusted_def tcp_auth_conn_lookup_def domIff)
  have auth: "fst (tcp_auth_conn_ingress_filter E c a ev z) = XFW_CTX_DROP" if "tcp_conn z = tcp_conn s" for ev z
    using ingress_verdict[OF assms(1), of E a ev z] nt[OF that] by simp
  have rst: "fst (CHAIN (tcp_auth_conn_ingress_filter E c a ev z) k) = XFW_CTX_DROP" if "tcp_conn z = tcp_conn s" for ev z k
    using auth[OF that] by (simp add: CHAIN_def)
  have ack: "fst (tcp_rcv_ack_filter E c th a z) = XFW_CTX_DROP" if ao: "ack_only (pkt s) th" and z: "z = count_traffic_stat c XFW_ACK s" for z
  proof -
    obtain ts where ts: "syncookies z = Some ts" using assms(4) z by auto
    obtain flood ts' where f: "tcp_syncookies_flood_mode c ts = (flood, ts')" by fastforce
    let ?z = "z\<lparr>syncookies := Some ts'\<rparr>"
    have "fst (tcp_syncookies_ack_filter E c th ?z) = XFW_CTX_DROP"
      using assms(6)[OF ao, of ?z] ack_filter_verdict[OF assms(5), of E th ?z] z by auto
    moreover have "tcp_conn z = tcp_conn s" using z by simp
    ultimately show ?thesis
      using auth[of z] auth[of ?z] nt[of ?z] by (simp add: tcp_rcv_ack_filter_def ts f Let_def CHAIN_def)
  qed
  show ?thesis
    using assms(3) auth rst ack unfolding tcp_flags_filter_def Let_def by (auto simp: syn_only_def ack_only_def)
qed

lemma l4_unopened:
  assumes "l4_proto c = XFW_L4_PROTO_TCP" "parse_tcphdr (pkt s) (hdr_cur c) = (Inr (len, th), cur)"
    "tcp_auth_enabled (rules (cfg c))" "a = \<lparr>sa_addr = ilog_addr c, sa_port = l4_source (pkt s) th\<rparr>"
    "a \<notin> dom (tcp_conn s)" "\<not> syn_only (pkt s) th" "syncookies s \<noteq> None" "ip_header_inside c"
    "\<And>c z. ack_only (pkt s) th \<Longrightarrow> pkt z = pkt s \<Longrightarrow> fst (tcp_syncookies_ack_filter E c th z) \<noteq> XFW_CTX_CONTINUE"
    "\<And>c' z. cfg c' = cfg c \<Longrightarrow> ro z = ro s \<Longrightarrow> fst (src_filter E c' (l4_source (pkt s) th) key z) \<noteq> XFW_CTX_PASS"
  shows "fst (fst (in_process_l4 E c key s)) = XFW_CTX_DROP"
proof -
  define c1 where "c1 = c\<lparr>hdr_cur := cur, l4_off := word_of_nat th\<rparr>"
  define s1 where "s1 = count_traffic_stat c XFW_TCP_TOTAL_INGRESS s"
  have s1: "pkt s1 = pkt s" "tcp_conn s1 = tcp_conn s" "syncookies s1 = syncookies s" "ro s1 = ro s" by (simp_all add: s1_def)
  have c1: "cfg c1 = cfg c" "ilog_addr c1 = ilog_addr c" "ip_header_inside c1"
    using assms(8) tcp.prs_end[of "pkt s" "hdr_cur c"] assms(2) by (simp_all add: c1_def ip_header_inside_def)
  let ?r = "tcp_anomaly_filter E c1 th s1"
  let ?q = "src_filter E c1 (l4_source (pkt s) th) key (snd ?r)"
  have r: "pkt (snd ?r) = pkt s" "tcp_conn (snd ?r) = tcp_conn s" "syncookies (snd ?r) = syncookies s" "ro (snd ?r) = ro s"
    using s1 by (simp_all add: pkt_view.rules conn_view.rules sc_view.rules ro_view.rules)
  have q: "pkt (snd ?q) = pkt s" "tcp_conn (snd ?q) = tcp_conn s" "syncookies (snd ?q) = syncookies s"
    using r by (simp_all add: pkt_view.src_rules conn_view.src_rules sc_view.src_rules)
  have vq: "fst ?q = XFW_CTX_CONTINUE \<or> fst ?q = XFW_CTX_DROP"
    using assms(10)[OF c1(1) r(4)] untouched_src_filter[of "\<lambda>_ _. False" "snd ?r" E c1 "l4_source (pkt s) th" key]
    by (cases "fst ?q") (auto simp: untouched_def)
  have "fst (tcp_flags_filter E c1 th a (snd ?q)) = XFW_CTX_DROP"
    by (rule flags_drop) (use assms(3,5-7,9) q c1 in auto)
  then have "fst (CHAIN ?r (\<lambda>s. CHAIN (src_filter E c1 (l4_source (pkt s) th) key s) (\<lambda>s.
      tcp_flags_filter E c1 th \<lparr>sa_addr = ilog_addr c1, sa_port = l4_source (pkt s) th\<rparr> s))) = XFW_CTX_DROP"
    using tcp_anomaly_verdict[of E c1 th s1] vq r(1) q(1) c1(2) assms(4) by (auto simp: CHAIN_def)
  then show ?thesis
    using assms(1,2) by (auto simp: in_process_l4_def in_process_tcp_def Let_def c1_def s1_def XFW_MAKE_CTX_DROP_def)
qed


text \<open>A FIN from 10.1.2.3 port 1234 to a host that has opened no flow.\<close>

definition fin_pkt :: packet where
  "fin_pkt = [2, 0, 0, 0, 0, 1, 2, 0, 0, 0, 0, 2, 8, 0,
     0x45, 0, 0, 40, 0, 0, 0, 0, 64, 6, 0, 0, 10, 1, 2, 3, 192, 168, 0, 1,
     4, 210, 31, 144, 0, 0, 0, 1, 0, 0, 0, 0, 0x50, 0x11, 0xFF, 0xFF, 0, 0, 0, 0]"

definition fin_peer :: XfwSockAddr where
  "fin_peer = \<lparr>sa_addr = xfw_ipv4_to_ipv6_mapped (ip_saddr fin_pkt 14), sa_port = l4_source fin_pkt 34\<rparr>"

lemma fin_pkt_parses:
  "parse_ethhdr fin_pkt \<lparr>pos = 0, cur_end = 54\<rparr> = (Inr (bpf_ntohs ETH_P_IP), \<lparr>pos = 14, cur_end = 54\<rparr>)"
  "parse_iphdr fin_pkt \<lparr>pos = 14, cur_end = 54\<rparr> = (Inr (XFW_L4_PROTO_TCP, 14), \<lparr>pos = 34, cur_end = 54\<rparr>)"
  "parse_tcphdr fin_pkt \<lparr>pos = 34, cur_end = 54\<rparr> = (Inr (20, 34), \<lparr>pos = 54, cur_end = 54\<rparr>)"
  "tcp_fin fin_pkt 34" "length fin_pkt = 54"
  by code_simp+


end
