(* ===== verification/RateTable.thy ===== *)
theory RateTable
  imports Prelude
begin

text \<open>
  The table of named rate limits of the manager (\<open>XfwConfig::Ratelimits\<close> in
  \<open>manager/xfw/configuration.hh\<close> and \<open>configuration.cc\<close>). Rules refer to a rate limit
  by its slot, so a slot must keep its name as long as a rule may use it: deleting marks the
  slot inactive, and only \<open>free_inactive\<close>, called after a complete update, makes it
  available again.
\<close>

datatype Ratelimit_State = Active | Inactive | ReadyToUse

record Ratelimit =
  rl_alias :: string
  rl_pps :: u64
  rl_bps :: u64
  rl_state :: Ratelimit_State

text \<open>The index of a slot is a byte; there are \<open>MaxEntries\<close> = 255 slots.\<close>

definition MaxEntries :: nat where "MaxEntries = 255"

record Ratelimits =
  ratelimits :: "Ratelimit list"
  name_to_index :: "string \<rightharpoonup> u8"
  rl_free :: "u8 list"

datatype rate_error = Active_ratelimit_not_found string | No_free_slots string | Ratelimit_not_found string

definition slots :: "u8 list" where
  "slots = map word_of_nat [0..<MaxEntries]"

definition Ratelimits_new :: Ratelimits where
  "Ratelimits_new = \<lparr>ratelimits = replicate MaxEntries
       \<lparr>rl_alias = '''', rl_pps = 0, rl_bps = 0, rl_state = ReadyToUse\<rparr>,
     name_to_index = Map.empty, rl_free = slots\<rparr>"

abbreviation limit_at :: "Ratelimits \<Rightarrow> u8 \<Rightarrow> Ratelimit" where
  "limit_at t i \<equiv> ratelimits t ! unat i"

definition put_limit :: "u8 \<Rightarrow> Ratelimit \<Rightarrow> Ratelimits \<Rightarrow> Ratelimits" where
  "put_limit i r t = t\<lparr>ratelimits := (ratelimits t)[unat i := r]\<rparr>"

definition get_active_index :: "Ratelimits \<Rightarrow> string \<Rightarrow> rate_error + u8" where
  "get_active_index t name =
     (case name_to_index t name of
        Some i \<Rightarrow> if rl_state (limit_at t i) = Active then Inr i else Inl (Active_ratelimit_not_found name)
      | None \<Rightarrow> Inl (Active_ratelimit_not_found name))"

definition upsert :: "string \<Rightarrow> u64 \<Rightarrow> u64 \<Rightarrow> Ratelimits \<Rightarrow> rate_error + Ratelimits" where
  "upsert name pps bps t =
     (case name_to_index t name of
        Some i \<Rightarrow> Inr (put_limit i ((limit_at t i)\<lparr>rl_pps := pps, rl_bps := bps, rl_state := Active\<rparr>) t)
      | None \<Rightarrow>
          (case rl_free t of
             [] \<Rightarrow> Inl (No_free_slots name)
           | i # rest \<Rightarrow>
               Inr ((put_limit i \<lparr>rl_alias = name, rl_pps = pps, rl_bps = bps, rl_state = Active\<rparr> t)
                 \<lparr>rl_free := rest, name_to_index := (name_to_index t)(name \<mapsto> i)\<rparr>)))"

definition inactivate :: "string \<Rightarrow> Ratelimits \<Rightarrow> rate_error + Ratelimits" where
  "inactivate name t =
     (case name_to_index t name of
        Some i \<Rightarrow> Inr (put_limit i ((limit_at t i)\<lparr>rl_state := Inactive\<rparr>) t)
      | None \<Rightarrow> Inl (Ratelimit_not_found name))"

definition inactivate_all :: "Ratelimits \<Rightarrow> Ratelimits" where
  "inactivate_all t = t\<lparr>ratelimits :=
     map (\<lambda>r. if rl_state r = Active then r\<lparr>rl_state := Inactive\<rparr> else r) (ratelimits t)\<rparr>"

definition free_slot :: "u8 \<Rightarrow> Ratelimits \<Rightarrow> Ratelimits" where
  "free_slot i t =
     (if rl_state (limit_at t i) \<noteq> Inactive then t
      else (put_limit i ((limit_at t i)\<lparr>rl_state := ReadyToUse\<rparr>) t)
        \<lparr>name_to_index := (name_to_index t)(rl_alias (limit_at t i) := None), rl_free := rl_free t @ [i]\<rparr>)"

definition free_inactive :: "Ratelimits \<Rightarrow> Ratelimits" where
  "free_inactive = fold free_slot slots"

text \<open>
  Moving a table refers the names to the strings of the new object by rebuilding the
  index; \<open>emplace\<close> keeps the first entry of a name.
\<close>

definition refill_slot :: "Ratelimits \<Rightarrow> u8 \<Rightarrow> (string \<rightharpoonup> u8) \<Rightarrow> string \<rightharpoonup> u8" where
  "refill_slot t i m =
     (if rl_state (limit_at t i) = ReadyToUse then m
      else if m (rl_alias (limit_at t i)) \<noteq> None then m
      else m(rl_alias (limit_at t i) \<mapsto> i))"

definition refill_name_to_index :: "Ratelimits \<Rightarrow> Ratelimits" where
  "refill_name_to_index t = t\<lparr>name_to_index := fold (refill_slot t) slots Map.empty\<rparr>"

definition Ratelimits_move :: "Ratelimits \<Rightarrow> Ratelimits" where
  "Ratelimits_move other = refill_name_to_index \<lparr>ratelimits = ratelimits other,
     name_to_index = Map.empty, rl_free = rl_free other\<rparr>"


section \<open>The invariant\<close>

text \<open>
  The free queue holds exactly the slots that are ready, once each, and the index maps a
  name to the slot that has it and is not ready.
\<close>

definition table_inv :: "Ratelimits \<Rightarrow> bool" where
  "table_inv t \<longleftrightarrow> length (ratelimits t) = MaxEntries \<and> distinct (rl_free t)
     \<and> (\<forall>i. i \<in> set (rl_free t) \<longleftrightarrow> i \<in> set slots \<and> rl_state (limit_at t i) = ReadyToUse)
     \<and> (\<forall>n i. name_to_index t n = Some i \<longleftrightarrow>
          i \<in> set slots \<and> rl_alias (limit_at t i) = n \<and> rl_state (limit_at t i) \<noteq> ReadyToUse)"

lemma slots_iff: "i \<in> set slots \<longleftrightarrow> unat i < MaxEntries"
proof
  assume "unat i < MaxEntries"
  then have "(word_of_nat (unat i) :: u8) \<in> word_of_nat ` {0..<MaxEntries}"
    by (intro imageI) simp
  then show "i \<in> set slots" by (simp add: slots_def)
qed (auto simp: slots_def MaxEntries_def unat_of_nat)

lemma distinct_slots: "distinct slots"
proof -
  have "inj_on (word_of_nat :: nat \<Rightarrow> u8) {0..<255}"
    by (rule inj_onI) (simp add: word_of_nat_eq_iff take_bit_nat_eq_self)
  then show ?thesis by (simp add: slots_def MaxEntries_def distinct_map)
qed

lemma limit_at_put:
  "length (ratelimits t) = MaxEntries \<Longrightarrow> i \<in> set slots \<Longrightarrow>
     limit_at (put_limit i r t) j = (if j = i then r else limit_at t j)"
  by (auto simp: put_limit_def slots_iff nth_list_update word_unat_eq_iff)

lemma put_limit_fields [simp]:
  "length (ratelimits (put_limit i r t)) = length (ratelimits t)"
  "name_to_index (put_limit i r t) = name_to_index t" "rl_free (put_limit i r t) = rl_free t"
  by (simp_all add: put_limit_def)

lemma table_inv_new: "table_inv Ratelimits_new"
  by (auto simp: table_inv_def Ratelimits_new_def distinct_slots slots_iff)

lemma table_invD:
  assumes "table_inv t"
  shows "length (ratelimits t) = MaxEntries" "distinct (rl_free t)"
    "i \<in> set (rl_free t) \<longleftrightarrow> i \<in> set slots \<and> rl_state (limit_at t i) = ReadyToUse"
    "name_to_index t n = Some i \<longleftrightarrow>
       i \<in> set slots \<and> rl_alias (limit_at t i) = n \<and> rl_state (limit_at t i) \<noteq> ReadyToUse"
  using assms unfolding table_inv_def by blast+

text \<open>Changing rates and state of a named slot, not to ready.\<close>

lemma table_inv_put:
  assumes "table_inv t" "name_to_index t n = Some i" "rl_alias r = n" "rl_state r \<noteq> ReadyToUse"
  shows "table_inv (put_limit i r t)"
  using assms table_invD[OF assms(1)] unfolding table_inv_def
  by (auto simp: limit_at_put)

lemma table_invI:
  assumes "length (ratelimits t) = MaxEntries" "distinct (rl_free t)"
    "\<And>i. i \<in> set (rl_free t) \<longleftrightarrow> i \<in> set slots \<and> rl_state (limit_at t i) = ReadyToUse"
    "\<And>n i. name_to_index t n = Some i \<longleftrightarrow>
       i \<in> set slots \<and> rl_alias (limit_at t i) = n \<and> rl_state (limit_at t i) \<noteq> ReadyToUse"
  shows "table_inv t"
  using assms by (simp add: table_inv_def)

lemma upsert_cases:
  assumes "table_inv t" "upsert n pps bps t = Inr t'"
  obtains i where "name_to_index t n = Some i"
      "t' = put_limit i ((limit_at t i)\<lparr>rl_pps := pps, rl_bps := bps, rl_state := Active\<rparr>) t"
  | i rest where "name_to_index t n = None" "rl_free t = i # rest" "i \<in> set slots"
      "rl_state (limit_at t i) = ReadyToUse"
      "t' = (put_limit i \<lparr>rl_alias = n, rl_pps = pps, rl_bps = bps, rl_state = Active\<rparr> t)
         \<lparr>rl_free := rest, name_to_index := (name_to_index t)(n \<mapsto> i)\<rparr>"
proof (cases "name_to_index t n")
  case None
  then obtain i rest where "rl_free t = i # rest"
    using assms(2) by (auto simp: upsert_def split: list.splits)
  with None assms table_invD(3)[OF assms(1), of i] that(2) show thesis by (auto simp: upsert_def)
next
  case (Some i)
  with assms(2) that(1) show thesis by (auto simp: upsert_def)
qed

lemma upsert_inv:
  assumes inv: "table_inv t" and u: "upsert n pps bps t = Inr t'"
  shows "table_inv t'"
  using inv u
proof (cases rule: upsert_cases)
  case (1 i)
  then show ?thesis using table_inv_put[OF inv 1(1)] table_invD(4)[OF inv, of n i] by simp
next
  case (2 i rest)
  note t = table_invD[OF inv]
  have other: "\<not> (j \<in> set slots \<and> rl_alias (limit_at t j) = n \<and> rl_state (limit_at t j) \<noteq> ReadyToUse)" for j
    using t(4)[of n j] 2(1) by simp
  let ?r = "\<lparr>rl_alias = n, rl_pps = pps, rl_bps = bps, rl_state = Active\<rparr>"
  have sl: "limit_at t' j = (if j = i then ?r else limit_at t j)" for j
    using limit_at_put[OF t(1) 2(3)] by (simp add: 2(5))
  show ?thesis
  proof (rule table_invI)
    show "length (ratelimits t') = MaxEntries" "distinct (rl_free t')" using t(1,2) 2 by simp_all
    show "j \<in> set (rl_free t') \<longleftrightarrow> j \<in> set slots \<and> rl_state (limit_at t' j) = ReadyToUse" for j
      unfolding sl using t(2) t(3)[of j] 2(2,5) by auto
    show "name_to_index t' m = Some j \<longleftrightarrow>
        j \<in> set slots \<and> rl_alias (limit_at t' j) = m \<and> rl_state (limit_at t' j) \<noteq> ReadyToUse" for m j
      unfolding sl using t(4)[of m j] 2(3-5) other[of j] by auto
  qed
qed

lemma inactivate_inv:
  assumes "table_inv t" "inactivate n t = Inr t'"
  shows "table_inv t'"
proof -
  obtain i where i: "name_to_index t n = Some i" "t' = put_limit i ((limit_at t i)\<lparr>rl_state := Inactive\<rparr>) t"
    using assms(2) by (auto simp: inactivate_def split: option.splits)
  then show ?thesis using table_inv_put[OF assms(1) i(1)] table_invD(4)[OF assms(1), of n i] by simp
qed

lemma slot_inactivate_all:
  assumes "length (ratelimits t) = MaxEntries" "i \<in> set slots"
  shows "limit_at (inactivate_all t) i =
    (if rl_state (limit_at t i) = Active then (limit_at t i)\<lparr>rl_state := Inactive\<rparr> else limit_at t i)"
  using assms by (simp add: inactivate_all_def slots_iff)

lemma inactivate_all_inv:
  assumes "table_inv t"
  shows "table_inv (inactivate_all t)"
proof (rule table_invI)
  note t = table_invD[OF assms] and sl = slot_inactivate_all[OF table_invD(1)[OF assms]]
  show "length (ratelimits (inactivate_all t)) = MaxEntries" "distinct (rl_free (inactivate_all t))"
    using t(1,2) by (simp_all add: inactivate_all_def)
  show "i \<in> set (rl_free (inactivate_all t)) \<longleftrightarrow>
      i \<in> set slots \<and> rl_state (limit_at (inactivate_all t) i) = ReadyToUse" for i
    using t(3)[of i] sl[of i] by (auto simp: inactivate_all_def[of t] split: if_splits)
  show "name_to_index (inactivate_all t) n = Some i \<longleftrightarrow> i \<in> set slots
      \<and> rl_alias (limit_at (inactivate_all t) i) = n \<and> rl_state (limit_at (inactivate_all t) i) \<noteq> ReadyToUse" for n i
    using t(4)[of n i] sl[of i] by (auto simp: inactivate_all_def[of t] split: if_splits)
qed

lemma free_slot_slot:
  assumes "table_inv t" "i \<in> set slots"
  shows "limit_at (free_slot i t) j = (if j = i \<and> rl_state (limit_at t i) = Inactive
      then (limit_at t i)\<lparr>rl_state := ReadyToUse\<rparr> else limit_at t j)"
  using limit_at_put[OF table_invD(1)[OF assms(1)] assms(2)] by (simp add: free_slot_def)

lemma free_slot_inv:
  assumes inv: "table_inv t" and i: "i \<in> set slots"
  shows "table_inv (free_slot i t)"
proof (cases "rl_state (limit_at t i) = Inactive")
  case True
  note t = table_invD[OF inv] and sl = free_slot_slot[OF inv i]
  have f: "rl_free (free_slot i t) = rl_free t @ [i]"
    "name_to_index (free_slot i t) = (name_to_index t)(rl_alias (limit_at t i) := None)"
    using True by (simp_all add: free_slot_def)
  show ?thesis
  proof (rule table_invI)
    show "length (ratelimits (free_slot i t)) = MaxEntries" using t(1) by (simp add: free_slot_def)
    show "distinct (rl_free (free_slot i t))" using t(2) t(3)[of i] True by (simp add: f)
    show "j \<in> set (rl_free (free_slot i t)) \<longleftrightarrow>
        j \<in> set slots \<and> rl_state (limit_at (free_slot i t) j) = ReadyToUse" for j
      unfolding sl f using t(3)[of j] True i by auto
    show "name_to_index (free_slot i t) n = Some j \<longleftrightarrow> j \<in> set slots
        \<and> rl_alias (limit_at (free_slot i t) j) = n \<and> rl_state (limit_at (free_slot i t) j) \<noteq> ReadyToUse" for n j
      unfolding sl f using t(4)[of n j] t(4)[of n i] True i by auto
  qed
qed (use inv in \<open>simp add: free_slot_def\<close>)

lemma free_slots:
  assumes "table_inv t" "set is \<subseteq> set slots" "distinct is"
  shows "table_inv (fold free_slot is t) \<and> limit_at (fold free_slot is t) j =
    (if j \<in> set is \<and> rl_state (limit_at t j) = Inactive then (limit_at t j)\<lparr>rl_state := ReadyToUse\<rparr> else limit_at t j)"
  using assms
proof (induction "is" arbitrary: t)
  case (Cons i "is")
  then show ?case
    using Cons.IH[of "free_slot i t"] free_slot_inv[of t i] free_slot_slot[of t i j] by auto
qed simp

lemma free_inactive_inv:
  assumes "table_inv t"
  shows "table_inv (free_inactive t)"
  using free_slots[OF assms order_refl distinct_slots] by (simp add: free_inactive_def)

lemma slot_free_inactive:
  assumes "table_inv t" "i \<in> set slots"
  shows "limit_at (free_inactive t) i =
    (if rl_state (limit_at t i) = Inactive then (limit_at t i)\<lparr>rl_state := ReadyToUse\<rparr> else limit_at t i)"
  using free_slots[OF assms(1) order_refl distinct_slots, of i] assms(2) by (simp add: free_inactive_def)

lemma free_inactive_names:
  assumes "table_inv t"
  shows "name_to_index (free_inactive t) n = Some j \<longleftrightarrow>
    name_to_index t n = Some j \<and> rl_state (limit_at t j) \<noteq> Inactive"
  unfolding table_invD(4)[OF assms] table_invD(4)[OF free_inactive_inv[OF assms]]
  by (cases "j \<in> set slots"; cases "rl_state (limit_at t j)") (simp_all add: slot_free_inactive[OF assms])

text \<open>Rebuilding the index of a well-formed table gives the same index.\<close>

lemma refill_fold:
  assumes "table_inv t" "set is \<subseteq> set slots"
  shows "fold (refill_slot t) is m n =
    (case m n of Some i \<Rightarrow> Some i
     | None \<Rightarrow> (case name_to_index t n of Some i \<Rightarrow> if i \<in> set is then Some i else None | None \<Rightarrow> None))"
  using assms(2)
proof (induction "is" arbitrary: m)
  case (Cons i "is")
  note t = table_invD(4)[OF assms(1)]
  have "refill_slot t i m n = (if m n = None \<and> name_to_index t n = Some i then Some i else m n)"
    using t[of n i] t[of "rl_alias (limit_at t i)" i] Cons.prems by (auto simp: refill_slot_def)
  then show ?case using Cons by (auto split: option.splits)
qed (simp split: option.splits)

lemma refill_slot_cong: "ratelimits t = ratelimits t' \<Longrightarrow> refill_slot t = refill_slot t'"
  by (simp add: refill_slot_def fun_eq_iff)

lemma move_id:
  assumes "table_inv t"
  shows "Ratelimits_move t = t"
proof -
  let ?t = "\<lparr>ratelimits = ratelimits t, name_to_index = Map.empty, rl_free = rl_free t\<rparr>"
  have "fold (refill_slot t) slots Map.empty n = name_to_index t n" for n
    using refill_fold[OF assms order_refl, of Map.empty n] table_invD(4)[OF assms, of n "the (name_to_index t n)"]
    by (cases "name_to_index t n") simp_all
  then have "fold (refill_slot ?t) slots Map.empty = name_to_index t"
    using refill_slot_cong[of ?t t] by auto
  then show ?thesis by (simp add: Ratelimits_move_def refill_name_to_index_def)
qed


section \<open>Sequences of operations\<close>

text \<open>
  The operations an update of the configuration performs on the table, with the move of the
  prepared table into the stored configuration; an error ends the update.
\<close>

datatype rate_op = Upsert string u64 u64 | Inactivate string | Inactivate_all | Move | Free_inactive

fun rate_step :: "rate_op \<Rightarrow> Ratelimits \<Rightarrow> rate_error + Ratelimits" where
  "rate_step (Upsert n pps bps) t = upsert n pps bps t"
| "rate_step (Inactivate n) t = inactivate n t"
| "rate_step Inactivate_all t = Inr (inactivate_all t)"
| "rate_step Move t = Inr (Ratelimits_move t)"
| "rate_step Free_inactive t = Inr (free_inactive t)"

fun rate_run :: "rate_op list \<Rightarrow> Ratelimits \<Rightarrow> rate_error + Ratelimits" where
  "rate_run [] t = Inr t"
| "rate_run (op # ops) t = (case rate_step op t of Inl e \<Rightarrow> Inl e | Inr t' \<Rightarrow> rate_run ops t')"

lemma rate_step_inv:
  "table_inv t \<Longrightarrow> rate_step op t = Inr t' \<Longrightarrow> table_inv t'"
  by (cases op) (auto intro: upsert_inv inactivate_inv inactivate_all_inv free_inactive_inv simp: move_id)

lemma rate_run_inv:
  "table_inv t \<Longrightarrow> rate_run ops t = Inr t' \<Longrightarrow> table_inv t'"
  by (induction ops arbitrary: t) (auto split: sum.splits dest: rate_step_inv)

text \<open>A step other than \<open>free_inactive\<close> keeps the slot of a name, and takes ready slots only.\<close>

lemma rate_step_stable:
  assumes "table_inv t" "rate_step op t = Inr t'" "op \<noteq> Free_inactive"
  shows "name_to_index t n = Some i \<Longrightarrow> name_to_index t' n = Some i"
    and "i \<in> set slots \<Longrightarrow> rl_state (limit_at t i) \<noteq> ReadyToUse \<Longrightarrow>
      rl_state (limit_at t' i) \<noteq> ReadyToUse \<and> rl_alias (limit_at t' i) = rl_alias (limit_at t i)"
proof -
  have names: "name_to_index t' n = Some i" if "name_to_index t n = Some i" for n i
    using assms that
    by (cases op) (auto simp: inactivate_def inactivate_all_def move_id split: option.splits elim!: upsert_cases)
  then show "name_to_index t n = Some i \<Longrightarrow> name_to_index t' n = Some i" .
  assume "i \<in> set slots" "rl_state (limit_at t i) \<noteq> ReadyToUse"
  then have "name_to_index t' (rl_alias (limit_at t i)) = Some i"
    using names table_invD(4)[OF assms(1)] by blast
  then show "rl_state (limit_at t' i) \<noteq> ReadyToUse \<and> rl_alias (limit_at t' i) = rl_alias (limit_at t i)"
    using table_invD(4)[OF rate_step_inv[OF assms(1,2)]] by blast
qed

lemma option_eqI: "(\<And>v. x = Some v \<longleftrightarrow> y = Some v) \<Longrightarrow> x = y"
  by (cases x; cases y) auto

lemma rate_run_stable:
  assumes "table_inv t" "rate_run ops t = Inr t'" "Free_inactive \<notin> set ops" "name_to_index t n = Some i"
  shows "name_to_index t' n = Some i"
  using assms
proof (induction ops arbitrary: t)
  case (Cons op ops)
  then obtain t1 where s: "rate_step op t = Inr t1" "rate_run ops t1 = Inr t'" by (auto split: sum.splits)
  from Cons.prems(3) have "op \<noteq> Free_inactive" "Free_inactive \<notin> set ops" by auto
  then show ?case
    using Cons.IH[OF rate_step_inv[OF Cons.prems(1) s(1)] s(2)]
      rate_step_stable(1)[OF Cons.prems(1) s(1)] Cons.prems(4) by blast
qed simp

text \<open>
  C23. However the table of rate limits was built up, its queue of free slots and its index of
  names agree with the slots: the queue holds the ready slots once each and every other slot
  is found under its own name, so no two live slots share a name; and moving the table, which
  rebuilds the index, changes nothing.
\<close>

theorem rate_table_wellformed:
  assumes "rate_run ops Ratelimits_new = Inr t"
  shows "table_inv t \<and> Ratelimits_move t = t"
  using rate_run_inv[OF table_inv_new assms] move_id by blast

theorem rate_table_wellformed_witness:
  "table_inv (inactivate_all Ratelimits_new) \<and> Ratelimits_move (inactivate_all Ratelimits_new) = inactivate_all Ratelimits_new"
  using rate_table_wellformed[of "[Inactivate_all]"] by simp

text \<open>
  C24. During an update, up to the final \<open>free_inactive\<close>, a rate limit keeps its slot even if
  it is deleted, and a limit that is added takes a slot no live limit has: a rule that refers
  to a limit by slot means the same limit throughout. \<open>free_inactive\<close> then forgets exactly
  the inactive limits.
\<close>

theorem rate_slots_stable:
  assumes "table_inv t" "rate_run ops t = Inr t'" "Free_inactive \<notin> set ops"
  shows "(name_to_index t n = Some i \<longrightarrow> name_to_index t' n = Some i)
    \<and> (name_to_index t n = None \<and> name_to_index t' n = Some i \<longrightarrow> rl_state (limit_at t i) = ReadyToUse)
    \<and> name_to_index (free_inactive t') n = (case name_to_index t' n of
          Some i \<Rightarrow> if rl_state (limit_at t' i) = Inactive then None else Some i | None \<Rightarrow> None)"
proof (intro conjI impI)
  have inv: "table_inv t'" by (rule rate_run_inv[OF assms(1,2)])
  note stable = rate_run_stable[OF assms]
  show "name_to_index t' n = Some i" if "name_to_index t n = Some i" using stable that .
  show "rl_state (limit_at t i) = ReadyToUse" if "name_to_index t n = None \<and> name_to_index t' n = Some i"
  proof (rule ccontr)
    assume "rl_state (limit_at t i) \<noteq> ReadyToUse"
    moreover have i: "i \<in> set slots" "rl_alias (limit_at t' i) = n"
      using iffD1[OF table_invD(4)[OF inv] conjunct2[OF that]] by simp_all
    ultimately have m: "name_to_index t (rl_alias (limit_at t i)) = Some i"
      by (simp add: table_invD(4)[OF assms(1)])
    have "rl_alias (limit_at t i) = n"
      using iffD1[OF table_invD(4)[OF inv] stable[OF m]] i(2) by simp
    with m that show False by simp
  qed
  show "name_to_index (free_inactive t') n = (case name_to_index t' n of
          Some i \<Rightarrow> if rl_state (limit_at t' i) = Inactive then None else Some i | None \<Rightarrow> None)"
    by (rule option_eqI) (auto simp: free_inactive_names[OF inv] split: option.split)
qed

theorem rate_slots_stable_witness:
  "\<exists>t t'. rate_run [Upsert ''a'' 10 1000] Ratelimits_new = Inr t
     \<and> rate_run [Inactivate ''a'', Upsert ''b'' 20 2000] t = Inr t'
     \<and> name_to_index t' ''a'' = Some 0 \<and> name_to_index (free_inactive t') ''a'' = None"
proof -
  have sl: "slots = 0 # 1 # map word_of_nat [2..<MaxEntries]"
    by (simp add: slots_def MaxEntries_def upt_rec[of 0] upt_rec[of "Suc 0"] numeral_2_eq_2)
  define t where "t = \<lparr>ratelimits = (ratelimits Ratelimits_new)[0 := \<lparr>rl_alias = ''a'', rl_pps = 10,
      rl_bps = 1000, rl_state = Active\<rparr>], name_to_index = [''a'' \<mapsto> 0], rl_free = tl slots\<rparr>"
  have run: "rate_run [Upsert ''a'' 10 1000] Ratelimits_new = Inr t"
    by (simp add: upsert_def Ratelimits_new_def t_def sl put_limit_def)
  have inv: "table_inv t" by (rule rate_run_inv[OF table_inv_new run])
  obtain t' where t': "rate_run [Inactivate ''a'', Upsert ''b'' 20 2000] t = Inr t'"
      "rl_state (limit_at t' 0) = Inactive"
    by (simp add: upsert_def inactivate_def t_def sl put_limit_def Ratelimits_new_def MaxEntries_def)
  show ?thesis
    using run t' rate_slots_stable[OF inv t'(1), of "''a''" 0] by (simp add: t_def)
qed

end
