(* ===== verification/Config.thy ===== *)
theory Config
  imports Uapi Bitset RateTable
begin

text \<open>
  The configuration the manager keeps in memory (\<open>manager/xfw/configuration.hh\<close>): rules
  grouped under aliases, with their addresses, ports, countries and rate limits. Containers
  are lists in iteration order: \<open>std::map\<close> by alias, \<open>std::set\<close> by the key order.
\<close>

text \<open>The union of prefix length and port is the first field of a network key.\<close>

record Net4Key =
  n4_prefixlen :: u16
  n4_addr :: u32

record Net6Key =
  n6_prefixlen :: u16
  n6_addr :: XfwIp

record NetGeo =
  geo_code :: u16
  geo_net4s :: "Net4Key list"
  geo_net6s :: "Net6Key list"

record NetFlags =
  isProcNet :: bool
  isSrc :: bool
  isAllowed :: bool
  isTcp :: bool
  isIpv6 :: bool

record NetIp =
  ni_ratelimit_index :: "u8 option"
  ni_flags :: NetFlags
  ni_net4s :: "Net4Key list"
  ni_net6s :: "Net6Key list"
  ni_nets :: "NetGeo list"
  ni_ports :: "u16 list"

type_synonym NetIps = "(string \<times> NetIp) list"

record IcmpRule =
  ic_isAllowed :: bool
  ic_isIpv6 :: bool
  ic_ratelimit_index :: "u8 option"
  ic_types :: "u8 list"

type_synonym IcmpRules = "(string \<times> IcmpRule) list"

record Action =
  act_allow :: bool
  act_ratelimit_index :: "u8 option"

type_synonym Defaults = "DefaultIndex \<Rightarrow> Action option"

record TcpAnomalyFilter =
  an_enabled :: bool
  an_syn_without_opt :: bool
  an_syn_with_payload :: bool
  an_bad_flags :: BitSet
  an_syn_with_seqno :: "u32 option"

record SynCookieFilter =
  passive_timer :: u64
  flood_timer :: u64

text \<open>
  The one-field filters are their field: \<open>c_evaluation_mode\<close>, \<open>c_auth_filter\<close> and
  \<open>c_dns_filter\<close> are booleans, a TCP flag filter is the index of its rate limit, and the
  protocol filter is its bit set.
\<close>

record XfwConfig =
  c_evaluation_mode :: bool
  c_ip_proto_filter :: "BitSet option"
  c_syncookie_filter :: "SynCookieFilter option"
  c_tcp_syn_flag_filter :: "u8 option"
  c_tcp_rst_flag_filter :: "u8 option"
  c_anomaly_filter :: TcpAnomalyFilter
  c_auth_filter :: bool
  c_dns_filter :: bool
  c_src_rules :: NetIps
  c_icmp_rules :: IcmpRules
  c_dst_rules :: NetIps
  c_prot_net :: NetIps
  c_ratelimits :: Ratelimits
  c_defaults :: Defaults

definition empty_anomaly_filter :: TcpAnomalyFilter where
  "empty_anomaly_filter = \<lparr>an_enabled = False, an_syn_without_opt = False, an_syn_with_payload = False,
     an_bad_flags = bs_default XFW_BIT_CONTROL_MAX, an_syn_with_seqno = None\<rparr>"

definition XfwConfig_new :: XfwConfig where
  "XfwConfig_new = \<lparr>c_evaluation_mode = False, c_ip_proto_filter = None, c_syncookie_filter = None,
     c_tcp_syn_flag_filter = None, c_tcp_rst_flag_filter = None, c_anomaly_filter = empty_anomaly_filter,
     c_auth_filter = False, c_dns_filter = False, c_src_rules = [], c_icmp_rules = [], c_dst_rules = [],
     c_prot_net = [], c_ratelimits = Ratelimits_new, c_defaults = (\<lambda>_. None)\<rparr>"

end
