(* ===== verification/IndexPool.thy ===== *)
theory IndexPool
  imports Prelude
begin

text \<open>
  The pool of rate-limiter bucket indices of the manager (\<open>manager/xfw/index_pool.hh\<close>,
  \<open>index_pool.cc\<close>): a stack of free indices, and the transaction through which alone the
  pool is used. The storage the indices point into is external: it is the field
  \<open>storage\<close>, changed only by the callback the pool is constructed with. A transaction
  refers to its pool, so its operations take and return both.
\<close>

datatype pool_error = IndexPool_has_no_free_indices

text \<open>The vector of free indices is used at its back: \<open>last\<close> is the top of the stack.\<close>

record 'm IndexPool =
  free_indices :: "u32 list"
  storage :: 'm

definition IndexPool_new :: "nat \<Rightarrow> 'm \<Rightarrow> 'm IndexPool" where
  "IndexPool_new n m = \<lparr>free_indices = map word_of_nat [0..<n], storage = m\<rparr>"

definition pool_allocate :: "'m IndexPool \<Rightarrow> pool_error + (u32 \<times> 'm IndexPool)" where
  "pool_allocate p =
     (if free_indices p = [] then Inl IndexPool_has_no_free_indices
      else Inr (last (free_indices p), p\<lparr>free_indices := butlast (free_indices p)\<rparr>))"

definition pool_release :: "(u32 \<Rightarrow> 'm \<Rightarrow> 'm) \<Rightarrow> u32 \<Rightarrow> 'm IndexPool \<Rightarrow> 'm IndexPool" where
  "pool_release cb_on_release i p =
     p\<lparr>storage := cb_on_release i (storage p), free_indices := free_indices p @ [i]\<rparr>"

record IndexPoolTransaction =
  allocated :: "u32 list"
  released :: "u32 list"

definition tx_new :: IndexPoolTransaction where
  "tx_new = \<lparr>allocated = [], released = []\<rparr>"

type_synonym 'm tx_state = "'m IndexPool \<times> IndexPoolTransaction"

definition tx_allocate :: "'m tx_state \<Rightarrow> pool_error + (u32 \<times> 'm tx_state)" where
  "tx_allocate = (\<lambda>(p, tx).
     case pool_allocate p of
       Inl e \<Rightarrow> Inl e
     | Inr (i, p') \<Rightarrow> Inr (i, p', tx\<lparr>allocated := allocated tx @ [i]\<rparr>))"

definition tx_release :: "u32 \<Rightarrow> 'm tx_state \<Rightarrow> 'm tx_state" where
  "tx_release i = (\<lambda>(p, tx). (p, tx\<lparr>released := released tx @ [i]\<rparr>))"

definition release_all :: "(u32 \<Rightarrow> 'm \<Rightarrow> 'm) \<Rightarrow> u32 list \<Rightarrow> 'm IndexPool \<Rightarrow> 'm IndexPool" where
  "release_all cb = fold (pool_release cb)"

definition tx_commit :: "(u32 \<Rightarrow> 'm \<Rightarrow> 'm) \<Rightarrow> 'm tx_state \<Rightarrow> 'm tx_state" where
  "tx_commit cb = (\<lambda>(p, tx). (release_all cb (released tx) p, tx\<lparr>allocated := [], released := []\<rparr>))"

definition tx_rollback :: "(u32 \<Rightarrow> 'm \<Rightarrow> 'm) \<Rightarrow> 'm tx_state \<Rightarrow> 'm tx_state" where
  "tx_rollback cb = (\<lambda>(p, tx). (release_all cb (allocated tx) p, tx\<lparr>allocated := [], released := []\<rparr>))"

text \<open>The destructor: the pool that is left when the transaction goes out of scope.\<close>

definition tx_destroy :: "(u32 \<Rightarrow> 'm \<Rightarrow> 'm) \<Rightarrow> 'm tx_state \<Rightarrow> 'm IndexPool" where
  "tx_destroy cb t = fst (tx_rollback cb t)"

lemmas pool_defs = IndexPool_new_def pool_allocate_def pool_release_def
lemmas tx_defs = tx_new_def tx_allocate_def tx_release_def tx_commit_def tx_rollback_def tx_destroy_def


section \<open>Conservation of indices\<close>

text \<open>
  Every index of the pool is either free, once, or owned by somebody outside. Inside a
  transaction the indices allocated so far are a third part, and the indices marked for
  release are owned ones, each marked once.
\<close>

definition pool_inv :: "nat \<Rightarrow> u32 set \<Rightarrow> 'm IndexPool \<Rightarrow> bool" where
  "pool_inv n owned p \<longleftrightarrow>
     distinct (free_indices p) \<and> set (free_indices p) \<inter> owned = {}
       \<and> set (free_indices p) \<union> owned = word_of_nat ` {0..<n}"

text \<open>The part a rollback needs: nothing is said about the indices marked for release.\<close>

definition tx_alloc_inv :: "nat \<Rightarrow> u32 set \<Rightarrow> 'm tx_state \<Rightarrow> bool" where
  "tx_alloc_inv n owned = (\<lambda>(p, tx).
     distinct (allocated tx) \<and> set (allocated tx) \<inter> owned = {}
       \<and> pool_inv n (owned \<union> set (allocated tx)) p)"

definition tx_inv :: "nat \<Rightarrow> u32 set \<Rightarrow> 'm tx_state \<Rightarrow> bool" where
  "tx_inv n owned t \<longleftrightarrow> tx_alloc_inv n owned t
     \<and> distinct (released (snd t)) \<and> set (released (snd t)) \<subseteq> owned"

lemma release_all_free [simp]:
  "free_indices (release_all cb is p) = free_indices p @ is"
  by (induction "is" arbitrary: p) (simp_all add: release_all_def pool_release_def)

lemma release_all_storage [simp]:
  "storage (release_all cb is p) = fold cb is (storage p)"
  by (induction "is" arbitrary: p) (simp_all add: release_all_def pool_release_def)

lemma pool_inv_new:
  assumes "n \<le> 2 ^ 32"
  shows "pool_inv n {} (IndexPool_new n m)"
proof -
  have "inj_on (word_of_nat :: nat \<Rightarrow> u32) {0..<n}"
    by (rule inj_onI) (use assms in \<open>simp add: word_of_nat_eq_iff take_bit_nat_eq_self\<close>)
  then show ?thesis
    by (simp add: pool_inv_def IndexPool_new_def distinct_map)
qed

lemma tx_inv_new: "tx_inv n owned (p, tx_new) \<longleftrightarrow> pool_inv n owned p"
  by (simp add: tx_inv_def tx_alloc_inv_def tx_new_def)

lemma tx_release_fields [simp]:
  "fst (tx_release i t) = fst t" "allocated (snd (tx_release i t)) = allocated (snd t)"
  "released (snd (tx_release i t)) = released (snd t) @ [i]"
  "tx_alloc_inv n owned (tx_release i t) = tx_alloc_inv n owned t"
  by (cases t, simp add: tx_release_def tx_alloc_inv_def)+

lemma tx_inv_release:
  assumes "tx_inv n owned t" "i \<in> owned" "i \<notin> set (released (snd t))"
  shows "tx_inv n owned (tx_release i t)"
  using assms by (simp add: tx_inv_def)

lemma pool_inv_allocate:
  assumes "pool_inv n owned p" "pool_allocate p = Inr (i, p')"
  shows "i \<notin> owned" "pool_inv n (insert i owned) p'" "i \<in> word_of_nat ` {0..<n}"
    "i \<in> set (free_indices p)" "storage p' = storage p"
proof -
  define xs where "xs = butlast (free_indices p)"
  have xs: "free_indices p = xs @ [i]" "p' = p\<lparr>free_indices := xs\<rparr>"
    using assms(2) by (auto simp: pool_allocate_def xs_def split: if_splits)
  show "i \<notin> owned" "pool_inv n (insert i owned) p'" "i \<in> word_of_nat ` {0..<n}"
    "i \<in> set (free_indices p)" "storage p' = storage p"
    using assms(1) xs by (auto simp: pool_inv_def)
qed

lemma tx_alloc_inv_allocate:
  assumes "tx_alloc_inv n owned t" "tx_allocate t = Inr (i, t')"
  shows "tx_alloc_inv n owned t'" "i \<notin> owned" "i \<notin> set (allocated (snd t))"
    "allocated (snd t') = allocated (snd t) @ [i]" "released (snd t') = released (snd t)"
proof -
  obtain p tx p' where t: "t = (p, tx)" "pool_allocate p = Inr (i, p')"
      "t' = (p', tx\<lparr>allocated := allocated tx @ [i]\<rparr>)"
    using assms(2) by (cases t) (auto simp: tx_allocate_def split: sum.splits)
  note inv = assms(1)[unfolded t(1) tx_alloc_inv_def, simplified]
  note alloc = pool_inv_allocate[OF _ t(2), of n "owned \<union> set (allocated tx)"]
  show "tx_alloc_inv n owned t'" "i \<notin> owned" "i \<notin> set (allocated (snd t))"
    "allocated (snd t') = allocated (snd t) @ [i]" "released (snd t') = released (snd t)"
    using inv alloc by (auto simp: t tx_alloc_inv_def)
qed

lemma tx_inv_allocate:
  assumes "tx_inv n owned t" "tx_allocate t = Inr (i, t')"
  shows "tx_inv n owned t'" "i \<notin> owned" "i \<notin> set (allocated (snd t))"
    "allocated (snd t') = allocated (snd t) @ [i]" "released (snd t') = released (snd t)"
  using assms tx_alloc_inv_allocate[of n owned t i t'] by (simp_all add: tx_inv_def)

lemma tx_commit_keeps:
  assumes "tx_inv n owned t"
  shows "pool_inv n ((owned \<union> set (allocated (snd t))) - set (released (snd t)))
           (tx_destroy cb (tx_commit cb t))"
  using assms by (cases t) (auto simp: tx_inv_def tx_alloc_inv_def pool_inv_def tx_destroy_def
      tx_rollback_def tx_commit_def)

lemma tx_abort_keeps:
  assumes "tx_alloc_inv n owned t"
  shows "pool_inv n owned (tx_destroy cb t)"
  using assms by (cases t) (auto simp: tx_alloc_inv_def pool_inv_def tx_destroy_def tx_rollback_def)


section \<open>Sequences of transaction operations\<close>

text \<open>
  A client of a transaction issues allocations and releases in any order. \<open>tx_run\<close> runs
  such a sequence and collects the indices handed out; like the C++ exception, a failed
  allocation ends the sequence and leaves the transaction as it was.
\<close>

datatype tx_op = Allocate | Release u32

fun tx_run :: "tx_op list \<Rightarrow> 'm tx_state \<Rightarrow> (pool_error + u32 list) \<times> 'm tx_state" where
  "tx_run [] t = (Inr [], t)"
| "tx_run (Allocate # os) t =
     (case tx_allocate t of
        Inl e \<Rightarrow> (Inl e, t)
      | Inr (i, t') \<Rightarrow>
          (case tx_run os t' of
             (Inl e, t'') \<Rightarrow> (Inl e, t'')
           | (Inr is, t'') \<Rightarrow> (Inr (i # is), t'')))"
| "tx_run (Release i # os) t = tx_run os (tx_release i t)"

fun op_releases :: "tx_op list \<Rightarrow> u32 list" where
  "op_releases [] = []"
| "op_releases (Allocate # os) = op_releases os"
| "op_releases (Release i # os) = i # op_releases os"

lemma tx_run_inv:
  assumes "tx_inv n owned t" "distinct (released (snd t) @ op_releases os)"
    "set (op_releases os) \<subseteq> owned"
  shows "tx_inv n owned (snd (tx_run os t))
    \<and> (\<forall>is. fst (tx_run os t) = Inr is \<longrightarrow>
          allocated (snd (snd (tx_run os t))) = allocated (snd t) @ is
          \<and> released (snd (snd (tx_run os t))) = released (snd t) @ op_releases os)"
  using assms
proof (induction os t rule: tx_run.induct)
  case (2 os t)
  show ?case
  proof (cases "tx_allocate t")
    case (Inr a)
    obtain i t' where a: "a = (i, t')" by (cases a)
    note alloc = tx_inv_allocate[OF "2.prems"(1) Inr[unfolded a]]
    show ?thesis
      using "2.IH"[OF Inr a[symmetric]] "2.prems" alloc by (auto simp: Inr a split: prod.splits sum.splits)
  qed (use "2.prems" in simp)
next
  case (3 i os t)
  have "tx_inv n owned (tx_release i t)"
    by (rule tx_inv_release) (use "3.prems" in auto)
  with 3 show ?case by auto
qed simp

lemma tx_run_fails_only_when_exhausted:
  assumes "length (filter (\<lambda>x. x = Allocate) os) \<le> length (free_indices (fst t))"
  shows "\<exists>is. fst (tx_run os t) = Inr is"
  using assms
proof (induction os t rule: tx_run.induct)
  case (2 os t)
  obtain p tx where t: "t = (p, tx)" by (cases t)
  let ?p = "p\<lparr>free_indices := butlast (free_indices p)\<rparr>"
  let ?t = "(?p, tx\<lparr>allocated := allocated tx @ [last (free_indices p)]\<rparr>)"
  have a: "tx_allocate t = Inr (last (free_indices p), ?t)"
    using "2.prems" by (auto simp: t tx_allocate_def pool_allocate_def)
  have "\<exists>is. fst (tx_run os ?t) = Inr is"
    using "2.IH"[OF a refl] "2.prems" t by simp
  then show ?case by (auto simp: a split: prod.splits sum.splits)
qed (auto simp: tx_release_def split: prod.splits)

text \<open>
  C22. A transaction on the pool of rate-limiter buckets is atomic and conserves indices.
  From a pool in which every index is either free once or owned, a client that releases
  only indices it owns, each once, gets pairwise distinct indices that nobody owned; after
  a commit the owner has exactly what it had, plus those, minus what it released, and the
  rest is free, once; if the transaction is dropped instead, for instance because an
  allocation threw, ownership is what it was before. A sequence fails only if it asks for
  more indices than are free.
\<close>

theorem pool_transaction_conserves:
  assumes "pool_inv n owned p" "distinct (op_releases os)" "set (op_releases os) \<subseteq> owned"
    and run: "tx_run os (p, tx_new) = (res, t)"
  shows "pool_inv n owned (tx_destroy cb t)
    \<and> (\<forall>is. res = Inr is \<longrightarrow> distinct is \<and> set is \<inter> owned = {}
          \<and> pool_inv n (owned \<union> set is - set (op_releases os)) (tx_destroy cb (tx_commit cb t)))
    \<and> (length (filter (\<lambda>x. x = Allocate) os) \<le> length (free_indices p) \<longrightarrow> (\<exists>is. res = Inr is))"
proof (intro conjI allI impI)
  have inv: "tx_inv n owned (p, tx_new)"
    using assms(1) by (simp add: tx_inv_new)
  note r = tx_run_inv[OF inv, of os, unfolded run]
  have ti: "tx_inv n owned t"
    using r assms by (simp add: tx_new_def)
  show "pool_inv n owned (tx_destroy cb t)"
    using ti by (simp add: tx_inv_def tx_abort_keeps)
  fix "is" assume "res = Inr is"
  then have ar: "allocated (snd t) = is" "released (snd t) = op_releases os"
    using r assms by (simp_all add: tx_new_def)
  show "distinct is" "set is \<inter> owned = {}"
    "pool_inv n (owned \<union> set is - set (op_releases os)) (tx_destroy cb (tx_commit cb t))"
    using ti tx_commit_keeps[OF ti, of cb] by (cases t, simp add: ar[symmetric] tx_inv_def tx_alloc_inv_def)+
next
  assume "length (filter (\<lambda>x. x = Allocate) os) \<le> length (free_indices p)"
  then show "\<exists>is. res = Inr is"
    using tx_run_fails_only_when_exhausted[of os "(p, tx_new)"] run by simp
qed

lemma pool_transaction_conserves_witness:
  "let p = \<lparr>free_indices = [1], storage = (\<lambda>_. 7)\<rparr>; cb = (\<lambda>i m. m(i := (0::nat)));
       r = tx_run [Allocate, Release 0] (p, tx_new)
   in pool_inv 3 {0, 2} p \<and> fst r = Inr [1]
      \<and> pool_inv 3 {2, 1} (tx_destroy cb (tx_commit cb (snd r)))"
proof -
  define p where "p = \<lparr>free_indices = [1], storage = (\<lambda>_ :: u32. 7 :: nat)\<rparr>"
  have p: "pool_inv 3 {0, 2} p"
    by (auto simp: pool_inv_def p_def atLeastLessThan_def lessThan_nat_numeral atLeast0LessThan)
  have r: "fst (tx_run [Allocate, Release 0] (p, tx_new)) = Inr [1]"
    by (simp add: p_def tx_defs pool_defs)
  show ?thesis
    using pool_transaction_conserves[where os = "[Allocate, Release 0]" and p = p and n = 3
        and owned = "{0, 2}" and res = "Inr [1]" and cb = "\<lambda>i m. m(i := 0)"
        and t = "snd (tx_run [Allocate, Release 0] (p, tx_new))"] p r
    by (simp only: p_def[symmetric] Let_def prod_eq_iff fst_conv snd_conv) simp
qed

end
