(* ===== verification/Buckets.thy ===== *)
theory Buckets
  imports Uapi IndexPool
begin

text \<open>
  Ownership of rate-limiter buckets (\<open>reconcile_ratelimit_bucket\<close> and
  \<open>reset_rlimit_bucket\<close> of \<open>manager/xfw/maps_manager.cc\<close> and \<open>.hh\<close>): every rule that
  limits a rate owns a bucket of the shared array, and when a rule set is replaced the
  buckets move, by the pool transaction, from the old rules to the new ones. The ledger
  below says at every point of such an update which place of the configuration owns which
  bucket.
\<close>

definition is_rate_limit :: "XfwActionRule \<Rightarrow> bool" where
  "is_rate_limit r \<longleftrightarrow> action r = XFW_ACTION_RATE_LIMIT"

definition set_bucket :: "XfwActionRule \<Rightarrow> u32 \<Rightarrow> XfwActionRule" where
  "set_bucket r i = r\<lparr>rlimit := (rlimit r)\<lparr>bucket_idx := i\<rparr>\<rparr>"

text \<open>
  \<open>new_rule\<close> and \<open>cfg_rule\<close> are pointers that may be null; the result is the new rule
  with its bucket set.
\<close>

definition reconcile_ratelimit_bucket ::
  "XfwActionRule option \<Rightarrow> XfwActionRule option \<Rightarrow> 'm tx_state
     \<Rightarrow> (pool_error + XfwActionRule option) \<times> 'm tx_state" where
  "reconcile_ratelimit_bucket new_rule cfg_rule t =
     (let new_rl = (case new_rule of Some r \<Rightarrow> is_rate_limit r | None \<Rightarrow> False);
          old_rl = (case cfg_rule of Some r \<Rightarrow> is_rate_limit r | None \<Rightarrow> False)
      in if \<not> new_rl \<and> \<not> old_rl then (Inr new_rule, t)
         else if new_rl \<and> \<not> old_rl then
           (case tx_allocate t of
              Inl e \<Rightarrow> (Inl e, t)
            | Inr (i, t') \<Rightarrow> (Inr (Some (set_bucket (the new_rule) i)), t'))
         else if \<not> new_rl \<and> old_rl then
           (Inr new_rule, tx_release (bucket_idx (rlimit (the cfg_rule))) t)
         else if rl_named_idx (rlimit (the new_rule)) = rl_named_idx (rlimit (the cfg_rule)) then
           (Inr (Some (set_bucket (the new_rule) (bucket_idx (rlimit (the cfg_rule))))), t)
         else
           (case tx_allocate t of
              Inl e \<Rightarrow> (Inl e, t)
            | Inr (i, t') \<Rightarrow> (Inr (Some (set_bucket (the new_rule) i)),
                tx_release (bucket_idx (rlimit (the cfg_rule))) t')))"

text \<open>The callback of the pool: a bucket is cleared when it returns to the pool.\<close>

type_synonym buckets = "u32 \<Rightarrow> XfwRLimitSlidingWindow"

definition reset_rlimit_bucket :: "u32 \<Rightarrow> buckets \<Rightarrow> buckets" where
  "reset_rlimit_bucket i m = m(i := reset_window)"


section \<open>The ledger\<close>

definition rule_bucket :: "XfwActionRule option \<Rightarrow> u32 option" where
  "rule_bucket r = (case r of Some r \<Rightarrow> if is_rate_limit r then Some (bucket_idx (rlimit r)) else None
     | None \<Rightarrow> None)"

lemma rule_bucket_simps [simp]:
  "rule_bucket None = None"
  "is_rate_limit r \<Longrightarrow> rule_bucket (Some r) = Some (bucket_idx (rlimit r))"
  "\<not> is_rate_limit r \<Longrightarrow> rule_bucket (Some r) = None"
  by (simp_all add: rule_bucket_def)

lemma set_bucket_simps [simp]:
  "is_rate_limit (set_bucket r i) = is_rate_limit r" "action (set_bucket r i) = action r"
  "bucket_idx (rlimit (set_bucket r i)) = i"
  "rl_named_idx (rlimit (set_bucket r i)) = rl_named_idx (rlimit r)"
  by (simp_all add: set_bucket_def is_rate_limit_def)

text \<open>
  \<open>cur\<close> maps the places of the configuration to the buckets they own at this point of the
  transaction: old rules where the update has not arrived yet, new rules elsewhere.
\<close>

definition ledger :: "nat \<Rightarrow> u32 set \<Rightarrow> ('s \<rightharpoonup> u32) \<Rightarrow> 'm tx_state \<Rightarrow> bool" where
  "ledger n owned cur t \<longleftrightarrow> tx_inv n owned t \<and> inj_on cur (dom cur)
     \<and> ran cur = owned \<union> set (allocated (snd t)) - set (released (snd t))"

lemma ledger_new:
  assumes "pool_inv n (ran cur) p" "inj_on cur (dom cur)"
  shows "ledger n (ran cur) cur (p, tx_new)"
proof -
  have "tx_inv n (ran cur) (p, tx_new)" using assms(1) by (simp add: tx_inv_new)
  then show ?thesis using assms(2) by (simp add: ledger_def tx_new_def)
qed

lemma ledger_commit:
  "ledger n owned cur t \<Longrightarrow> pool_inv n (ran cur) (tx_destroy cb (tx_commit cb t))"
  using tx_commit_keeps[of n owned t cb] by (simp add: ledger_def)

lemma inj_on_upd_fresh:
  assumes "inj_on cur (dom cur)" "i \<notin> ran cur"
  shows "inj_on (cur(s \<mapsto> i)) (dom (cur(s \<mapsto> i)))"
  using assms by (auto simp: inj_on_def ran_def dom_def)

lemma inj_on_upd_None:
  assumes "inj_on cur (dom cur)"
  shows "inj_on (cur(s := None)) (dom (cur(s := None)))"
  using assms by (auto simp: inj_on_def)

lemma ran_upd_inj:
  assumes "inj_on cur (dom cur)" "cur s = Some b"
  shows "ran (cur(s := None)) = ran cur - {b}" "ran (cur(s \<mapsto> i)) = insert i (ran cur - {b})"
proof -
  have u: "cur a = Some b \<longleftrightarrow> a = s" for a using assms by (auto simp: inj_on_def dom_def)
  show "ran (cur(s := None)) = ran cur - {b}"
    unfolding ran_def using u by (auto simp: fun_upd_apply) (metis option.inject)
  then show "ran (cur(s \<mapsto> i)) = insert i (ran cur - {b})"
    using ran_map_upd[of "cur(s := None)" s i] by simp
qed

lemma ledger_allocate:
  assumes l: "ledger n owned cur t" and a: "tx_allocate t = Inr (i, t')" and "cur s = None"
  shows "ledger n owned (cur(s \<mapsto> i)) t'"
proof -
  note al = tx_inv_allocate[OF _ a, of n owned]
  have "tx_inv n owned t" "inj_on cur (dom cur)"
    and ran: "ran cur = owned \<union> set (allocated (snd t)) - set (released (snd t))"
    using l by (simp_all add: ledger_def)
  then have "i \<notin> ran cur" "i \<notin> set (released (snd t))" using al by (auto simp: tx_inv_def)
  then show ?thesis
    using l al assms(3) inj_on_upd_fresh[of cur i s] by (auto simp: ledger_def ran)
qed

lemma ledger_release:
  assumes l: "ledger n owned cur t" and s: "cur s = Some b" "b \<in> owned"
  shows "ledger n owned (cur(s := None)) (tx_release b t)"
proof -
  have "b \<in> ran cur" using s(1) by (auto simp: ran_def)
  then have "b \<notin> set (released (snd t))" using l by (simp add: ledger_def)
  then show ?thesis
    using l s tx_inv_release[of n owned t b] inj_on_upd_None[of cur s] ran_upd_inj(1)[of cur s b]
    by (auto simp: ledger_def)
qed

text \<open>
  The step of an update: at a place the update has not visited, reconciling the old rule with
  the new one moves the buckets so that the place owns what its new rule says.
\<close>

lemma reconcile_ledger:
  assumes l: "ledger n owned cur t" and old: "cur s = rule_bucket old"
    and own: "\<And>b. cur s = Some b \<Longrightarrow> b \<in> owned"
    and r: "reconcile_ratelimit_bucket new old t = (Inr new', t')"
  shows "ledger n owned (cur(s := rule_bucket new')) t'"
proof -
  consider (none) "rule_bucket new = None" "rule_bucket old = None" "new' = new" "t' = t"
    | (alloc) i where "rule_bucket old = None" "tx_allocate t = Inr (i, t')" "rule_bucket new' = Some i"
    | (rel) b where "rule_bucket new = None" "new' = new" "rule_bucket old = Some b" "t' = tx_release b t"
    | (same) b where "rule_bucket old = Some b" "rule_bucket new' = Some b" "t' = t"
    | (repl) b i t1 where "rule_bucket old = Some b" "tx_allocate t = Inr (i, t1)"
        "rule_bucket new' = Some i" "t' = tx_release b t1"
    using r by (auto simp: reconcile_ratelimit_bucket_def rule_bucket_def Let_def
        split: option.splits if_splits sum.splits prod.splits)
  then show ?thesis
  proof cases
    case none with l old show ?thesis by (simp add: fun_upd_idem)
  next
    case alloc with ledger_allocate[OF l, of i t' s] old show ?thesis by simp
  next
    case rel with ledger_release[OF l, of s b] old own show ?thesis by simp
  next
    case same with l old show ?thesis by (simp add: fun_upd_idem)
  next
    case repl
    have b: "b \<in> owned" using own old repl(1) by simp
    note al = tx_inv_allocate[OF _ repl(2), of n owned]
    have "ledger n owned (cur(s := None)) (tx_release b t)"
      by (rule ledger_release[OF l _ b]) (use old repl(1) in simp)
    moreover have "tx_allocate (tx_release b t) = Inr (i, tx_release b t1)"
      using repl(2) by (cases t) (auto simp: tx_allocate_def tx_release_def split: sum.splits)
    ultimately show ?thesis
      using ledger_allocate[of n owned "cur(s := None)" "tx_release b t" i _ s] repl(3,4) by simp
  qed
qed

text \<open>Whatever is reconciled, an abandoned transaction gives the pool back as it was.\<close>

lemma reconcile_alloc_inv:
  assumes "tx_alloc_inv n owned t"
  shows "tx_alloc_inv n owned (snd (reconcile_ratelimit_bucket new old t))"
  using assms tx_alloc_inv_allocate(1)[OF assms]
  by (auto simp: reconcile_ratelimit_bucket_def Let_def split: sum.splits prod.splits)

lemma ledger_alloc_inv: "ledger n owned cur t \<Longrightarrow> tx_alloc_inv n owned t"
  by (simp add: ledger_def tx_inv_def)

text \<open>The rule keeps its action and its rate limit; only the bucket changes.\<close>

lemma reconcile_rule:
  assumes "reconcile_ratelimit_bucket (Some r) old t = (Inr new', t')"
  obtains r' where "new' = Some r'" "r' = r \<or> (\<exists>i. r' = set_bucket r i)"
  using assms by (auto simp: reconcile_ratelimit_bucket_def Let_def split: if_splits sum.splits prod.splits)

lemma reconcile_fails_only_when_exhausted:
  assumes "reconcile_ratelimit_bucket new old t = (Inl e, t')"
  shows "free_indices (fst t) = []"
  using assms by (auto simp: reconcile_ratelimit_bucket_def Let_def tx_allocate_def pool_allocate_def
      split: if_splits sum.splits prod.splits)


section \<open>Cleared buckets\<close>

text \<open>Free buckets are cleared, so a rule that gets a bucket starts with an empty window.\<close>

definition pool_clean :: "buckets IndexPool \<Rightarrow> bool" where
  "pool_clean p \<longleftrightarrow> (\<forall>i \<in> set (free_indices p). storage p i = reset_window)"

lemma fold_reset: "fold reset_rlimit_bucket is m i = (if i \<in> set is then reset_window else m i)"
  by (induction "is" arbitrary: m) (auto simp: reset_rlimit_bucket_def)

lemma release_all_clean:
  "pool_clean p \<Longrightarrow> pool_clean (release_all reset_rlimit_bucket is p)"
  by (auto simp: pool_clean_def fold_reset)

lemma tx_destroy_clean:
  "pool_clean (fst t) \<Longrightarrow> pool_clean (tx_destroy reset_rlimit_bucket t)"
  "pool_clean (fst t) \<Longrightarrow> pool_clean (tx_destroy reset_rlimit_bucket (tx_commit reset_rlimit_bucket t))"
  by (cases t, simp add: tx_destroy_def tx_rollback_def tx_commit_def release_all_clean)+

lemma tx_allocate_clean:
  "pool_clean (fst t) \<Longrightarrow> tx_allocate t = Inr (i, t') \<Longrightarrow> pool_clean (fst t') \<and> storage (fst t') i = reset_window"
  by (cases t) (auto simp: tx_allocate_def pool_allocate_def pool_clean_def split: if_splits
      dest!: in_set_butlastD)

lemma reconcile_clean:
  "pool_clean (fst t) \<Longrightarrow> pool_clean (fst (snd (reconcile_ratelimit_bucket new old t)))"
  using tx_allocate_clean[of t]
  by (auto simp: reconcile_ratelimit_bucket_def Let_def split: sum.splits prod.splits)

end
