(* ===== verification/ShadowMap.thy ===== *)
theory ShadowMap
  imports Prelude
begin

text \<open>
  The shadow map of the manager (\<open>lib/bpf/shadow_hash_map.hh\<close> over
  \<open>lib/bpf/hash_map.hh\<close>): a userspace snapshot of the last state written to a kernel map,
  and \<open>replace\<close>, which writes a new state as the difference to the snapshot, in batches,
  deletions first. The batch system calls of the kernel are the parameter
  \<open>bpf_batch_ops\<close>.
\<close>


section \<open>Kernel batch operations\<close>

text \<open>
  Each operation takes the kernel map and returns the error code (0 for success) with the
  map it leaves, which after a failure may be anything. The batch position of
  \<open>bpf_map_lookup_and_delete_batch\<close> is a number, 0 at the start. \<open>alloc_ok\<close> says whether
  the buffers of a drain can be allocated.
\<close>

record ('k, 'v) bpf_batch_ops =
  map_update_batch :: "('k \<rightharpoonup> 'v) \<Rightarrow> 'k list \<Rightarrow> 'v list \<Rightarrow> int \<times> ('k \<rightharpoonup> 'v)"
  map_delete_batch :: "('k \<rightharpoonup> 'v) \<Rightarrow> 'k list \<Rightarrow> int \<times> ('k \<rightharpoonup> 'v)"
  map_lookup_and_delete_batch ::
    "('k \<rightharpoonup> 'v) \<Rightarrow> nat \<Rightarrow> nat \<Rightarrow> int \<times> 'k list \<times> 'v list \<times> nat \<times> ('k \<rightharpoonup> 'v)"
  alloc_ok :: bool

text \<open>
  What the code relies on. The kernel identifies keys up to \<open>canon\<close>: for a hash map that is
  the identity, for an LPM trie it clears the bits behind the prefix. A successful update
  or deletion has processed all keys. A drain visits the keys in the order of a position:
  a successful call removes the keys from its start position up to a later one, and the
  call that reaches the last position fails with \<open>ENOENT\<close> after removing the rest.
\<close>

definition batch_laws :: "('k \<Rightarrow> 'k) \<Rightarrow> ('k \<Rightarrow> nat) \<Rightarrow> nat \<Rightarrow> ('k, 'v) bpf_batch_ops \<Rightarrow> bool" where
  "batch_laws canon place places K \<longleftrightarrow>
     (\<forall>m ks vs m'. map_update_batch K m ks vs = (0, m') \<and> length vs = length ks
        \<and> distinct (map canon ks) \<longrightarrow> m' = m ++ map_of (zip (map canon ks) vs))
   \<and> (\<forall>m ks m'. map_delete_batch K m ks = (0, m') \<longrightarrow> m' = m |` (- (canon ` set ks)))
   \<and> (\<forall>m i n e ks vs j m'. map_lookup_and_delete_batch K m i n = (e, ks, vs, j, m') \<longrightarrow>
        (e = 0 \<longrightarrow> i < j \<and> j \<le> places \<and> m' = m |` {k. place k < i \<or> j \<le> place k})
      \<and> (e = - ENOENT \<longrightarrow> m' = m |` {k. place k < i}))"

definition never_fails :: "('k, 'v) bpf_batch_ops \<Rightarrow> bool" where
  "never_fails K \<longleftrightarrow> alloc_ok K \<and> (\<forall>m ks vs. fst (map_update_batch K m ks vs) = 0)
     \<and> (\<forall>m ks. fst (map_delete_batch K m ks) = 0)
     \<and> (\<forall>m i n. fst (map_lookup_and_delete_batch K m i n) \<in> {0, - ENOENT})"


section \<open>The map wrapper\<close>

text \<open>
  \<open>drain_by_batch\<close> calls \<open>fn\<close> on every batch; the state \<open>fn\<close> works on is threaded
  through. The loop ends only when the kernel reports an error, so it is a partial function;
  \<open>None\<close> is a drain that never ends.
\<close>

partial_function (option) drain_loop ::
  "('k, 'v) bpf_batch_ops \<Rightarrow> ('k list \<Rightarrow> 'v list \<Rightarrow> 's \<Rightarrow> 's) \<Rightarrow> nat \<Rightarrow> nat \<Rightarrow> ('k \<rightharpoonup> 'v) \<Rightarrow> 's
     \<Rightarrow> (int \<times> ('k \<rightharpoonup> 'v) \<times> 's) option" where
  "drain_loop K fn batch_size in_batch m s =
     (case map_lookup_and_delete_batch K m in_batch batch_size of (err, ks, vs, out_batch, m') \<Rightarrow>
        if err \<noteq> 0 then
          (if err = - ENOENT then Some (0, m', fn ks vs s) else Some (err, m', s))
        else drain_loop K fn batch_size out_batch m' (fn ks vs s))"

definition drain_by_batch ::
  "('k, 'v) bpf_batch_ops \<Rightarrow> ('k list \<Rightarrow> 'v list \<Rightarrow> 's \<Rightarrow> 's) \<Rightarrow> nat \<Rightarrow> ('k \<rightharpoonup> 'v) \<Rightarrow> 's
     \<Rightarrow> (int \<times> ('k \<rightharpoonup> 'v) \<times> 's) option" where
  "drain_by_batch K fn batch_size m s =
     (if \<not> alloc_ok K then Some (- ENOMEM, m, s) else drain_loop K fn batch_size 0 m s)"

definition map_clear :: "('k, 'v) bpf_batch_ops \<Rightarrow> nat \<Rightarrow> ('k \<rightharpoonup> 'v) \<Rightarrow> (int \<times> ('k \<rightharpoonup> 'v)) option" where
  "map_clear K batch_size m =
     map_option (\<lambda>(err, m', _). (err, m')) (drain_by_batch K (\<lambda>_ _ s. s) batch_size m ())"


section \<open>The shadow map\<close>

text \<open>
  \<open>Snapshot\<close> is an unordered map: a list of its entries in iteration order, the keys
  distinct. \<open>bpf_map\<close> is the content of the kernel map, by canonical key.
\<close>

type_synonym ('k, 'v) Snapshot = "('k \<times> 'v) list"

record ('k, 'v) BpfShadowHashMap =
  snapshot :: "('k, 'v) Snapshot"
  bpf_map :: "'k \<rightharpoonup> 'v"
  resync_required :: bool

text \<open>The constructor opens a map the kernel has, with whatever it holds.\<close>

definition BpfShadowHashMap_new :: "('k \<rightharpoonup> 'v) \<Rightarrow> ('k, 'v) BpfShadowHashMap" where
  "BpfShadowHashMap_new m = \<lparr>snapshot = [], bpf_map = m, resync_required = False\<rparr>"

definition BatchSize :: nat where "BatchSize = 1024"

definition build_diff :: "('k, 'v) Snapshot \<Rightarrow> ('k, 'v) Snapshot \<Rightarrow> 'k list \<times> 'k list \<times> 'v list" where
  "build_diff old new_state =
     (let del = map fst (filter (\<lambda>(k, _). map_of new_state k = None) old);
          upd = List.map_filter (\<lambda>(k, old_v). case map_of new_state k of
                    Some v \<Rightarrow> if v \<noteq> old_v then Some (k, v) else None
                  | None \<Rightarrow> None) old
                @ filter (\<lambda>(k, _). map_of old k = None) new_state
      in (del, map fst upd, map snd upd))"

function (sequential) apply_delete ::
  "('k, 'v) bpf_batch_ops \<Rightarrow> 'k list \<Rightarrow> ('k, 'v) BpfShadowHashMap
     \<Rightarrow> bool \<times> ('k, 'v) BpfShadowHashMap" where
  "apply_delete K [] sm = (True, sm)"
| "apply_delete K keys sm =
     (case map_delete_batch K (bpf_map sm) (take BatchSize keys) of (err, m) \<Rightarrow>
        if err \<noteq> 0 then (False, sm\<lparr>bpf_map := m, resync_required := True\<rparr>)
        else apply_delete K (drop BatchSize keys) (sm\<lparr>bpf_map := m\<rparr>))"
  by pat_completeness auto
termination by (relation "measure (\<lambda>(K, keys, sm). length keys)") (simp_all add: BatchSize_def)

function (sequential) apply_upsert ::
  "('k, 'v) bpf_batch_ops \<Rightarrow> 'k list \<Rightarrow> 'v list \<Rightarrow> ('k, 'v) BpfShadowHashMap
     \<Rightarrow> bool \<times> ('k, 'v) BpfShadowHashMap" where
  "apply_upsert K [] vs sm = (True, sm)"
| "apply_upsert K keys vs sm =
     (case map_update_batch K (bpf_map sm) (take BatchSize keys) (take BatchSize vs) of (err, m) \<Rightarrow>
        if err \<noteq> 0 then (False, sm\<lparr>bpf_map := m, resync_required := True\<rparr>)
        else apply_upsert K (drop BatchSize keys) (drop BatchSize vs) (sm\<lparr>bpf_map := m\<rparr>))"
  by pat_completeness auto
termination by (relation "measure (\<lambda>(K, keys, vs, sm). length keys)") (simp_all add: BatchSize_def)

definition full_resync ::
  "('k, 'v) bpf_batch_ops \<Rightarrow> ('k, 'v) Snapshot \<Rightarrow> ('k, 'v) BpfShadowHashMap
     \<Rightarrow> (bool \<times> ('k, 'v) BpfShadowHashMap) option" where
  "full_resync K st sm =
     (case map_clear K BatchSize (bpf_map sm) of
        None \<Rightarrow> None
      | Some (err, m) \<Rightarrow>
          if err \<noteq> 0 then Some (False, sm\<lparr>bpf_map := m\<rparr>)
          else
            (case apply_upsert K (map fst st) (map snd st) (sm\<lparr>bpf_map := m\<rparr>) of (ok, sm') \<Rightarrow>
               if \<not> ok then Some (False, sm')
               else Some (True, sm'\<lparr>snapshot := st, resync_required := False\<rparr>)))"

definition replace ::
  "('k, 'v) bpf_batch_ops \<Rightarrow> ('k, 'v) Snapshot \<Rightarrow> ('k, 'v) BpfShadowHashMap
     \<Rightarrow> (bool \<times> ('k, 'v) BpfShadowHashMap) option" where
  "replace K new_state sm =
     (if resync_required sm then full_resync K new_state sm
      else
        case build_diff (snapshot sm) new_state of (delete_keys, upsert_keys, upsert_values) \<Rightarrow>
          (case apply_delete K delete_keys sm of (ok, sm1) \<Rightarrow>
             if \<not> ok then Some (False, sm1)
             else
               (case apply_upsert K upsert_keys upsert_values sm1 of (ok, sm2) \<Rightarrow>
                  if \<not> ok then Some (False, sm2)
                  else Some (True, sm2\<lparr>snapshot := new_state\<rparr>))))"


section \<open>Batches\<close>

lemma update_batch_law:
  assumes "batch_laws canon place places K" "map_update_batch K m ks vs = (0, m')"
    "length vs = length ks" "distinct (map canon ks)"
  shows "m' = m ++ map_of (zip (map canon ks) vs)"
  using assms unfolding batch_laws_def by blast

lemma delete_batch_law:
  assumes "batch_laws canon place places K" "map_delete_batch K m ks = (0, m')"
  shows "m' = m |` (- (canon ` set ks))"
  using assms unfolding batch_laws_def by blast

lemma drain_batch_law:
  assumes "batch_laws canon place places K"
    "map_lookup_and_delete_batch K m i n = (e, ks, vs, j, m')"
  shows "e = 0 \<Longrightarrow> i < j" "e = 0 \<Longrightarrow> j \<le> places"
    "e = 0 \<Longrightarrow> m' = m |` {k. place k < i \<or> j \<le> place k}"
    "e = - ENOENT \<Longrightarrow> m' = m |` {k. place k < i}"
  using assms unfolding batch_laws_def by blast+

lemma apply_delete_spec:
  assumes "batch_laws canon place places K" "apply_delete K keys sm = (ok, sm')"
  shows "snapshot sm' = snapshot sm \<and> (never_fails K \<longrightarrow> ok)
    \<and> (if ok then resync_required sm' = resync_required sm
                 \<and> bpf_map sm' = bpf_map sm |` (- (canon ` set keys))
       else resync_required sm')"
  using assms
proof (induction K keys sm arbitrary: ok sm' rule: apply_delete.induct)
  case (2 K k ks sm)
  let ?keys = "k # ks"
  obtain err m where b: "map_delete_batch K (bpf_map sm) (take BatchSize ?keys) = (err, m)"
    by fastforce
  show ?case
  proof (cases "err = 0")
    case True
    have step: "apply_delete K (drop BatchSize ?keys) (sm\<lparr>bpf_map := m\<rparr>) = (ok, sm')"
      using "2.prems"(2) b True by simp
    have m: "m = bpf_map sm |` (- (canon ` set (take BatchSize ?keys)))"
      by (rule delete_batch_law[OF "2.prems"(1)]) (use b True in simp)
    have split: "canon ` set ?keys
        = canon ` set (take BatchSize ?keys) \<union> canon ` set (drop BatchSize ?keys)"
      by (metis append_take_drop_id image_Un set_append)
    have "m |` (- (canon ` set (drop BatchSize ?keys))) = bpf_map sm |` (- (canon ` set ?keys))"
      unfolding m split by (simp only: restrict_restrict Compl_Un)
    then show ?thesis
      using "2.IH"[OF b[symmetric] _ "2.prems"(1) step] True by simp
  next
    case False
    have "\<not> never_fails K" using b False unfolding never_fails_def by (metis fst_conv)
    with False show ?thesis using "2.prems"(2) b by auto
  qed
qed (simp add: restrict_map_def)

text \<open>Appending the rest of the batches to a batch written already.\<close>

lemma map_add_zip_take_drop:
  assumes "distinct ks" "length vs = length ks"
  shows "m ++ map_of (zip ks vs)
    = m ++ map_of (zip (take n ks) (take n vs)) ++ map_of (zip (drop n ks) (drop n vs))"
proof -
  let ?A = "map_of (zip (take n ks) (take n vs))" and ?B = "map_of (zip (drop n ks) (drop n vs))"
  have "zip ks vs = zip (take n ks) (take n vs) @ zip (drop n ks) (drop n vs)"
    using assms(2) by (metis append_take_drop_id length_take zip_append)
  then have "map_of (zip ks vs) = ?B ++ ?A" by simp
  also have "\<dots> = ?A ++ ?B"
    by (rule map_add_comm) (use assms set_take_disj_set_drop_if_distinct[of ks n n] in auto)
  finally show ?thesis by simp
qed

lemma apply_upsert_spec:
  assumes "batch_laws canon place places K" "apply_upsert K keys vs sm = (ok, sm')"
    "length vs = length keys" "distinct (map canon keys)"
  shows "snapshot sm' = snapshot sm \<and> (never_fails K \<longrightarrow> ok)
    \<and> (if ok then resync_required sm' = resync_required sm
                 \<and> bpf_map sm' = bpf_map sm ++ map_of (zip (map canon keys) vs)
       else resync_required sm')"
  using assms
proof (induction K keys vs sm arbitrary: ok sm' rule: apply_upsert.induct)
  case (2 K k ks vs sm)
  let ?keys = "k # ks" and ?n = BatchSize
  obtain err m where b:
    "map_update_batch K (bpf_map sm) (take ?n ?keys) (take ?n vs) = (err, m)"
    by fastforce
  have dist: "distinct (map canon (take ?n ?keys))" "distinct (map canon (drop ?n ?keys))"
    unfolding take_map[symmetric] drop_map[symmetric]
    by (rule distinct_take distinct_drop, rule "2.prems"(4))+
  have len: "length (take ?n vs) = length (take ?n ?keys)"
    "length (drop ?n vs) = length (drop ?n ?keys)"
    using "2.prems"(3) by (simp_all only: length_take length_drop)
  show ?case
  proof (cases "err = 0")
    case True
    have step: "apply_upsert K (drop ?n ?keys) (drop ?n vs) (sm\<lparr>bpf_map := m\<rparr>) = (ok, sm')"
      using "2.prems"(2) b True by simp
    have m: "m = bpf_map sm ++ map_of (zip (map canon (take ?n ?keys)) (take ?n vs))"
      by (rule update_batch_law[OF "2.prems"(1) _ len(1) dist(1)]) (use b True in simp)
    have "m ++ map_of (zip (map canon (drop ?n ?keys)) (drop ?n vs))
        = bpf_map sm ++ map_of (zip (map canon ?keys) vs)"
      unfolding m take_map[symmetric] drop_map[symmetric]
      by (rule map_add_zip_take_drop[symmetric]) (use "2.prems"(3,4) in simp_all)
    then show ?thesis
      using "2.IH"[OF b[symmetric] _ "2.prems"(1) step len(2) dist(2)] True by simp
  next
    case False
    have "\<not> never_fails K" using b False unfolding never_fails_def by (metis fst_conv)
    with False show ?thesis using "2.prems"(2) b by auto
  qed
qed simp


section \<open>Draining\<close>

text \<open>A drain ends, and it ends with an empty map unless the kernel reports an error.\<close>

lemma drain_loop_spec:
  assumes laws: "batch_laws canon place places K" and "\<forall>k\<in>dom m. i \<le> place k"
  shows "\<exists>err m' s'. drain_loop K fn n i m s = Some (err, m', s')
    \<and> (err = 0 \<longrightarrow> m' = Map.empty) \<and> (never_fails K \<longrightarrow> err = 0)"
  using assms(2)
proof (induction "places - i" arbitrary: i m s rule: less_induct)
  case less
  obtain e ks vs j m' where b: "map_lookup_and_delete_batch K m i n = (e, ks, vs, j, m')"
    by (metis prod_cases5)
  note law = drain_batch_law[OF laws b]
  show ?case
  proof (cases "e = 0")
    case True
    have "m' k = None \<or> j \<le> place k" for k
      using law(3)[OF True] bspec[OF less.prems, of k] by (cases "m k") (auto simp: restrict_map_def dom_def)
    then have "\<forall>k\<in>dom m'. j \<le> place k" by (metis domIff)
    moreover have "places - j < places - i" using law(1,2)[OF True] by simp
    ultimately show ?thesis
      using less.hyps[of j m' "fn ks vs s"] True by (simp add: drain_loop.simps[of K fn n i] b)
  next
    case False
    have "m' = Map.empty" if "e = - ENOENT"
      using law(4)[OF that] less.prems by (auto simp: restrict_map_def fun_eq_iff dom_def)
    moreover have "e = - ENOENT" if "never_fails K"
      using that b False unfolding never_fails_def by (metis fst_conv insertE singletonD)
    ultimately show ?thesis
      using False by (auto simp: drain_loop.simps[of K fn n i] b)
  qed
qed

lemma map_clear_spec:
  assumes "batch_laws canon place places K"
  shows "\<exists>err m'. map_clear K n m = Some (err, m')
    \<and> (err = 0 \<longrightarrow> m' = Map.empty) \<and> (never_fails K \<longrightarrow> err = 0)"
proof -
  have "never_fails K \<Longrightarrow> alloc_ok K" by (simp add: never_fails_def)
  then show ?thesis
    using drain_loop_spec[OF assms, of m 0 "\<lambda>_ _ s. s" n "()"]
    by (auto simp: map_clear_def drain_by_batch_def)
qed


section \<open>Replacing the state\<close>

text \<open>The content of a kernel map that holds exactly the entries of a snapshot.\<close>

definition kernel_of :: "('k \<Rightarrow> 'k) \<Rightarrow> ('k, 'v) Snapshot \<Rightarrow> 'k \<rightharpoonup> 'v" where
  "kernel_of canon st = map_of (map (\<lambda>(k, v). (canon k, v)) st)"

definition keys_of :: "('k, 'v) Snapshot \<Rightarrow> 'k set" where
  "keys_of st = fst ` set st"

text \<open>
  The snapshot is the content of the kernel map, unless a failure has been recorded.
\<close>

definition shadow_inv :: "('k \<Rightarrow> 'k) \<Rightarrow> ('k, 'v) BpfShadowHashMap \<Rightarrow> bool" where
  "shadow_inv canon sm \<longleftrightarrow> distinct (map fst (snapshot sm)) \<and> inj_on canon (keys_of (snapshot sm))
     \<and> (\<not> resync_required sm \<longrightarrow> bpf_map sm = kernel_of canon (snapshot sm))"

lemma kernel_of_zip: "kernel_of canon st = map_of (zip (map canon (map fst st)) (map snd st))"
  by (induction st) (auto simp: kernel_of_def)

lemma kernel_of_None: "kernel_of canon st c = None \<longleftrightarrow> c \<notin> canon ` keys_of st"
  by (induction st) (auto simp: kernel_of_def keys_of_def)

lemma kernel_of_canon:
  assumes "inj_on canon A" "keys_of st \<subseteq> A" "k \<in> A"
  shows "kernel_of canon st (canon k) = map_of st k"
  using assms by (induction st) (auto simp: kernel_of_def keys_of_def inj_on_eq_iff)

lemma distinct_canon:
  assumes "distinct ks" "inj_on canon A" "set ks \<subseteq> A"
  shows "distinct (map canon ks)"
  using assms by (simp add: distinct_map inj_on_subset)

text \<open>The difference, applied to the old state, is the new state.\<close>

lemma build_diff_del:
  assumes "build_diff old new = (del, uk, uv)"
  shows "set del = keys_of old - keys_of new"
proof -
  have "del = map fst (filter (\<lambda>(k, _). map_of new k = None) old)"
    using assms by (simp add: build_diff_def Let_def)
  then show ?thesis by (force simp: keys_of_def map_of_eq_None_iff)
qed

text \<open>The two passes of \<open>build_diff\<close>: changed entries and new entries.\<close>

definition diff_changed :: "('k, 'v) Snapshot \<Rightarrow> ('k, 'v) Snapshot \<Rightarrow> ('k \<times> 'v) list" where
  "diff_changed old new_state = List.map_filter (\<lambda>(k, old_v). case map_of new_state k of
                    Some v \<Rightarrow> if v \<noteq> old_v then Some (k, v) else None
                  | None \<Rightarrow> None) old"

definition diff_inserted :: "('k, 'v) Snapshot \<Rightarrow> ('k, 'v) Snapshot \<Rightarrow> ('k \<times> 'v) list" where
  "diff_inserted old new_state = filter (\<lambda>(k, _). map_of old k = None) new_state"

lemma build_diff_passes:
  "build_diff old new = (del, uk, uv) \<Longrightarrow>
     uk = map fst (diff_changed old new @ diff_inserted old new) \<and> uv = map snd (diff_changed old new @ diff_inserted old new)"
  by (auto simp: build_diff_def Let_def diff_changed_def diff_inserted_def)

lemma map_of_changed:
  "distinct (map fst old) \<Longrightarrow> map_of (diff_changed old new) k =
     (case map_of old k of None \<Rightarrow> None | Some w \<Rightarrow> if map_of new k = Some w then None else map_of new k)"
proof (induction old)
  case (Cons e old)
  obtain k' w where e: "e = (k', w)" by (cases e)
  show ?case
    using Cons by (auto simp: e diff_changed_def List.map_filter_simps map_of_eq_None_iff[symmetric] split: option.splits)
qed (simp add: diff_changed_def List.map_filter_simps)

lemma map_of_diff_inserted:
  "map_of (diff_inserted old new) k = (if map_of old k = None then map_of new k else None)"
  by (induction new) (auto simp: diff_inserted_def)

lemma keys_changed: "fst ` set (diff_changed old new) \<subseteq> fst ` set old"
  by (auto simp: diff_changed_def List.map_filter_def image_iff split: option.splits if_splits) force

lemma distinct_changed: "distinct (map fst old) \<Longrightarrow> distinct (map fst (diff_changed old new))"
proof (induction old)
  case (Cons e old)
  then show ?case
    using keys_changed[of old new]
    by (cases e) (auto simp: diff_changed_def List.map_filter_simps split: option.splits)
qed (simp add: diff_changed_def List.map_filter_simps)

lemma build_diff_upd:
  assumes "build_diff old new = (del, uk, uv)" "distinct (map fst old)" "distinct (map fst new)"
  shows "length uv = length uk" "distinct uk" "set uk \<subseteq> keys_of new"
    "map_of (zip uk uv) k = (if map_of old k = map_of new k then None else map_of new k)"
proof -
  note u = build_diff_passes[OF assms(1)]
  have m: "map_of (zip uk uv) k = (if map_of old k = map_of new k then None else map_of new k)" for k
    using assms(2)
    by (auto simp: u zip_map_fst_snd map_of_changed map_of_diff_inserted map_add_def split: option.splits)
  then show "map_of (zip uk uv) k = (if map_of old k = map_of new k then None else map_of new k)" .
  show "length uv = length uk" using u by simp
  have "fst ` set (diff_changed old new) \<inter> fst ` set (diff_inserted old new) = {}"
    using keys_changed[of old new] by (force simp: diff_inserted_def map_of_eq_None_iff)
  then show "distinct uk"
    using u distinct_changed[OF assms(2)] assms(3)
    by (simp add: diff_inserted_def distinct_map_filter)
  have "map_of new k \<noteq> None" if "k \<in> set uk" for k
  proof -
    have "map_of (zip uk uv) k \<noteq> None" using that u by (auto simp: map_of_eq_None_iff zip_map_fst_snd)
    then show ?thesis using m[of k] by (auto split: if_splits)
  qed
  then show "set uk \<subseteq> keys_of new" by (auto simp: keys_of_def map_of_eq_None_iff)
qed

lemma kernel_of_outside:
  "c \<notin> canon ` keys_of st \<Longrightarrow> kernel_of canon st c = None"
  by (simp add: kernel_of_None)

text \<open>Deleting and upserting the difference turns the old kernel map into the new one.\<close>

lemma build_diff_kernel:
  assumes bd: "build_diff old new = (del, uk, uv)"
    and d: "distinct (map fst old)" "distinct (map fst new)"
    and inj: "inj_on canon (keys_of old \<union> keys_of new)"
  shows "kernel_of canon old |` (- (canon ` set del)) ++ map_of (zip (map canon uk) uv)
    = kernel_of canon new"
proof
  fix c
  let ?A = "keys_of old \<union> keys_of new"
  note upd = build_diff_upd[OF bd d]
  have z: "map_of (zip (map canon uk) uv) = kernel_of canon (zip uk uv)"
    using upd(1) by (simp add: kernel_of_zip)
  have kz: "keys_of (zip uk uv) \<subseteq> ?A"
    using upd(3) by (force simp: keys_of_def dest: set_zip_leftD)
  show "(kernel_of canon old |` (- (canon ` set del)) ++ map_of (zip (map canon uk) uv)) c
      = kernel_of canon new c"
  proof (cases "c \<in> canon ` ?A")
    case True
    then obtain k where k: "k \<in> ?A" "c = canon k" by auto
    have del: "c \<in> canon ` set del \<longleftrightarrow> map_of old k \<noteq> None \<and> map_of new k = None"
      using inj_on_image_mem_iff[OF inj k(1), of "set del"] build_diff_del[OF bd]
      by (auto simp: k(2) keys_of_def map_of_eq_None_iff)
    have "kernel_of canon old c = map_of old k" "kernel_of canon new c = map_of new k"
      "kernel_of canon (zip uk uv) c = map_of (zip uk uv) k"
      using kernel_of_canon[OF inj Un_upper1 k(1)] kernel_of_canon[OF inj Un_upper2 k(1)]
        kernel_of_canon[OF inj kz k(1)] k(2) by simp_all
    then show ?thesis
      using del upd(4)[of k]
      by (cases "map_of new k"; cases "map_of old k") (simp_all add: z map_add_def restrict_map_def)
  next
    case False
    then have "kernel_of canon old c = None" "kernel_of canon new c = None"
      "kernel_of canon (zip uk uv) c = None"
      using kz by (auto simp: kernel_of_None)
    then show ?thesis by (simp add: z map_add_def restrict_map_def)
  qed
qed

lemma full_resync_spec:
  assumes "batch_laws canon place places K" "distinct (map fst st)" "inj_on canon (keys_of st)"
  shows "\<exists>ok sm'. full_resync K st sm = Some (ok, sm')
    \<and> (ok \<longrightarrow> snapshot sm' = st \<and> \<not> resync_required sm' \<and> bpf_map sm' = kernel_of canon st)
    \<and> (\<not> ok \<longrightarrow> (resync_required sm \<longrightarrow> resync_required sm') \<and> snapshot sm' = snapshot sm)
    \<and> (never_fails K \<longrightarrow> ok)"
proof -
  obtain err m where c: "map_clear K BatchSize (bpf_map sm) = Some (err, m)"
      "err = 0 \<Longrightarrow> m = Map.empty" "never_fails K \<Longrightarrow> err = 0"
    using map_clear_spec[OF assms(1), of BatchSize "bpf_map sm"] by auto
  obtain ok sm' where u: "apply_upsert K (map fst st) (map snd st) (sm\<lparr>bpf_map := m\<rparr>) = (ok, sm')"
    by fastforce
  have "distinct (map canon (map fst st))"
    by (rule distinct_canon[OF assms(2,3)]) (simp add: keys_of_def)
  note us = apply_upsert_spec[OF assms(1) u _ this, simplified]
  have "full_resync K st sm = (if err \<noteq> 0 then Some (False, sm\<lparr>bpf_map := m\<rparr>)
      else if \<not> ok then Some (False, sm') else Some (True, sm'\<lparr>snapshot := st, resync_required := False\<rparr>))"
    by (simp add: full_resync_def c(1) u)
  with us c(2,3) show ?thesis
    by (cases "err = 0"; cases ok) (auto simp: kernel_of_zip)
qed

lemma replace_spec:
  assumes laws: "batch_laws canon place places K" and inv: "shadow_inv canon sm"
    and new: "distinct (map fst new)" "inj_on canon (keys_of (snapshot sm) \<union> keys_of new)"
  shows "\<exists>ok sm'. replace K new sm = Some (ok, sm') \<and> shadow_inv canon sm'
    \<and> (ok \<longrightarrow> snapshot sm' = new \<and> \<not> resync_required sm' \<and> bpf_map sm' = kernel_of canon new)
    \<and> (\<not> ok \<longrightarrow> resync_required sm' \<and> snapshot sm' = snapshot sm)
    \<and> (never_fails K \<longrightarrow> ok)"
proof (cases "resync_required sm")
  case True
  have "inj_on canon (keys_of new)" using new(2) by (rule inj_on_subset) simp
  from full_resync_spec[OF laws new(1) this, of sm] True inv this new(1) show ?thesis
    by (auto simp: replace_def shadow_inv_def)
next
  case False
  obtain del uk uv where bd: "build_diff (snapshot sm) new = (del, uk, uv)" by (metis prod_cases3)
  obtain ok1 sm1 where d: "apply_delete K del sm = (ok1, sm1)" by fastforce
  obtain ok2 sm2 where u: "apply_upsert K uk uv sm1 = (ok2, sm2)" by fastforce
  have old: "distinct (map fst (snapshot sm))" "inj_on canon (keys_of (snapshot sm))"
      "bpf_map sm = kernel_of canon (snapshot sm)"
    using inv False by (simp_all add: shadow_inv_def)
  have injn: "inj_on canon (keys_of new)" using new(2) by (rule inj_on_subset) simp
  note upd = build_diff_upd[OF bd old(1) new(1)]
  note ds = apply_delete_spec[OF laws d]
  note us = apply_upsert_spec[OF laws u upd(1) distinct_canon[OF upd(2) injn upd(3)]]
  note kern = build_diff_kernel[OF bd old(1) new(1) new(2)]
  show ?thesis
    using ds us kern False old new(1) injn
    by (cases ok1; cases ok2) (auto simp: replace_def bd d u shadow_inv_def)
qed

text \<open>
  C9. Replacing the content of a kernel map keeps the shadow map consistent. It always
  returns. If it reports success, the kernel map holds exactly the new state, whether it was
  written as a difference in batches or from scratch after an earlier failure; if it reports
  failure, the next call starts from scratch; and it reports success whenever the kernel
  does not fail. The kernel may identify keys (an LPM trie ignores the bits behind the
  prefix), as long as no two keys of the old and the new state are identified.
\<close>

theorem replace_synchronises:
  assumes "batch_laws canon place places K" "shadow_inv canon sm" "distinct (map fst new)"
    "inj_on canon (keys_of (snapshot sm) \<union> keys_of new)"
  shows "\<exists>ok sm'. replace K new sm = Some (ok, sm') \<and> shadow_inv canon sm'
    \<and> (ok \<longrightarrow> \<not> resync_required sm' \<and> bpf_map sm' = kernel_of canon new)
    \<and> (\<not> ok \<longrightarrow> resync_required sm') \<and> (never_fails K \<longrightarrow> ok)"
  using replace_spec[OF assms] by blast

text \<open>A kernel that obeys the laws and never fails.\<close>

definition ideal_ops :: "('k \<Rightarrow> 'k) \<Rightarrow> ('k, 'v) bpf_batch_ops" where
  "ideal_ops canon = \<lparr>map_update_batch = (\<lambda>m ks vs. (0, m ++ map_of (zip (map canon ks) vs))),
     map_delete_batch = (\<lambda>m ks. (0, m |` (- (canon ` set ks)))),
     map_lookup_and_delete_batch = (\<lambda>m i n. (- ENOENT, [], [], i, if i = 0 then Map.empty else m)),
     alloc_ok = True\<rparr>"

lemma ideal_ops_laws: "batch_laws canon (\<lambda>_. 0) 1 (ideal_ops canon)" "never_fails (ideal_ops canon)"
  by (auto simp: batch_laws_def never_fails_def ideal_ops_def restrict_map_def split: if_splits)

definition low_bit_ignored :: "nat \<Rightarrow> nat" where
  "low_bit_ignored k = k - k mod 2"

theorem replace_synchronises_witness:
  "\<exists>ok sm'. replace (ideal_ops low_bit_ignored) [(3, ''b''), (5, ''c'')]
       \<lparr>snapshot = [(1, ''a''), (3, ''a'')], bpf_map = [0 \<mapsto> ''a'', 2 \<mapsto> ''a''], resync_required = False\<rparr>
         = Some (ok, sm') \<and> ok \<and> bpf_map sm' = kernel_of low_bit_ignored [(3, ''b''), (5, ''c'')]"
proof -
  let ?sm = "\<lparr>snapshot = [(1, ''a''), (3, ''a'')], bpf_map = [0 \<mapsto> ''a'', 2 \<mapsto> ''a''],
      resync_required = False\<rparr> :: (nat, string) BpfShadowHashMap"
  have "shadow_inv low_bit_ignored ?sm"
    by (auto simp: shadow_inv_def keys_of_def kernel_of_def low_bit_ignored_def)
  moreover have "inj_on low_bit_ignored (keys_of (snapshot ?sm) \<union> keys_of [(3, ''b''), (5, ''c'')])"
    by (auto simp: keys_of_def low_bit_ignored_def inj_on_def)
  ultimately show ?thesis
    using replace_synchronises[OF ideal_ops_laws(1), of low_bit_ignored ?sm "[(3, ''b''), (5, ''c'')]"]
      ideal_ops_laws(2)[of low_bit_ignored] by auto
qed


section \<open>Where the snapshot is not the kernel map\<close>

lemma replace_fresh:
  assumes laws: "batch_laws canon place places K" and "never_fails K"
    and inv: "distinct (map fst (snapshot sm))" "\<not> resync_required sm"
    and new: "distinct (map fst new)" "inj_on canon (keys_of new)"
    and bd: "build_diff (snapshot sm) new = (del, uk, uv)"
  shows "\<exists>sm'. replace K new sm = Some (True, sm') \<and> snapshot sm' = new
    \<and> bpf_map sm' = bpf_map sm |` (- (canon ` set del)) ++ map_of (zip (map canon uk) uv)"
proof -
  obtain ok1 sm1 where d: "apply_delete K del sm = (ok1, sm1)" by fastforce
  obtain ok2 sm2 where u: "apply_upsert K uk uv sm1 = (ok2, sm2)" by fastforce
  note upd = build_diff_upd[OF bd inv(1) new(1)]
  note ds = apply_delete_spec[OF laws d]
  note us = apply_upsert_spec[OF laws u upd(1) distinct_canon[OF upd(2) new(2) upd(3)]]
  show ?thesis using ds us assms(2) inv(2) by (auto simp: replace_def bd d u)
qed

text \<open>
  C37. A shadow map opened on a kernel map that already holds entries, as after a restart of
  the manager alone while the maps stay pinned, starts with an empty snapshot that counts as
  synchronised. The first successful replacement therefore only adds: every entry the
  kernel map held under another key stays, beside the new state.
\<close>

theorem restart_keeps_stale_entries:
  assumes "batch_laws canon place places K" "never_fails K"
    "distinct (map fst new)" "inj_on canon (keys_of new)"
  shows "\<exists>sm'. replace K new (BpfShadowHashMap_new m) = Some (True, sm')
    \<and> snapshot sm' = new \<and> bpf_map sm' = m ++ kernel_of canon new"
proof -
  have "build_diff [] new = ([], map fst new, map snd new)"
    by (simp add: build_diff_def Let_def List.map_filter_simps)
  from replace_fresh[OF assms(1,2) _ _ assms(3,4), of "BpfShadowHashMap_new m"] this show ?thesis
    by (simp add: BpfShadowHashMap_new_def kernel_of_zip restrict_map_def)
qed

theorem restart_keeps_stale_entries_witness:
  "\<exists>sm'. replace (ideal_ops id) [(1, ''allow'')] (BpfShadowHashMap_new [2 \<mapsto> ''allow''])
      = Some (True, sm') \<and> bpf_map sm' (2 :: nat) = Some ''allow''"
  using restart_keeps_stale_entries[OF ideal_ops_laws, of "[(1 :: nat, ''allow'')]" id "[2 \<mapsto> ''allow'']"]
  by (auto simp: keys_of_def kernel_of_def)

text \<open>
  C40. Deleting one of two entries that the kernel identifies deletes both. If the state
  loses the key \<open>k1\<close> and keeps \<open>k2\<close> with its value, and the kernel does not tell
  \<open>k1\<close> from \<open>k2\<close> (for instance 10.0.0.1/8 and 10.0.0.2/8 in an LPM trie), then the
  replacement reports success and the snapshot has the entry of \<open>k2\<close>, but the kernel map
  has none.
\<close>

theorem identified_keys_lose_rule:
  assumes "batch_laws canon place places K" "never_fails K"
    and "distinct (map fst (snapshot sm))" "\<not> resync_required sm"
    and "distinct (map fst new)" "inj_on canon (keys_of new)"
    and "map_of (snapshot sm) k2 = Some v" "map_of new k2 = Some v"
    and "map_of (snapshot sm) k1 \<noteq> None" "map_of new k1 = None" "canon k1 = canon k2"
  shows "\<exists>sm'. replace K new sm = Some (True, sm') \<and> map_of (snapshot sm') k2 = Some v
    \<and> bpf_map sm' (canon k2) = None"
proof -
  obtain del uk uv where bd: "build_diff (snapshot sm) new = (del, uk, uv)" by (metis prod_cases3)
  note upd = build_diff_upd[OF bd assms(3,5)]
  have "k1 \<in> set del"
    using build_diff_del[OF bd] assms(9,10) by (simp add: keys_of_def map_of_eq_None_iff)
  have k2: "k2 \<in> keys_of new"
    using assms(8) by (force simp: keys_of_def dest: map_of_SomeD)
  from \<open>k1 \<in> set del\<close> have del: "canon k2 \<in> canon ` set del" using assms(11) by (metis imageI)
  have "k2 \<notin> set uk"
    using map_of_zip_is_None[OF upd(1)[symmetric], of k2] upd(4)[of k2] assms(7,8) by simp
  then have "canon k2 \<notin> canon ` set uk"
    using inj_on_image_mem_iff[OF assms(6) k2 upd(3)] by simp
  then have "map_of (zip (map canon uk) uv) (canon k2) = None"
    using map_of_zip_is_None[of "map canon uk" uv "canon k2"] upd(1) by simp
  with replace_fresh[OF assms(1-6) bd] del assms(8) show ?thesis
    by (auto simp: map_add_def restrict_map_def)
qed

theorem identified_keys_lose_rule_witness:
  "\<exists>sm'. replace (ideal_ops low_bit_ignored) [(3, ''block'')]
       \<lparr>snapshot = [(2, ''block''), (3, ''block'')], bpf_map = [2 \<mapsto> ''block''], resync_required = False\<rparr>
         = Some (True, sm') \<and> bpf_map sm' 2 = None"
  using identified_keys_lose_rule[OF ideal_ops_laws, of "\<lparr>snapshot = [(2, ''block''), (3, ''block'')],
      bpf_map = [2 \<mapsto> ''block''], resync_required = False\<rparr>" "[(3, ''block'')]" low_bit_ignored 3 "''block''" 2]
  by (simp add: keys_of_def low_bit_ignored_def) blast

end
