(* ===== verification/MapsManager.thy ===== *)
theory MapsManager
  imports Config Buckets ShadowMap
begin

text \<open>
  The maps manager (\<open>manager/xfw/maps_manager.hh\<close>, \<open>maps_manager.cc\<close>) and the
  application of a configuration (\<open>Xfw::set_config\<close> in \<open>manager/xfw/xfw.cc\<close>): every
  \<open>set_\<close> operation builds the new rules, writes them to the inactive copy of its maps and
  switches the active copy by writing the configuration. An exception is an \<open>Inl\<close>; the
  state of the manager and of the kernel maps at that point is kept.
\<close>

datatype mgr_error =
    Already_exists
  | Rule_limit_exceeded
  | Unable_to_update_rules
  | Cfg_load_failed
  | Unable_to_update_configuration
  | Unexpected_map_index
  | Pool_exhausted pool_error
  | Too_big_rate u64
  | Mode_not_loaded
  | Sysctl_unavailable


section \<open>Window and rates\<close>

text \<open>\<open>std::bit_ceil\<close>: the smallest power of two that is not below the value.\<close>

definition bit_ceil :: "u32 \<Rightarrow> u32" where
  "bit_ceil v = (case find (\<lambda>k. unat v \<le> 2 ^ k) [0..<32] of Some k \<Rightarrow> push_bit k 1 | None \<Rightarrow> 0)"

definition xfw_round_pow2 :: "u32 \<Rightarrow> u32" where
  "xfw_round_pow2 v =
     (if v \<le> 1 then 1
      else
        let hi = bit_ceil v; lo = drop_bit 1 hi
        in if v = hi then hi else if v - lo < hi - v then lo else hi)"

text \<open>\<open>std::countr_zero\<close>: the number of trailing zero bits, 32 for zero.\<close>

definition xfw_ilog2 :: "u32 \<Rightarrow> u32" where
  "xfw_ilog2 v = (case find (bit v) [0..<32] of Some k \<Rightarrow> word_of_nat k | None \<Rightarrow> 32)"


section \<open>The state of the manager\<close>

record SrcRules =
  v4_udp :: "(XfwIpv4LpmKey, XfwSrcRule) BpfShadowHashMap"
  v4_tcp :: "(XfwIpv4LpmKey, XfwSrcRule) BpfShadowHashMap"
  v6_udp :: "(XfwIpv6LpmKey, XfwSrcRule) BpfShadowHashMap"
  v6_tcp :: "(XfwIpv6LpmKey, XfwSrcRule) BpfShadowHashMap"
  port_udp :: "(u16, XfwSrcRule) BpfShadowHashMap"
  port_tcp :: "(u16, XfwSrcRule) BpfShadowHashMap"

record ProtectedNetRules =
  pn_v4 :: "(XfwIpv4LpmKey, int) BpfShadowHashMap"
  pn_v6 :: "(XfwIpv6LpmKey, int) BpfShadowHashMap"

type_synonym icmp_map = "(XfwIcmpKey, XfwActionRule) BpfShadowHashMap"
type_synonym dst_map = "(XfwDstKey, XfwActionRule) BpfShadowHashMap"

text \<open>
  \<open>cfg_map\<close> is the content of the configuration map of the kernel; the storage of the pool is
  the array of buckets.
\<close>

record BpfMapsManager =
  hz :: u64
  mgr_window :: XfwRlWindow
  rl_max_rate :: u64
  cfg_map :: XfwFilterCfg
  src_maps :: "SrcRules shadow"
  icmp_maps :: "icmp_map shadow"
  dst_maps :: "dst_map shadow"
  prot_net_maps :: "ProtectedNetRules shadow"
  pool :: "buckets IndexPool"

text \<open>
  The kernel during one call: the batch operations on each kind of map (for the source maps by
  protocol), and the error codes of reading and writing the configuration map.
\<close>

record mgr_env =
  ops_v4 :: "bool \<Rightarrow> (XfwIpv4LpmKey, XfwSrcRule) bpf_batch_ops"
  ops_v6 :: "bool \<Rightarrow> (XfwIpv6LpmKey, XfwSrcRule) bpf_batch_ops"
  ops_port :: "bool \<Rightarrow> (u16, XfwSrcRule) bpf_batch_ops"
  ops_icmp :: "(XfwIcmpKey, XfwActionRule) bpf_batch_ops"
  ops_dst :: "(XfwDstKey, XfwActionRule) bpf_batch_ops"
  ops_net4 :: "(XfwIpv4LpmKey, int) bpf_batch_ops"
  ops_net6 :: "(XfwIpv6LpmKey, int) bpf_batch_ops"
  cfg_get_err :: int
  cfg_set_err :: int

text \<open>The window parameters the constructor derives from the tick frequency.\<close>

definition rl_window_of :: "u64 \<Rightarrow> XfwRlWindow" where
  "rl_window_of h =
     (let jiffies = xfw_round_pow2 (ucast h)
      in \<lparr>rl_jiffies = jiffies, rl_shift = xfw_ilog2 jiffies, rl_mask = jiffies - 1\<rparr>)"

definition rl_max_rate_of :: "u64 \<Rightarrow> u64" where
  "rl_max_rate_of h = drop_bit (unat (rl_shift (rl_window_of h))) (- 1)"

text \<open>
  The constructor, over the kernel maps as the manager finds them: the configuration, the
  content of every rule map, and the buckets.
\<close>

record kernel_maps =
  km_cfg :: XfwFilterCfg
  km_src :: "((XfwIpv4LpmKey \<rightharpoonup> XfwSrcRule) \<times> (XfwIpv4LpmKey \<rightharpoonup> XfwSrcRule)
    \<times> (XfwIpv6LpmKey \<rightharpoonup> XfwSrcRule) \<times> (XfwIpv6LpmKey \<rightharpoonup> XfwSrcRule)
    \<times> (u16 \<rightharpoonup> XfwSrcRule) \<times> (u16 \<rightharpoonup> XfwSrcRule)) shadow"
  km_icmp :: "(XfwIcmpKey \<rightharpoonup> XfwActionRule) shadow"
  km_dst :: "(XfwDstKey \<rightharpoonup> XfwActionRule) shadow"
  km_prot_net :: "((XfwIpv4LpmKey \<rightharpoonup> int) \<times> (XfwIpv6LpmKey \<rightharpoonup> int)) shadow"
  km_buckets :: buckets

definition both :: "('a \<Rightarrow> 'b) \<Rightarrow> 'a shadow \<Rightarrow> 'b shadow" where
  "both f m = (f (fst m), f (snd m))"

definition BpfMapsManager_new :: "u64 \<Rightarrow> kernel_maps \<Rightarrow> BpfMapsManager" where
  "BpfMapsManager_new h km = \<lparr>hz = h, mgr_window = rl_window_of h, rl_max_rate = rl_max_rate_of h,
     cfg_map = km_cfg km,
     src_maps = both (\<lambda>(a, b, c, d, e, f). \<lparr>v4_udp = BpfShadowHashMap_new a, v4_tcp = BpfShadowHashMap_new b,
       v6_udp = BpfShadowHashMap_new c, v6_tcp = BpfShadowHashMap_new d,
       port_udp = BpfShadowHashMap_new e, port_tcp = BpfShadowHashMap_new f\<rparr>) (km_src km),
     icmp_maps = both BpfShadowHashMap_new (km_icmp km),
     dst_maps = both BpfShadowHashMap_new (km_dst km),
     prot_net_maps = both (\<lambda>(a, b). \<lparr>pn_v4 = BpfShadowHashMap_new a, pn_v6 = BpfShadowHashMap_new b\<rparr>)
       (km_prot_net km),
     pool = IndexPool_new XFW_MAX_RATE_LIMITER_BUCKETS (km_buckets km)\<rparr>"


section \<open>Common steps\<close>

definition get_config :: "mgr_env \<Rightarrow> BpfMapsManager \<Rightarrow> mgr_error + XfwFilterCfg" where
  "get_config E mg = (if cfg_get_err E = 0 then Inr (cfg_map mg) else Inl Cfg_load_failed)"

text \<open>The end of the scope of a transaction.\<close>

definition end_tx :: "buckets tx_state \<Rightarrow> BpfMapsManager \<Rightarrow> BpfMapsManager" where
  "end_tx t mg = mg\<lparr>pool := tx_destroy reset_rlimit_bucket t\<rparr>"

definition begin_tx :: "BpfMapsManager \<Rightarrow> buckets tx_state" where
  "begin_tx mg = (pool mg, tx_new)"

type_synonym mgr_result = "(mgr_error + unit) \<times> BpfMapsManager"

definition upload_config_changes ::
  "mgr_env \<Rightarrow> XfwFilterCfg \<Rightarrow> buckets tx_state option \<Rightarrow> BpfMapsManager \<Rightarrow> mgr_result" where
  "upload_config_changes E cf tx mg =
     (if cfg_set_err E \<noteq> 0 then
        (Inl Unable_to_update_configuration, case tx of Some t \<Rightarrow> end_tx t mg | None \<Rightarrow> mg)
      else
        (Inr (), case tx of
           Some t \<Rightarrow> end_tx (tx_commit reset_rlimit_bucket t) (mg\<lparr>cfg_map := cf\<rparr>)
         | None \<Rightarrow> mg\<lparr>cfg_map := cf\<rparr>))"

definition get_maps_by_index :: "u8 \<Rightarrow> mgr_error + u8" where
  "get_maps_by_index map_idx =
     (if map_idx = MAP_PRIMARY_IDX then Inr 0
      else if map_idx = MAP_SECONDARY_IDX then Inr 1 else Inl Unexpected_map_index)"

definition put_shadow_map :: "'m shadow \<Rightarrow> u8 \<Rightarrow> 'm \<Rightarrow> 'm shadow" where
  "put_shadow_map m idx v = (if idx AND MAP_SECONDARY_IDX \<noteq> 0 then (fst m, v) else (v, snd m))"

definition try_emplace :: "'k \<Rightarrow> 'v \<Rightarrow> ('k, 'v) Snapshot \<Rightarrow> bool \<times> ('k, 'v) Snapshot" where
  "try_emplace k v m = (if map_of m k = None then (True, m @ [(k, v)]) else (False, m))"

text \<open>A sequence of \<open>verify(map.replace(...))\<close>, up to the first failure.\<close>

fun verify_all :: "('r \<Rightarrow> (bool \<times> 'r) option) list \<Rightarrow> 'r \<Rightarrow> (bool \<times> 'r) option" where
  "verify_all [] r = Some (True, r)"
| "verify_all (f # fs) r =
     (case f r of
        None \<Rightarrow> None
      | Some (ok, r') \<Rightarrow> if ok then verify_all fs r' else Some (False, r'))"

text \<open>Loops that insert the same value under many keys: one throws on a duplicate, one skips it.\<close>

fun emplace_all :: "'k list \<Rightarrow> 'v \<Rightarrow> ('k, 'v) Snapshot \<Rightarrow> mgr_error + ('k, 'v) Snapshot" where
  "emplace_all [] v m = Inr m"
| "emplace_all (k # ks) v m =
     (case try_emplace k v m of (inserted, m') \<Rightarrow>
        if inserted then emplace_all ks v m' else Inl Already_exists)"

fun emplace_new :: "'k list \<Rightarrow> 'v \<Rightarrow> ('k, 'v) Snapshot \<Rightarrow> ('k, 'v) Snapshot" where
  "emplace_new [] v m = m"
| "emplace_new (k # ks) v m = emplace_new ks v (snd (try_emplace k v m))"

text \<open>The loop over default rules.\<close>

fun apply_defaults ::
  "Defaults \<Rightarrow> DefaultIndex list \<Rightarrow> u8 \<Rightarrow> (DefaultIndex \<Rightarrow> XfwActionRule) \<Rightarrow> 'm tx_state
     \<Rightarrow> (mgr_error + (DefaultIndex \<Rightarrow> XfwActionRule)) \<times> 'm tx_state" where
  "apply_defaults ds [] default_action to t = (Inr to, t)"
| "apply_defaults ds (idx # indices) default_action to t =
     (let new_rule = (case ds idx of
            Some src \<Rightarrow> mk_XfwActionRule (act_allow src) (act_ratelimit_index src)
          | None \<Rightarrow> XfwActionRule_of default_action)
      in case reconcile_ratelimit_bucket (Some new_rule) (Some (to idx)) t of
           (Inl e, t') \<Rightarrow> (Inl (Pool_exhausted e), t')
         | (Inr r, t') \<Rightarrow> apply_defaults ds indices default_action (to(idx := the r)) t')"

definition set_defaults :: "XfwFilterCfg \<Rightarrow> (DefaultIndex \<Rightarrow> XfwActionRule) \<Rightarrow> XfwFilterCfg" where
  "set_defaults cf to = cf\<lparr>rules := (rules cf)\<lparr>defaults := to\<rparr>\<rparr>"


section \<open>Single-value rules\<close>

definition set_tcp_flag_rule ::
  "mgr_env \<Rightarrow> u8 option \<Rightarrow> XfwFlagsFilter \<Rightarrow> BpfMapsManager \<Rightarrow> mgr_result" where
  "set_tcp_flag_rule E new_filter flag mg =
     (case get_config E mg of
        Inl e \<Rightarrow> (Inl e, mg)
      | Inr cf \<Rightarrow>
          (let new_rule = (case new_filter of
                 Some i \<Rightarrow> \<lparr>action = XFW_ACTION_RATE_LIMIT, rlimit = invalid_rlimit\<lparr>rl_named_idx := i\<rparr>\<rparr>
               | None \<Rightarrow> XfwActionRule_of XFW_ACTION_ALLOW)
           in case reconcile_ratelimit_bucket (Some new_rule) (Some (tcp_flags (rules cf) flag)) (begin_tx mg) of
                (Inl e, t) \<Rightarrow> (Inl (Pool_exhausted e), end_tx t mg)
              | (Inr r, t) \<Rightarrow>
                  upload_config_changes E
                    (cf\<lparr>rules := (rules cf)\<lparr>tcp_flags := (tcp_flags (rules cf))(flag := the r)\<rparr>\<rparr>)
                    (Some t) mg))"

definition set_tcp_anomaly_rule ::
  "mgr_env \<Rightarrow> TcpAnomalyFilter \<Rightarrow> BpfMapsManager \<Rightarrow> mgr_result" where
  "set_tcp_anomaly_rule E f mg =
     (case get_config E mg of
        Inl e \<Rightarrow> (Inl e, mg)
      | Inr cf \<Rightarrow>
          upload_config_changes E (cf\<lparr>rules := (rules cf)\<lparr>tcp_anomaly :=
            \<lparr>ta_enabled = an_enabled f, syn_without_opt_enabled = an_syn_without_opt f,
             syn_with_payload_enabled = an_syn_with_payload f,
             syn_seqno_enabled = (an_syn_with_seqno f \<noteq> None),
             syn_seqno_value = (case an_syn_with_seqno f of Some v \<Rightarrow> v | None \<Rightarrow> 0),
             bad_flags = memcpy_u64s 4 (an_bad_flags f)\<rparr>\<rparr>\<rparr>) None mg)"

definition make_default_ip_proto :: BitSet where
  "make_default_ip_proto =
     bs_set (bs_set (bs_set (bs_set (bs_default 255) (unat XFW_L4_PROTO_TCP))
       (unat XFW_L4_PROTO_UDP)) (unat XFW_L4_PROTO_ICMP)) (unat XFW_L4_PROTO_ICMPV6)"

definition set_simple_rules :: "mgr_env \<Rightarrow> XfwConfig \<Rightarrow> BpfMapsManager \<Rightarrow> mgr_result" where
  "set_simple_rules E config mg =
     (case get_config E mg of
        Inl e \<Rightarrow> (Inl e, mg)
      | Inr cf \<Rightarrow>
          (let s = (case c_ip_proto_filter config of Some p \<Rightarrow> p | None \<Rightarrow> make_default_ip_proto);
               sc = (case c_syncookie_filter config of
                   Some d \<Rightarrow> \<lparr>passive_timer_jiff = passive_timer d * hz mg,
                     flood_timer_jiff = flood_timer d * hz mg, sc_enabled = True\<rparr>
                 | None \<Rightarrow> (syncookie (rules cf))\<lparr>sc_enabled := False\<rparr>)
           in upload_config_changes E
                (cf\<lparr>rl_window := mgr_window mg,
                    rules := (rules cf)\<lparr>ip_protocols := memcpy_u64s 4 s,
                      evaluation_mode := c_evaluation_mode config, tcp_auth_enabled := c_auth_filter config,
                      dns_enabled := c_dns_filter config, syncookie := sc\<rparr>\<rparr>) None mg))"

definition turn_filtration_on :: "mgr_env \<Rightarrow> BpfMapsManager \<Rightarrow> mgr_result" where
  "turn_filtration_on E mg =
     (case get_config E mg of
        Inl e \<Rightarrow> (Inl e, mg)
      | Inr cf \<Rightarrow> upload_config_changes E (cf\<lparr>rules_active := True\<rparr>) None mg)"

definition scale_rl_to_window :: "BpfMapsManager \<Rightarrow> u64 \<Rightarrow> u64" where
  "scale_rl_to_window mg rlps =
     (if rlps = 0 then 0
      else max 1 (push_bit (unat (rl_shift (mgr_window mg))) rlps div hz mg))"

fun scale_ratelimits ::
  "BpfMapsManager \<Rightarrow> (u8 \<times> Ratelimit) list \<Rightarrow> (u8 \<Rightarrow> XfwPacketRate) \<Rightarrow> mgr_error + (u8 \<Rightarrow> XfwPacketRate)" where
  "scale_ratelimits mg [] rates = Inr rates"
| "scale_ratelimits mg ((i, r) # rest) rates =
     (if rl_state r = Active then
        (if rl_pps r > rl_max_rate mg then Inl (Too_big_rate (rl_pps r))
         else if rl_bps r > rl_max_rate mg then Inl (Too_big_rate (rl_bps r))
         else scale_ratelimits mg rest (rates(i := \<lparr>rate_packets = scale_rl_to_window mg (rl_pps r),
                rate_bytes = scale_rl_to_window mg (rl_bps r)\<rparr>)))
      else scale_ratelimits mg rest rates)"

definition set_ratelimits :: "mgr_env \<Rightarrow> Ratelimits \<Rightarrow> BpfMapsManager \<Rightarrow> mgr_result" where
  "set_ratelimits E rls mg =
     (case get_config E mg of
        Inl e \<Rightarrow> (Inl e, mg)
      | Inr cf \<Rightarrow>
          (case scale_ratelimits mg (zip slots (ratelimits rls)) (named_rates cf) of
             Inl e \<Rightarrow> (Inl e, mg)
           | Inr rates \<Rightarrow> upload_config_changes E (cf\<lparr>named_rates := rates\<rparr>) None mg))"



section \<open>Source rules\<close>

definition lpm4_key :: "Net4Key \<Rightarrow> XfwIpv4LpmKey" where
  "lpm4_key k = \<lparr>prefixlen4 = ucast (n4_prefixlen k), addr4 = n4_addr k\<rparr>"

definition lpm6_key :: "Net6Key \<Rightarrow> XfwIpv6LpmKey" where
  "lpm6_key k = \<lparr>prefixlen6 = ucast (n6_prefixlen k), addr6 = n6_addr k\<rparr>"

text \<open>The six snapshots that are built before any map is touched.\<close>

record src_snapshots =
  s4_udp :: "(XfwIpv4LpmKey, XfwSrcRule) Snapshot"
  s4_tcp :: "(XfwIpv4LpmKey, XfwSrcRule) Snapshot"
  s6_udp :: "(XfwIpv6LpmKey, XfwSrcRule) Snapshot"
  s6_tcp :: "(XfwIpv6LpmKey, XfwSrcRule) Snapshot"
  sp_udp :: "(u16, XfwSrcRule) Snapshot"
  sp_tcp :: "(u16, XfwSrcRule) Snapshot"

definition src_rule_of :: "NetIp \<Rightarrow> XfwSrcRule" where
  "src_rule_of n = mk_XfwSrcRule (isAllowed (ni_flags n)) (map_option unat (ni_ratelimit_index n))"

text \<open>The first loop over the rules: addresses and ports of the user, no duplicates.\<close>

fun add_user_rules :: "NetIps \<Rightarrow> src_snapshots \<Rightarrow> mgr_error + src_snapshots" where
  "add_user_rules [] S = Inr S"
| "add_user_rules ((alias, n) # rest) S =
     (let r = src_rule_of n; tcp = isTcp (ni_flags n)
      in case emplace_all (map lpm4_key (ni_net4s n)) r (if tcp then s4_tcp S else s4_udp S) of
           Inl e \<Rightarrow> Inl e
         | Inr m4 \<Rightarrow>
             (case emplace_all (map lpm6_key (ni_net6s n)) r (if tcp then s6_tcp S else s6_udp S) of
                Inl e \<Rightarrow> Inl e
              | Inr m6 \<Rightarrow>
                  (case emplace_all (ni_ports n) r (if tcp then sp_tcp S else sp_udp S) of
                     Inl e \<Rightarrow> Inl e
                   | Inr mp \<Rightarrow>
                       add_user_rules rest
                         (if tcp then S\<lparr>s4_tcp := m4, s6_tcp := m6, sp_tcp := mp\<rparr>
                          else S\<lparr>s4_udp := m4, s6_udp := m6, sp_udp := mp\<rparr>))))"

text \<open>The second loop: networks of countries, which yield to what is there.\<close>

fun add_geo_rules :: "NetIps \<Rightarrow> src_snapshots \<Rightarrow> src_snapshots" where
  "add_geo_rules [] S = S"
| "add_geo_rules ((alias, n) # rest) S =
     (let r = src_rule_of n; tcp = isTcp (ni_flags n);
          k4 = map lpm4_key (concat (map geo_net4s (ni_nets n)));
          k6 = map lpm6_key (concat (map geo_net6s (ni_nets n)))
      in add_geo_rules rest
           (if tcp then S\<lparr>s4_tcp := emplace_new k4 r (s4_tcp S), s6_tcp := emplace_new k6 r (s6_tcp S)\<rparr>
            else S\<lparr>s4_udp := emplace_new k4 r (s4_udp S), s6_udp := emplace_new k6 r (s6_udp S)\<rparr>))"

definition no_src_snapshots :: src_snapshots where
  "no_src_snapshots = \<lparr>s4_udp = [], s4_tcp = [], s6_udp = [], s6_tcp = [], sp_udp = [], sp_tcp = []\<rparr>"

definition src_limits_exceeded :: "src_snapshots \<Rightarrow> bool" where
  "src_limits_exceeded S \<longleftrightarrow>
     length (s4_udp S) > XFW_MAX_SRC_IP_RULES \<or> length (s4_tcp S) > XFW_MAX_SRC_IP_RULES
     \<or> length (s6_udp S) > XFW_MAX_SRC_IP_RULES \<or> length (s6_tcp S) > XFW_MAX_SRC_IP_RULES
     \<or> length (sp_udp S) > XFW_MAX_PORTS \<or> length (sp_tcp S) > XFW_MAX_PORTS"

definition build_src_snapshots :: "NetIps \<Rightarrow> mgr_error + src_snapshots" where
  "build_src_snapshots rs =
     (case add_user_rules rs no_src_snapshots of
        Inl e \<Rightarrow> Inl e
      | Inr S \<Rightarrow>
          (let S' = add_geo_rules rs S
           in if src_limits_exceeded S' then Inl Rule_limit_exceeded else Inr S'))"

definition replace_src_maps :: "mgr_env \<Rightarrow> src_snapshots \<Rightarrow> (SrcRules \<Rightarrow> (bool \<times> SrcRules) option) list" where
  "replace_src_maps E S =
     [\<lambda>r. map_option (apsnd (\<lambda>sm. r\<lparr>v4_udp := sm\<rparr>)) (replace (ops_v4 E False) (s4_udp S) (v4_udp r)),
      \<lambda>r. map_option (apsnd (\<lambda>sm. r\<lparr>v4_tcp := sm\<rparr>)) (replace (ops_v4 E True) (s4_tcp S) (v4_tcp r)),
      \<lambda>r. map_option (apsnd (\<lambda>sm. r\<lparr>v6_udp := sm\<rparr>)) (replace (ops_v6 E False) (s6_udp S) (v6_udp r)),
      \<lambda>r. map_option (apsnd (\<lambda>sm. r\<lparr>v6_tcp := sm\<rparr>)) (replace (ops_v6 E True) (s6_tcp S) (v6_tcp r)),
      \<lambda>r. map_option (apsnd (\<lambda>sm. r\<lparr>port_udp := sm\<rparr>)) (replace (ops_port E False) (sp_udp S) (port_udp r)),
      \<lambda>r. map_option (apsnd (\<lambda>sm. r\<lparr>port_tcp := sm\<rparr>)) (replace (ops_port E True) (sp_tcp S) (port_tcp r))]"

definition src_indices :: "DefaultIndex list" where
  "src_indices = [XFW_DEFAULT_SRC_IP_TCP_IP4, XFW_DEFAULT_SRC_IP_UDP_IP4,
     XFW_DEFAULT_SRC_IP_TCP_IP6, XFW_DEFAULT_SRC_IP_UDP_IP6,
     XFW_DEFAULT_SRC_PORT_TCP_IP4, XFW_DEFAULT_SRC_PORT_UDP_IP4,
     XFW_DEFAULT_SRC_PORT_TCP_IP6, XFW_DEFAULT_SRC_PORT_UDP_IP6]"

text \<open>The common tail: defaults, then the switch.\<close>

definition switch_rules ::
  "mgr_env \<Rightarrow> Defaults \<Rightarrow> DefaultIndex list \<Rightarrow> u8 \<Rightarrow> XfwFilterCfg \<Rightarrow> buckets tx_state
     \<Rightarrow> BpfMapsManager \<Rightarrow> mgr_result" where
  "switch_rules E ds indices default_action cf t mg =
     (case apply_defaults ds indices default_action (defaults (rules cf)) t of
        (Inl e, t') \<Rightarrow> (Inl e, end_tx t' mg)
      | (Inr to, t') \<Rightarrow> upload_config_changes E (set_defaults cf to) (Some t') mg)"

definition set_src_rules :: "mgr_env \<Rightarrow> NetIps \<Rightarrow> Defaults \<Rightarrow> BpfMapsManager \<Rightarrow> mgr_result option" where
  "set_src_rules E rs ds mg =
     (case build_src_snapshots rs of
        Inl e \<Rightarrow> Some (Inl e, mg)
      | Inr S \<Rightarrow>
          (case get_config E mg of
             Inl e \<Rightarrow> Some (Inl e, mg)
           | Inr cf \<Rightarrow>
               (let inactive = next_map_idx (amap_src cf)
                in case get_maps_by_index inactive of
                     Inl e \<Rightarrow> Some (Inl e, mg)
                   | Inr idx \<Rightarrow>
                       (case verify_all (replace_src_maps E S) (SELECT_SHADOW_MAP (src_maps mg) idx) of
                          None \<Rightarrow> None
                        | Some (ok, r) \<Rightarrow>
                            (let mg' = mg\<lparr>src_maps := put_shadow_map (src_maps mg) idx r\<rparr>
                             in if \<not> ok then Some (Inl Unable_to_update_rules, mg')
                                else Some (switch_rules E ds src_indices XFW_ACTION_ALLOW
                                       (cf\<lparr>amap_src := inactive\<rparr>) (begin_tx mg') mg'))))))"


section \<open>ICMP and destination rules\<close>

text \<open>
  The loop over the keys of one rule: the rule object is reused from key to key, so it keeps
  the bucket of the previous key until it is reconciled with the next.
\<close>

fun add_bucketed ::
  "('k, XfwActionRule) Snapshot \<Rightarrow> 'k list \<Rightarrow> XfwActionRule \<Rightarrow> ('k, XfwActionRule) Snapshot \<Rightarrow> 'm tx_state
     \<Rightarrow> (mgr_error + ('k, XfwActionRule) Snapshot) \<times> 'm tx_state" where
  "add_bucketed active [] r new_rules t = (Inr new_rules, t)"
| "add_bucketed active (k # ks) r new_rules t =
     (case reconcile_ratelimit_bucket (Some r) (map_of active k) t of
        (Inl e, t') \<Rightarrow> (Inl (Pool_exhausted e), t')
      | (Inr r', t') \<Rightarrow>
          (case try_emplace k (the r') new_rules of (inserted, new') \<Rightarrow>
             if \<not> inserted then (Inl Already_exists, t')
             else add_bucketed active ks (the r') new' t'))"

text \<open>All rules: each contributes its keys and its rule object.\<close>

fun add_all_bucketed ::
  "('k, XfwActionRule) Snapshot \<Rightarrow> ('k list \<times> XfwActionRule) list \<Rightarrow> ('k, XfwActionRule) Snapshot \<Rightarrow> 'm tx_state
     \<Rightarrow> (mgr_error + ('k, XfwActionRule) Snapshot) \<times> 'm tx_state" where
  "add_all_bucketed active [] new_rules t = (Inr new_rules, t)"
| "add_all_bucketed active ((ks, r) # rest) new_rules t =
     (case add_bucketed active ks r new_rules t of
        (Inl e, t') \<Rightarrow> (Inl e, t')
      | (Inr new', t') \<Rightarrow> add_all_bucketed active rest new' t')"

text \<open>Buckets of the rules that are gone return to the pool.\<close>

fun release_removed ::
  "('k, XfwActionRule) Snapshot \<Rightarrow> ('k, XfwActionRule) Snapshot \<Rightarrow> 'm tx_state \<Rightarrow> 'm tx_state" where
  "release_removed new_rules [] t = t"
| "release_removed new_rules ((k, r) # rest) t =
     release_removed new_rules rest
       (if map_of new_rules k = None then snd (reconcile_ratelimit_bucket None (Some r) t) else t)"

definition icmp_keys :: "IcmpRules \<Rightarrow> (XfwIcmpKey list \<times> XfwActionRule) list" where
  "icmp_keys rs = map (\<lambda>(alias, rule).
     (map (\<lambda>type. \<lparr>icmp_proto = (if ic_isIpv6 rule then XFW_L4_PROTO_ICMPV6 else XFW_L4_PROTO_ICMP),
          icmp_type = type\<rparr>) (ic_types rule),
      mk_XfwActionRule (ic_isAllowed rule) (ic_ratelimit_index rule))) rs"

definition dst_keys :: "NetIps \<Rightarrow> (XfwDstKey list \<times> XfwActionRule) list" where
  "dst_keys rs = map (\<lambda>(alias, n).
     (let ipver = (if isIpv6 (ni_flags n) then XFW_IP_VER_6 else XFW_IP_VER_4);
          proto = (if isTcp (ni_flags n) then XFW_L4_PROTO_TCP else XFW_L4_PROTO_UDP)
      in (map (\<lambda>k. \<lparr>dk_ipver = ipver, dk_proto = proto, dk_port = n4_prefixlen k,
              dk_addr = xfw_assign_ip4_addr (n4_addr k)\<rparr>) (ni_net4s n)
          @ map (\<lambda>k. \<lparr>dk_ipver = ipver, dk_proto = proto, dk_port = n6_prefixlen k,
              dk_addr = n6_addr k\<rparr>) (ni_net6s n),
          mk_XfwActionRule (isAllowed (ni_flags n)) (ni_ratelimit_index n)))) rs"

definition icmp_indices :: "DefaultIndex list" where
  "icmp_indices = [XFW_DEFAULT_ICMP_IP4, XFW_DEFAULT_ICMP_IP6]"

definition dst_indices :: "DefaultIndex list" where
  "dst_indices = [XFW_DEFAULT_DST_TCP_IP4, XFW_DEFAULT_DST_TCP_IP6,
     XFW_DEFAULT_DST_UDP_IP4, XFW_DEFAULT_DST_UDP_IP6]"

definition set_icmp_rules :: "mgr_env \<Rightarrow> IcmpRules \<Rightarrow> Defaults \<Rightarrow> BpfMapsManager \<Rightarrow> mgr_result option" where
  "set_icmp_rules E rs ds mg =
     (case get_config E mg of
        Inl e \<Rightarrow> Some (Inl e, mg)
      | Inr cf \<Rightarrow>
          (case get_maps_by_index (amap_icmp cf) of
             Inl e \<Rightarrow> Some (Inl e, mg)
           | Inr act \<Rightarrow>
               (let active = snapshot (SELECT_SHADOW_MAP (icmp_maps mg) act)
                in case add_all_bucketed active (icmp_keys rs) [] (begin_tx mg) of
                     (Inl e, t) \<Rightarrow> Some (Inl e, end_tx t mg)
                   | (Inr new_rules, t) \<Rightarrow>
                       if length new_rules > XFW_MAX_ICMP_RULES then Some (Inl Rule_limit_exceeded, end_tx t mg)
                       else
                         let t' = release_removed new_rules active t; inactive = next_map_idx (amap_icmp cf)
                         in case get_maps_by_index inactive of
                              Inl e \<Rightarrow> Some (Inl e, end_tx t' mg)
                            | Inr idx \<Rightarrow>
                                (case replace (ops_icmp E) new_rules (SELECT_SHADOW_MAP (icmp_maps mg) idx) of
                                   None \<Rightarrow> None
                                 | Some (ok, m) \<Rightarrow>
                                     (let mg' = mg\<lparr>icmp_maps := put_shadow_map (icmp_maps mg) idx m\<rparr>
                                      in if \<not> ok then Some (Inl Unable_to_update_rules, end_tx t' mg')
                                         else Some (switch_rules E ds icmp_indices XFW_ACTION_ALLOW
                                                (cf\<lparr>amap_icmp := inactive\<rparr>) t' mg'))))))"

definition set_dst_rules :: "mgr_env \<Rightarrow> NetIps \<Rightarrow> Defaults \<Rightarrow> BpfMapsManager \<Rightarrow> mgr_result option" where
  "set_dst_rules E rs ds mg =
     (case get_config E mg of
        Inl e \<Rightarrow> Some (Inl e, mg)
      | Inr cf \<Rightarrow>
          (case get_maps_by_index (amap_dst cf) of
             Inl e \<Rightarrow> Some (Inl e, mg)
           | Inr act \<Rightarrow>
               (let active = snapshot (SELECT_SHADOW_MAP (dst_maps mg) act)
                in case add_all_bucketed active (dst_keys rs) [] (begin_tx mg) of
                     (Inl e, t) \<Rightarrow> Some (Inl e, end_tx t mg)
                   | (Inr new_rules, t) \<Rightarrow>
                       if length new_rules > XFW_MAX_DST_RULES then Some (Inl Rule_limit_exceeded, end_tx t mg)
                       else
                         let t' = release_removed new_rules active t; inactive = next_map_idx (amap_dst cf)
                         in case get_maps_by_index inactive of
                              Inl e \<Rightarrow> Some (Inl e, end_tx t' mg)
                            | Inr idx \<Rightarrow>
                                (case replace (ops_dst E) new_rules (SELECT_SHADOW_MAP (dst_maps mg) idx) of
                                   None \<Rightarrow> None
                                 | Some (ok, m) \<Rightarrow>
                                     (let mg' = mg\<lparr>dst_maps := put_shadow_map (dst_maps mg) idx m\<rparr>
                                      in if \<not> ok then Some (Inl Unable_to_update_rules, end_tx t' mg')
                                         else Some (switch_rules E ds dst_indices
                                                (if rs = [] then XFW_ACTION_ALLOW else XFW_ACTION_BLOCK)
                                                (cf\<lparr>amap_dst := inactive\<rparr>) t' mg'))))))"


section \<open>Protected networks\<close>

fun add_prot_nets ::
  "NetIps \<Rightarrow> (XfwIpv4LpmKey, int) Snapshot \<Rightarrow> (XfwIpv6LpmKey, int) Snapshot
     \<Rightarrow> mgr_error + ((XfwIpv4LpmKey, int) Snapshot \<times> (XfwIpv6LpmKey, int) Snapshot)" where
  "add_prot_nets [] m4 m6 = Inr (m4, m6)"
| "add_prot_nets ((alias, n) # rest) m4 m6 =
     (case emplace_all (map lpm4_key (ni_net4s n)) 1 m4 of
        Inl e \<Rightarrow> Inl e
      | Inr m4' \<Rightarrow>
          (case emplace_all (map lpm6_key (ni_net6s n)) 1 m6 of
             Inl e \<Rightarrow> Inl e
           | Inr m6' \<Rightarrow> add_prot_nets rest m4' m6'))"

definition replace_prot_maps ::
  "mgr_env \<Rightarrow> (XfwIpv4LpmKey, int) Snapshot \<Rightarrow> (XfwIpv6LpmKey, int) Snapshot
     \<Rightarrow> (ProtectedNetRules \<Rightarrow> (bool \<times> ProtectedNetRules) option) list" where
  "replace_prot_maps E m4 m6 =
     [\<lambda>r. map_option (apsnd (\<lambda>sm. r\<lparr>pn_v4 := sm\<rparr>)) (replace (ops_net4 E) m4 (pn_v4 r)),
      \<lambda>r. map_option (apsnd (\<lambda>sm. r\<lparr>pn_v6 := sm\<rparr>)) (replace (ops_net6 E) m6 (pn_v6 r))]"

definition set_prot_net_settings :: "mgr_env \<Rightarrow> NetIps \<Rightarrow> BpfMapsManager \<Rightarrow> mgr_result option" where
  "set_prot_net_settings E rs mg =
     (case add_prot_nets rs [] [] of
        Inl e \<Rightarrow> Some (Inl e, mg)
      | Inr (m4, m6) \<Rightarrow>
          if length m4 > XFW_MAX_PROTECTED_NET_RULES \<or> length m6 > XFW_MAX_PROTECTED_NET_RULES
          then Some (Inl Rule_limit_exceeded, mg)
          else
            (case get_config E mg of
               Inl e \<Rightarrow> Some (Inl e, mg)
             | Inr cf \<Rightarrow>
                 (let inactive = next_map_idx (amap_prot_net cf)
                  in case get_maps_by_index inactive of
                       Inl e \<Rightarrow> Some (Inl e, mg)
                     | Inr idx \<Rightarrow>
                         (case verify_all (replace_prot_maps E m4 m6) (SELECT_SHADOW_MAP (prot_net_maps mg) idx) of
                            None \<Rightarrow> None
                          | Some (ok, r) \<Rightarrow>
                              (let mg' = mg\<lparr>prot_net_maps := put_shadow_map (prot_net_maps mg) idx r\<rparr>
                               in if \<not> ok then Some (Inl Unable_to_update_rules, mg')
                                  else Some (upload_config_changes E
                                         (cf\<lparr>amap_prot_net := inactive\<rparr>) None mg'))))))"

end
