(* ===== verification/BucketLedger.thy ===== *)
theory BucketLedger
  imports MapsManager
begin

text \<open>
  The loops of the manager that move rate-limiter buckets, followed on the ledger: whichever
  branch an update takes, afterwards every place of the configuration owns exactly the bucket
  its active rule names.
\<close>

datatype rule_place =
    Icmp_rule XfwIcmpKey
  | Dst_rule XfwDstKey
  | Default_rule DefaultIndex
  | Flag_rule XfwFlagsFilter

definition active_icmp :: "BpfMapsManager \<Rightarrow> icmp_map" where
  "active_icmp mg = SELECT_SHADOW_MAP (icmp_maps mg) (amap_icmp (cfg_map mg))"

definition active_dst :: "BpfMapsManager \<Rightarrow> dst_map" where
  "active_dst mg = SELECT_SHADOW_MAP (dst_maps mg) (amap_dst (cfg_map mg))"

text \<open>The bucket of the active rule at a place.\<close>

fun place_bucket :: "BpfMapsManager \<Rightarrow> rule_place \<Rightarrow> u32 option" where
  "place_bucket mg (Icmp_rule k) = rule_bucket (map_of (snapshot (active_icmp mg)) k)"
| "place_bucket mg (Dst_rule k) = rule_bucket (map_of (snapshot (active_dst mg)) k)"
| "place_bucket mg (Default_rule i) = rule_bucket (Some (defaults (rules (cfg_map mg)) i))"
| "place_bucket mg (Flag_rule f) = rule_bucket (Some (tcp_flags (rules (cfg_map mg)) f))"

text \<open>
  No two active rules share a bucket, and the pool holds exactly the buckets no active rule
  owns.
\<close>

definition bucket_inv :: "BpfMapsManager \<Rightarrow> bool" where
  "bucket_inv mg \<longleftrightarrow> inj_on (place_bucket mg) (dom (place_bucket mg))
     \<and> pool_inv XFW_MAX_RATE_LIMITER_BUCKETS (ran (place_bucket mg)) (pool mg)"

abbreviation "N \<equiv> XFW_MAX_RATE_LIMITER_BUCKETS"


section \<open>The loops\<close>

text \<open>The places of one map: keys seen so far have their new rule, the others their old one.\<close>

definition places_of ::
  "('k \<Rightarrow> 's) \<Rightarrow> ('k, XfwActionRule) Snapshot \<Rightarrow> ('k, XfwActionRule) Snapshot \<Rightarrow> ('s \<rightharpoonup> u32) \<Rightarrow> bool" where
  "places_of emb active new_rules cur \<longleftrightarrow>
     (\<forall>k. cur (emb k) = (case map_of new_rules k of
        Some r \<Rightarrow> rule_bucket (Some r) | None \<Rightarrow> rule_bucket (map_of active k)))"

lemma places_of_add:
  assumes "places_of emb active new cur" "inj emb" "map_of new k = None"
  shows "places_of emb active (new @ [(k, r)]) (cur(emb k := rule_bucket (Some r)))"
  using assms by (auto simp: places_of_def inj_eq map_add_def split: option.splits)

lemma reconcile_Some:
  "reconcile_ratelimit_bucket (Some r) old t = (Inr new', t') \<Longrightarrow> \<exists>r'. new' = Some r'"
  by (erule reconcile_rule) blast

lemma add_bucketed_ledger:
  assumes "ledger n owned cur t" "places_of emb active new cur" "inj emb"
    "\<forall>k b. rule_bucket (map_of active k) = Some b \<longrightarrow> b \<in> owned"
    "add_bucketed active ks r new t = (Inr new', t')"
  shows "\<exists>cur'. ledger n owned cur' t' \<and> places_of emb active new' cur'
    \<and> (\<forall>p. p \<notin> range emb \<longrightarrow> cur' p = cur p)"
  using assms
proof (induction ks arbitrary: r new t cur)
  case (Cons k ks)
  obtain x t1 where rc: "reconcile_ratelimit_bucket (Some r) (map_of active k) t = (x, t1)" by (metis surj_pair)
  obtain r1 where r1: "x = Inr (Some r1)" "map_of new k = None"
      "add_bucketed active ks r1 (new @ [(k, r1)]) t1 = (Inr new', t')"
    using Cons.prems(5) rc reconcile_Some[of r "map_of active k" t _ t1]
    by (auto simp: try_emplace_def split: sum.splits if_splits)
  let ?cur = "cur(emb k := rule_bucket (Some r1))"
  have k: "cur (emb k) = rule_bucket (map_of active k)"
    using Cons.prems(2) r1(2) by (simp add: places_of_def)
  have "ledger n owned ?cur t1"
    by (rule reconcile_ledger[OF Cons.prems(1) k]) (use k Cons.prems(4) rc r1(1) in auto)
  then obtain cur' where "ledger n owned cur' t'" "places_of emb active new' cur'"
      "\<forall>p. p \<notin> range emb \<longrightarrow> cur' p = ?cur p"
    using Cons.IH[OF _ places_of_add[OF Cons.prems(2,3) r1(2)] Cons.prems(3,4) r1(3)] by blast
  then show ?case by (intro exI[of _ cur']) (metis fun_upd_apply rangeI)
qed auto

lemma add_all_bucketed_ledger:
  assumes "ledger n owned cur t" "places_of emb active new cur" "inj emb"
    "\<forall>k b. rule_bucket (map_of active k) = Some b \<longrightarrow> b \<in> owned"
    "add_all_bucketed active xs new t = (Inr new', t')"
  shows "\<exists>cur'. ledger n owned cur' t' \<and> places_of emb active new' cur'
    \<and> (\<forall>p. p \<notin> range emb \<longrightarrow> cur' p = cur p)"
  using assms
proof (induction active xs new t arbitrary: cur rule: add_all_bucketed.induct)
  case (2 active ks r rest new t)
  then obtain new1 t1 where a: "add_bucketed active ks r new t = (Inr new1, t1)"
      "add_all_bucketed active rest new1 t1 = (Inr new', t')"
    by (auto split: prod.splits sum.splits)
  from add_bucketed_ledger[OF "2.prems"(1-4) a(1)] obtain cur1 where c1: "ledger n owned cur1 t1"
      "places_of emb active new1 cur1" "\<forall>p. p \<notin> range emb \<longrightarrow> cur1 p = cur p"
    by auto
  from "2.IH"[OF a(1)[symmetric] refl c1(1,2) "2.prems"(3,4) a(2)] c1(3) show ?case by auto
qed auto

lemma add_bucketed_alloc_inv:
  "tx_alloc_inv n owned t \<Longrightarrow> tx_alloc_inv n owned (snd (add_bucketed active ks r new t))"
proof (induction active ks r new t rule: add_bucketed.induct)
  case (2 active k ks r new t)
  then show ?case
    using reconcile_alloc_inv[OF "2.prems", of "Some r" "map_of active k"]
    by (auto split: prod.splits sum.splits)
qed simp

lemma add_all_bucketed_alloc_inv:
  "tx_alloc_inv n owned t \<Longrightarrow> tx_alloc_inv n owned (snd (add_all_bucketed active xs new t))"
proof (induction active xs new t rule: add_all_bucketed.induct)
  case (2 active ks r rest new t)
  then show ?case
    using add_bucketed_alloc_inv[OF "2.prems", of active ks r new] by (auto split: prod.splits sum.splits)
qed simp

lemma reconcile_None: "fst (reconcile_ratelimit_bucket None (Some r) t) = Inr None"
  by (simp add: reconcile_ratelimit_bucket_def Let_def)

lemma release_removed_ledger:
  assumes "ledger n owned cur t" "inj emb" "distinct (map fst xs)"
    "\<And>k r. (k, r) \<in> set xs \<Longrightarrow> map_of new k = None \<Longrightarrow> cur (emb k) = rule_bucket (Some r)"
    "\<And>k r b. (k, r) \<in> set xs \<Longrightarrow> rule_bucket (Some r) = Some b \<Longrightarrow> b \<in> owned"
  shows "\<exists>cur'. ledger n owned cur' (release_removed new xs t)
    \<and> (\<forall>k. cur' (emb k) = (if map_of new k = None \<and> k \<in> fst ` set xs then None else cur (emb k)))
    \<and> (\<forall>p. p \<notin> range emb \<longrightarrow> cur' p = cur p)"
  using assms
proof (induction new xs t arbitrary: cur rule: release_removed.induct)
  case (2 new k r rest t)
  show ?case
  proof (cases "map_of new k = None")
    case True
    let ?t = "snd (reconcile_ratelimit_bucket None (Some r) t)" and ?cur = "cur(emb k := None)"
    have k: "cur (emb k) = rule_bucket (Some r)" using "2.prems"(4) True by auto
    have "ledger n owned (cur(emb k := rule_bucket None)) ?t"
      by (rule reconcile_ledger[OF "2.prems"(1) k]) (use k "2.prems"(5) reconcile_None[of r t] in \<open>auto simp: prod_eq_iff\<close>)
    then have "ledger n owned ?cur ?t" by simp
    note IH = "2.IH"[of ?cur, unfolded if_P[OF True], OF this "2.prems"(2)]
    have "k' \<noteq> k" if "(k', r') \<in> set rest" for k' r' using "2.prems"(3) that by force
    then have "\<exists>cur'. ledger n owned cur' (release_removed new rest ?t)
        \<and> (\<forall>k. cur' (emb k) = (if map_of new k = None \<and> k \<in> fst ` set rest then None else ?cur (emb k)))
        \<and> (\<forall>p. p \<notin> range emb \<longrightarrow> cur' p = ?cur p)"
      using "2.prems"(2,3,4) by (intro IH) (auto simp: inj_eq intro: "2.prems"(5))
    then obtain cur' where c: "ledger n owned cur' (release_removed new rest ?t)"
        "\<forall>k. cur' (emb k) = (if map_of new k = None \<and> k \<in> fst ` set rest then None else ?cur (emb k))"
        "\<forall>p. p \<notin> range emb \<longrightarrow> cur' p = ?cur p"
      by blast
    show ?thesis
      by (rule exI[of _ cur']) (use c True "2.prems"(2) in \<open>auto simp: inj_eq\<close>)
  next
    case False
    have "\<exists>cur'. ledger n owned cur' (release_removed new rest t)
        \<and> (\<forall>k. cur' (emb k) = (if map_of new k = None \<and> k \<in> fst ` set rest then None else cur (emb k)))
        \<and> (\<forall>p. p \<notin> range emb \<longrightarrow> cur' p = cur p)"
      by (rule "2.IH"[of cur, unfolded if_not_P[OF False]])
        (use "2.prems" in \<open>auto intro: "2.prems"(5)\<close>)
    then obtain cur' where c: "ledger n owned cur' (release_removed new rest t)"
        "\<forall>k. cur' (emb k) = (if map_of new k = None \<and> k \<in> fst ` set rest then None else cur (emb k))"
        "\<forall>p. p \<notin> range emb \<longrightarrow> cur' p = cur p"
      by blast
    show ?thesis
      by (rule exI[of _ cur']) (use c False in auto)
  qed
qed auto

lemma release_removed_alloc_inv:
  "tx_alloc_inv n owned t \<Longrightarrow> tx_alloc_inv n owned (release_removed new xs t)"
  by (induction new xs t rule: release_removed.induct) (simp_all add: reconcile_alloc_inv)

lemma apply_defaults_ledger:
  assumes "ledger n owned cur t" "distinct indices"
    "\<forall>i. cur (Default_rule i) = rule_bucket (Some (to i))"
    "\<forall>i \<in> set indices. \<forall>b. cur (Default_rule i) = Some b \<longrightarrow> b \<in> owned"
    "apply_defaults ds indices a to t = (Inr to', t')"
  shows "\<exists>cur'. ledger n owned cur' t' \<and> (\<forall>i. cur' (Default_rule i) = rule_bucket (Some (to' i)))
    \<and> (\<forall>p. p \<notin> range Default_rule \<longrightarrow> cur' p = cur p)"
  using assms
proof (induction indices arbitrary: to t cur)
  case (Cons i indices)
  let ?r = "case ds i of Some src \<Rightarrow> mk_XfwActionRule (act_allow src) (act_ratelimit_index src)
      | None \<Rightarrow> XfwActionRule_of a"
  obtain x t1 where rc: "reconcile_ratelimit_bucket (Some ?r) (Some (to i)) t = (x, t1)" by (metis surj_pair)
  obtain r1 where r1: "x = Inr (Some r1)" "apply_defaults ds indices a (to(i := r1)) t1 = (Inr to', t')"
    using Cons.prems(5) rc reconcile_Some[of ?r "Some (to i)" t _ t1] by (auto simp: Let_def split: sum.splits)
  let ?cur = "cur(Default_rule i := rule_bucket (Some r1))"
  have dist: "distinct indices" and new: "\<forall>j. ?cur (Default_rule j) = rule_bucket (Some ((to(i := r1)) j))"
    and own: "\<forall>j \<in> set indices. \<forall>b. ?cur (Default_rule j) = Some b \<longrightarrow> b \<in> owned"
    using Cons.prems(2,3,4) by auto
  have "ledger n owned ?cur t1"
    by (rule reconcile_ledger[OF Cons.prems(1), where old = "Some (to i)"])
      (use Cons.prems(3,4) rc r1(1) in auto)
  then obtain cur' where "ledger n owned cur' t'" "\<forall>i. cur' (Default_rule i) = rule_bucket (Some (to' i))"
      "\<forall>p. p \<notin> range Default_rule \<longrightarrow> cur' p = ?cur p"
    using Cons.IH[OF _ dist new own r1(2)] by blast
  then show ?case by (intro exI[of _ cur']) (metis fun_upd_apply rangeI)
qed auto

lemma apply_defaults_alloc_inv:
  "tx_alloc_inv n owned t \<Longrightarrow> tx_alloc_inv n owned (snd (apply_defaults ds indices a to t))"
proof (induction indices arbitrary: to t)
  case (Cons idx indices)
  let ?r = "case ds idx of Some src \<Rightarrow> mk_XfwActionRule (act_allow src) (act_ratelimit_index src)
      | None \<Rightarrow> XfwActionRule_of a"
  obtain x t1 where "reconcile_ratelimit_bucket (Some ?r) (Some (to idx)) t = (x, t1)" by (metis surj_pair)
  then show ?case
    using Cons.IH[of t1] reconcile_alloc_inv[OF Cons.prems, of "Some ?r" "Some (to idx)"]
    by (simp add: Let_def split: sum.split)
qed simp


section \<open>The switch\<close>

text \<open>What \<open>bucket_inv\<close> reads of the manager.\<close>

lemma place_bucket_cong:
  assumes "snapshot (active_icmp mg') = snapshot (active_icmp mg)"
    "snapshot (active_dst mg') = snapshot (active_dst mg)"
    "defaults (rules (cfg_map mg')) = defaults (rules (cfg_map mg))"
    "tcp_flags (rules (cfg_map mg')) = tcp_flags (rules (cfg_map mg))"
  shows "place_bucket mg' = place_bucket mg"
proof
  show "place_bucket mg' p = place_bucket mg p" for p by (cases p) (simp_all add: assms)
qed

lemma end_tx_fields [simp]:
  "cfg_map (end_tx t mg) = cfg_map mg" "icmp_maps (end_tx t mg) = icmp_maps mg"
  "dst_maps (end_tx t mg) = dst_maps mg" "src_maps (end_tx t mg) = src_maps mg"
  "prot_net_maps (end_tx t mg) = prot_net_maps mg" "hz (end_tx t mg) = hz mg"
  "mgr_window (end_tx t mg) = mgr_window mg" "rl_max_rate (end_tx t mg) = rl_max_rate mg"
  "active_icmp (end_tx t mg) = active_icmp mg" "active_dst (end_tx t mg) = active_dst mg"
  "place_bucket (end_tx t mg) = place_bucket mg"
proof -
  show "active_icmp (end_tx t mg) = active_icmp mg" "active_dst (end_tx t mg) = active_dst mg"
    by (simp_all add: end_tx_def active_icmp_def active_dst_def)
  then show "place_bucket (end_tx t mg) = place_bucket mg"
    by (intro place_bucket_cong) (simp_all add: end_tx_def)
qed (simp_all add: end_tx_def)

lemma abort_bucket_inv:
  assumes "bucket_inv mg" "tx_alloc_inv N (ran (place_bucket mg)) t" "place_bucket mg' = place_bucket mg"
  shows "bucket_inv (end_tx t mg')"
proof -
  have "pool_inv N (ran (place_bucket mg)) (tx_destroy reset_rlimit_bucket t)"
    by (rule tx_abort_keeps[OF assms(2)])
  then show ?thesis using assms(1,3) by (simp add: bucket_inv_def) (simp add: end_tx_def)
qed

lemma commit_bucket_inv:
  assumes "ledger N owned (place_bucket mg) t"
  shows "bucket_inv (end_tx (tx_commit reset_rlimit_bucket t) mg)"
proof -
  have "pool_inv N (ran (place_bucket mg)) (tx_destroy reset_rlimit_bucket (tx_commit reset_rlimit_bucket t))"
    by (rule ledger_commit[OF assms])
  then show ?thesis using assms by (simp add: bucket_inv_def ledger_def) (simp add: end_tx_def)
qed

lemma begin_ledger: "bucket_inv mg \<Longrightarrow> ledger N (ran (place_bucket mg)) (place_bucket mg) (begin_tx mg)"
  unfolding bucket_inv_def begin_tx_def by (blast intro: ledger_new)

lemma upload_bucket_inv:
  assumes "bucket_inv mg" "tx_alloc_inv N (ran (place_bucket mg)) t"
    "place_bucket mg' = place_bucket mg"
    "ledger N (ran (place_bucket mg)) (place_bucket (mg'\<lparr>cfg_map := cf\<rparr>)) t"
  shows "bucket_inv (snd (upload_config_changes E cf (Some t) mg'))"
  using abort_bucket_inv[OF assms(1-3)] commit_bucket_inv[OF assms(4)]
  by (simp add: upload_config_changes_def)

lemma upload_none_bucket_inv:
  assumes "bucket_inv mg" "place_bucket mg' = place_bucket mg" "pool mg' = pool mg"
    "place_bucket (mg'\<lparr>cfg_map := cf\<rparr>) = place_bucket mg"
  shows "bucket_inv (snd (upload_config_changes E cf None mg'))"
  using assms by (simp add: upload_config_changes_def bucket_inv_def)

lemma select_put:
  assumes "i = MAP_PRIMARY_IDX \<or> i = MAP_SECONDARY_IDX" "j = MAP_PRIMARY_IDX \<or> j = MAP_SECONDARY_IDX"
  shows "SELECT_SHADOW_MAP (put_shadow_map m i v) j = (if i = j then v else SELECT_SHADOW_MAP m j)"
  using assms by (auto simp: SELECT_SHADOW_MAP_def put_shadow_map_def map_idx_defs)

lemma next_map_idx_valid [simp]:
  "next_map_idx i = MAP_PRIMARY_IDX \<or> next_map_idx i = MAP_SECONDARY_IDX"
  by (simp add: next_map_idx_def)

lemma next_map_idx_neq: "next_map_idx i \<noteq> i"
  by (simp add: next_map_idx_def map_idx_defs)

lemma get_maps_by_index_iff:
  "get_maps_by_index i = Inr j \<longleftrightarrow> j = i \<and> (i = MAP_PRIMARY_IDX \<or> i = MAP_SECONDARY_IDX)"
  by (auto simp: get_maps_by_index_def map_idx_defs)

lemma get_maps_by_index_next: "get_maps_by_index (next_map_idx i) = Inr (next_map_idx i)"
  by (simp add: get_maps_by_index_iff)

text \<open>The defaults are the last places to be reconciled.\<close>

lemma switch_bucket_inv:
  assumes inv: "bucket_inv mg" and l: "ledger N (ran (place_bucket mg)) cur t" and "distinct indices"
    and same: "place_bucket mg' = place_bucket mg" "defaults (rules cf) = defaults (rules (cfg_map mg))"
    and cur: "\<forall>p. p \<notin> range Default_rule \<longrightarrow> cur p = place_bucket (mg'\<lparr>cfg_map := cf\<rparr>) p"
      "\<forall>i. cur (Default_rule i) = place_bucket mg (Default_rule i)"
  shows "bucket_inv (snd (switch_rules E ds indices a cf t mg'))"
proof -
  let ?owned = "ran (place_bucket mg)"
  obtain res t' where ad: "apply_defaults ds indices a (defaults (rules cf)) t = (res, t')" by (metis surj_pair)
  have al: "tx_alloc_inv N ?owned t'"
    using apply_defaults_alloc_inv[OF ledger_alloc_inv[OF l], of ds indices a "defaults (rules cf)"] ad by simp
  show ?thesis
  proof (cases res)
    case (Inl e)
    then show ?thesis using abort_bucket_inv[OF inv al same(1)] by (simp add: switch_rules_def ad)
  next
    case (Inr to)
    have "\<forall>i. cur (Default_rule i) = rule_bucket (Some (defaults (rules cf) i))"
      using cur(2) same(2) by simp
    moreover have "b \<in> ?owned" if "cur (Default_rule i) = Some b" for i b
      using that cur(2) by (metis ranI)
    ultimately obtain cur' where c: "ledger N ?owned cur' t'"
        "\<forall>i. cur' (Default_rule i) = rule_bucket (Some (to i))" "\<forall>p. p \<notin> range Default_rule \<longrightarrow> cur' p = cur p"
      using apply_defaults_ledger[OF l assms(3)] ad Inr by metis
    have "place_bucket (mg'\<lparr>cfg_map := set_defaults cf to\<rparr>) p = cur' p" for p
    proof (cases p)
      case (Icmp_rule k)
      then show ?thesis using c(3)[rule_format, of p] cur(1)[rule_format, of p] by (auto simp: active_icmp_def set_defaults_def image_iff)
    next
      case (Dst_rule k)
      then show ?thesis using c(3)[rule_format, of p] cur(1)[rule_format, of p] by (auto simp: active_dst_def set_defaults_def image_iff)
    next
      case (Default_rule i)
      then show ?thesis using c(2) by (simp add: set_defaults_def)
    next
      case (Flag_rule f)
      then show ?thesis using c(3)[rule_format, of p] cur(1)[rule_format, of p] by (auto simp: set_defaults_def image_iff)
    qed
    then have "place_bucket (mg'\<lparr>cfg_map := set_defaults cf to\<rparr>) = cur'" by blast
    then show ?thesis
      using upload_bucket_inv[OF inv al same(1)] c(1) by (simp add: switch_rules_def ad Inr)
  qed
qed

text \<open>The keys of one map, from the first rule that is added to the last that is released.\<close>

lemma collect_ledger:
  assumes inv: "bucket_inv mg" and emb: "inj emb" "\<And>k. place_bucket mg (emb k) = rule_bucket (map_of active k)"
    and d: "distinct (map fst active)"
    and add: "add_all_bucketed active xs [] (begin_tx mg) = (Inr new, t)"
  shows "\<exists>cur. ledger N (ran (place_bucket mg)) cur (release_removed new active t)
    \<and> (\<forall>k. cur (emb k) = rule_bucket (map_of new k)) \<and> (\<forall>p. p \<notin> range emb \<longrightarrow> cur p = place_bucket mg p)"
proof -
  let ?owned = "ran (place_bucket mg)"
  have own: "\<forall>k b. rule_bucket (map_of active k) = Some b \<longrightarrow> b \<in> ?owned"
    using emb(2) by (metis ranI)
  have "places_of emb active [] (place_bucket mg)" using emb(2) by (simp add: places_of_def)
  from add_all_bucketed_ledger[OF begin_ledger[OF inv] this emb(1) own add]
  obtain cur1 where c1: "ledger N ?owned cur1 t" "places_of emb active new cur1"
      "\<forall>p. p \<notin> range emb \<longrightarrow> cur1 p = place_bucket mg p" by blast
  have act: "cur1 (emb k) = rule_bucket (Some r)" if "(k, r) \<in> set active" "map_of new k = None" for k r
    using c1(2) that d by (simp add: places_of_def)
  have own': "b \<in> ?owned" if "(k, r) \<in> set active" "rule_bucket (Some r) = Some b" for k r b
    using own that d by (metis map_of_is_SomeI)
  have "\<exists>cur'. ledger N ?owned cur' (release_removed new active t)
      \<and> (\<forall>k. cur' (emb k) = (if map_of new k = None \<and> k \<in> fst ` set active then None else cur1 (emb k)))
      \<and> (\<forall>p. p \<notin> range emb \<longrightarrow> cur' p = cur1 p)"
    by (rule release_removed_ledger[OF c1(1) emb(1) d]) (use act own' in blast)+
  then obtain cur2 where c2: "ledger N ?owned cur2 (release_removed new active t)"
      "\<forall>k. cur2 (emb k) = (if map_of new k = None \<and> k \<in> fst ` set active then None else cur1 (emb k))"
      "\<forall>p. p \<notin> range emb \<longrightarrow> cur2 p = cur1 p"
    by blast
  have "cur2 (emb k) = rule_bucket (map_of new k)" for k
    using c2(2) c1(2) by (auto simp: places_of_def map_of_eq_None_iff[symmetric] split: option.splits)
  with c2 c1(3) show ?thesis by (intro exI[of _ cur2]) simp
qed

end
