(* ===== verification/RuleSets.thy ===== *)
theory RuleSets
  imports MapsManager
begin

text \<open>
  What the loops of the maps manager make of a configuration: the rule of a key, as a
  function of the configuration alone, without snapshots, duplicates checks or buckets.
\<close>


section \<open>Insertion loops\<close>

abbreviation keys_with :: "'k list \<Rightarrow> 'v \<Rightarrow> ('k \<times> 'v) list" where
  "keys_with ks v \<equiv> map (\<lambda>k. (k, v)) ks"

lemma emplace_all_spec:
  assumes "emplace_all ks v m = Inr m'" "distinct (map fst m)"
  shows "m' = m @ keys_with ks v \<and> distinct (map fst m')"
  using assms
proof (induction ks arbitrary: m)
  case (Cons k ks)
  have k: "map_of m k = None" "emplace_all ks v (m @ [(k, v)]) = Inr m'"
    using Cons.prems(1) by (auto simp: try_emplace_def split: if_splits)
  then have "distinct (map fst (m @ [(k, v)]))" using Cons.prems(2) by (simp add: map_of_eq_None_iff)
  from Cons.IH[OF k(2) this] show ?case
    by (elim conjE, intro conjI) (simp_all only: append.assoc append_Cons append_Nil list.map)
qed simp

text \<open>Any duplicate, among the keys or with what is there, is refused.\<close>

lemma emplace_all_fails:
  "emplace_all ks v m = Inl e \<longleftrightarrow> e = Already_exists \<and> \<not> (distinct ks \<and> set ks \<inter> fst ` set m = {})"
proof (induction ks arbitrary: m)
  case (Cons k ks)
  show ?case
  proof (cases "map_of m k")
    case None
    then have "k \<notin> fst ` set m" by (simp add: map_of_eq_None_iff)
    then show ?thesis using Cons.IH[of "m @ [(k, v)]"] None by (auto simp: try_emplace_def)
  next
    case (Some r)
    then have "k \<in> fst ` set m" by (metis map_of_eq_None_iff option.distinct(1))
    then show ?thesis using Some by (auto simp: try_emplace_def)
  qed
qed simp

lemma emplace_new_spec:
  assumes "distinct (map fst m)"
  shows "map_of (emplace_new ks v m) k = (case map_of m k of Some x \<Rightarrow> Some x | None \<Rightarrow> map_of (keys_with ks v) k)"
    and "distinct (map fst (emplace_new ks v m))"
    and "fst ` set (emplace_new ks v m) = fst ` set m \<union> set ks"
proof -
  have "map_of (emplace_new ks v m) k = (case map_of m k of Some x \<Rightarrow> Some x | None \<Rightarrow> map_of (keys_with ks v) k)
      \<and> distinct (map fst (emplace_new ks v m)) \<and> fst ` set (emplace_new ks v m) = fst ` set m \<union> set ks"
    using assms
  proof (induction ks arbitrary: m)
    case (Cons x ks)
    show ?case
    proof (cases "map_of m x")
      case None
      then have "distinct (map fst (m @ [(x, v)]))" using Cons.prems by (simp add: map_of_eq_None_iff)
      from Cons.IH[OF this] None show ?thesis
        by (auto simp: try_emplace_def map_add_def split: option.splits)
    next
      case (Some r)
      then have "x \<in> fst ` set m" by (metis map_of_eq_None_iff option.distinct(1))
      then show ?thesis using Cons.IH[OF Cons.prems] Some by (auto simp: try_emplace_def split: option.splits)
    qed
  qed (simp split: option.splits)
  then show "map_of (emplace_new ks v m) k = (case map_of m k of Some x \<Rightarrow> Some x | None \<Rightarrow> map_of (keys_with ks v) k)"
    "distinct (map fst (emplace_new ks v m))" "fst ` set (emplace_new ks v m) = fst ` set m \<union> set ks"
    by blast+
qed


section \<open>Source rules\<close>

text \<open>The entries of the user and of the countries, in the order of the configuration.\<close>

definition entries :: "(NetIp \<Rightarrow> 'k list) \<Rightarrow> bool \<Rightarrow> NetIps \<Rightarrow> ('k \<times> XfwSrcRule) list" where
  "entries f tcp rs = concat (map (\<lambda>(a, n). if isTcp (ni_flags n) = tcp then keys_with (f n) (src_rule_of n) else []) rs)"

definition user4 :: "NetIp \<Rightarrow> XfwIpv4LpmKey list" where
  "user4 n = map lpm4_key (ni_net4s n)"

definition user6 :: "NetIp \<Rightarrow> XfwIpv6LpmKey list" where
  "user6 n = map lpm6_key (ni_net6s n)"

definition geo4 :: "NetIp \<Rightarrow> XfwIpv4LpmKey list" where
  "geo4 n = map lpm4_key (concat (map geo_net4s (ni_nets n)))"

definition geo6 :: "NetIp \<Rightarrow> XfwIpv6LpmKey list" where
  "geo6 n = map lpm6_key (concat (map geo_net6s (ni_nets n)))"

lemma entries_simps [simp]:
  "entries f tcp [] = []"
  "entries f tcp ((a, n) # rs) = (if isTcp (ni_flags n) = tcp then keys_with (f n) (src_rule_of n) else []) @ entries f tcp rs"
  by (simp_all add: entries_def)

definition src_distinct :: "src_snapshots \<Rightarrow> bool" where
  "src_distinct S \<longleftrightarrow> distinct (map fst (s4_udp S)) \<and> distinct (map fst (s4_tcp S))
     \<and> distinct (map fst (s6_udp S)) \<and> distinct (map fst (s6_tcp S))
     \<and> distinct (map fst (sp_udp S)) \<and> distinct (map fst (sp_tcp S))"

lemma add_user_rules_spec:
  assumes "add_user_rules rs S = Inr S'" "src_distinct S"
  shows "src_distinct S' \<and> s4_udp S' = s4_udp S @ entries user4 False rs \<and> s4_tcp S' = s4_tcp S @ entries user4 True rs
    \<and> s6_udp S' = s6_udp S @ entries user6 False rs \<and> s6_tcp S' = s6_tcp S @ entries user6 True rs
    \<and> sp_udp S' = sp_udp S @ entries ni_ports False rs \<and> sp_tcp S' = sp_tcp S @ entries ni_ports True rs"
  using assms
proof (induction rs arbitrary: S)
  case (Cons x rs)
  obtain a n where x: "x = (a, n)" by (cases x)
  let ?r = "src_rule_of n" and ?tcp = "isTcp (ni_flags n)"
  obtain m4 m6 mp where e: "emplace_all (map lpm4_key (ni_net4s n)) ?r (if ?tcp then s4_tcp S else s4_udp S) = Inr m4"
      "emplace_all (map lpm6_key (ni_net6s n)) ?r (if ?tcp then s6_tcp S else s6_udp S) = Inr m6"
      "emplace_all (ni_ports n) ?r (if ?tcp then sp_tcp S else sp_udp S) = Inr mp"
      "add_user_rules rs (if ?tcp then S\<lparr>s4_tcp := m4, s6_tcp := m6, sp_tcp := mp\<rparr>
          else S\<lparr>s4_udp := m4, s6_udp := m6, sp_udp := mp\<rparr>) = Inr S'"
    using Cons.prems(1) by (auto simp: x Let_def split: sum.splits)
  have d: "distinct (map fst (if ?tcp then s4_tcp S else s4_udp S))" "distinct (map fst (if ?tcp then s6_tcp S else s6_udp S))"
    "distinct (map fst (if ?tcp then sp_tcp S else sp_udp S))"
    using Cons.prems(2) by (simp_all add: src_distinct_def)
  have m: "m4 = (if ?tcp then s4_tcp S else s4_udp S) @ keys_with (map lpm4_key (ni_net4s n)) ?r" "distinct (map fst m4)"
    "m6 = (if ?tcp then s6_tcp S else s6_udp S) @ keys_with (map lpm6_key (ni_net6s n)) ?r" "distinct (map fst m6)"
    "mp = (if ?tcp then sp_tcp S else sp_udp S) @ keys_with (ni_ports n) ?r" "distinct (map fst mp)"
    using emplace_all_spec[OF e(1) d(1)] emplace_all_spec[OF e(2) d(2)] emplace_all_spec[OF e(3) d(3)] by blast+
  have "src_distinct (if ?tcp then S\<lparr>s4_tcp := m4, s6_tcp := m6, sp_tcp := mp\<rparr>
      else S\<lparr>s4_udp := m4, s6_udp := m6, sp_udp := mp\<rparr>)"
    using m(2,4,6) Cons.prems(2) by (simp add: src_distinct_def)
  from Cons.IH[OF e(4) this] show ?case
    using m(1,3,5) by (cases ?tcp) (simp_all add: x user4_def[of n] user6_def[of n])
qed simp

lemma add_geo_rules_spec:
  assumes "src_distinct S" "S' = add_geo_rules rs S"
  shows "src_distinct S'" "sp_udp S' = sp_udp S" "sp_tcp S' = sp_tcp S"
    "map_of (s4_udp S') k4 = (case map_of (s4_udp S) k4 of Some r \<Rightarrow> Some r | None \<Rightarrow> map_of (entries geo4 False rs) k4)"
    "map_of (s4_tcp S') k4 = (case map_of (s4_tcp S) k4 of Some r \<Rightarrow> Some r | None \<Rightarrow> map_of (entries geo4 True rs) k4)"
    "map_of (s6_udp S') k6 = (case map_of (s6_udp S) k6 of Some r \<Rightarrow> Some r | None \<Rightarrow> map_of (entries geo6 False rs) k6)"
    "map_of (s6_tcp S') k6 = (case map_of (s6_tcp S) k6 of Some r \<Rightarrow> Some r | None \<Rightarrow> map_of (entries geo6 True rs) k6)"
proof -
  have "src_distinct S' \<and> sp_udp S' = sp_udp S \<and> sp_tcp S' = sp_tcp S
    \<and> map_of (s4_udp S') k4 = (case map_of (s4_udp S) k4 of Some r \<Rightarrow> Some r | None \<Rightarrow> map_of (entries geo4 False rs) k4)
    \<and> map_of (s4_tcp S') k4 = (case map_of (s4_tcp S) k4 of Some r \<Rightarrow> Some r | None \<Rightarrow> map_of (entries geo4 True rs) k4)
    \<and> map_of (s6_udp S') k6 = (case map_of (s6_udp S) k6 of Some r \<Rightarrow> Some r | None \<Rightarrow> map_of (entries geo6 False rs) k6)
    \<and> map_of (s6_tcp S') k6 = (case map_of (s6_tcp S) k6 of Some r \<Rightarrow> Some r | None \<Rightarrow> map_of (entries geo6 True rs) k6)"
    using assms
  proof (induction rs arbitrary: S)
    case (Cons x rs)
    obtain a n where x: "x = (a, n)" by (cases x)
    let ?r = "src_rule_of n"
    let ?k4 = "map lpm4_key (concat (map geo_net4s (ni_nets n)))" and ?k6 = "map lpm6_key (concat (map geo_net6s (ni_nets n)))"
    define S1 where "S1 = (if isTcp (ni_flags n)
        then S\<lparr>s4_tcp := emplace_new ?k4 ?r (s4_tcp S), s6_tcp := emplace_new ?k6 ?r (s6_tcp S)\<rparr>
        else S\<lparr>s4_udp := emplace_new ?k4 ?r (s4_udp S), s6_udp := emplace_new ?k6 ?r (s6_udp S)\<rparr>)"
    have d: "src_distinct S1"
      using Cons.prems(1) by (simp add: S1_def src_distinct_def emplace_new_spec(2))
    have "S' = add_geo_rules rs S1" using Cons.prems(2) by (simp add: x Let_def S1_def)
    note IH = Cons.IH[OF d this]
    have "distinct (map fst (s4_tcp S))" "distinct (map fst (s4_udp S))" "distinct (map fst (s6_tcp S))" "distinct (map fst (s6_udp S))"
      using Cons.prems(1) by (simp_all add: src_distinct_def)
    note en = this[THEN emplace_new_spec(1)]
    show ?case
      using IH by (cases "isTcp (ni_flags n)") (auto simp: S1_def x en geo4_def[of n] geo6_def[of n] map_add_def split: option.splits)
  qed (auto split: option.splits)
  then show "src_distinct S'" "sp_udp S' = sp_udp S" "sp_tcp S' = sp_tcp S"
    "map_of (s4_udp S') k4 = (case map_of (s4_udp S) k4 of Some r \<Rightarrow> Some r | None \<Rightarrow> map_of (entries geo4 False rs) k4)"
    "map_of (s4_tcp S') k4 = (case map_of (s4_tcp S) k4 of Some r \<Rightarrow> Some r | None \<Rightarrow> map_of (entries geo4 True rs) k4)"
    "map_of (s6_udp S') k6 = (case map_of (s6_udp S) k6 of Some r \<Rightarrow> Some r | None \<Rightarrow> map_of (entries geo6 False rs) k6)"
    "map_of (s6_tcp S') k6 = (case map_of (s6_tcp S) k6 of Some r \<Rightarrow> Some r | None \<Rightarrow> map_of (entries geo6 True rs) k6)"
    by blast+
qed

text \<open>The rule of a source prefix or port: what the user says, else what a country says.\<close>

definition src4_spec :: "NetIps \<Rightarrow> bool \<Rightarrow> XfwIpv4LpmKey \<rightharpoonup> XfwSrcRule" where
  "src4_spec rs tcp = map_of (entries geo4 tcp rs) ++ map_of (entries user4 tcp rs)"

definition src6_spec :: "NetIps \<Rightarrow> bool \<Rightarrow> XfwIpv6LpmKey \<rightharpoonup> XfwSrcRule" where
  "src6_spec rs tcp = map_of (entries geo6 tcp rs) ++ map_of (entries user6 tcp rs)"

definition src_port_spec :: "NetIps \<Rightarrow> bool \<Rightarrow> u16 \<rightharpoonup> XfwSrcRule" where
  "src_port_spec rs tcp = map_of (entries ni_ports tcp rs)"

lemma build_src_snapshots_spec:
  assumes "build_src_snapshots rs = Inr S"
  shows "src_distinct S" "map_of (s4_udp S) = src4_spec rs False" "map_of (s4_tcp S) = src4_spec rs True"
    "map_of (s6_udp S) = src6_spec rs False" "map_of (s6_tcp S) = src6_spec rs True"
    "map_of (sp_udp S) = src_port_spec rs False" "map_of (sp_tcp S) = src_port_spec rs True"
proof -
  obtain S0 where S0: "add_user_rules rs no_src_snapshots = Inr S0" "S = add_geo_rules rs S0"
    using assms by (auto simp: build_src_snapshots_def Let_def split: sum.splits if_splits)
  have "src_distinct no_src_snapshots" by (simp add: src_distinct_def no_src_snapshots_def)
  note u = add_user_rules_spec[OF S0(1) this, unfolded no_src_snapshots_def, simplified]
  have d: "src_distinct S0" using u by blast
  note g = add_geo_rules_spec[OF d S0(2)]
  show "src_distinct S" by (rule g(1))
  show "map_of (s4_udp S) = src4_spec rs False" "map_of (s4_tcp S) = src4_spec rs True"
    "map_of (s6_udp S) = src6_spec rs False" "map_of (s6_tcp S) = src6_spec rs True"
    "map_of (sp_udp S) = src_port_spec rs False" "map_of (sp_tcp S) = src_port_spec rs True"
    using u g(2-7) by (auto simp: src4_spec_def src6_spec_def src_port_spec_def map_add_def fun_eq_iff split: option.splits)
qed


section \<open>Rules with buckets\<close>

text \<open>A rule without its bucket: what the configuration says of it.\<close>

definition forget_bucket :: "XfwActionRule \<Rightarrow> XfwActionRule" where
  "forget_bucket r = set_bucket r (bucket_idx invalid_rlimit)"

lemma forget_set_bucket [simp]: "forget_bucket (set_bucket r i) = forget_bucket r"
  by (simp add: forget_bucket_def set_bucket_def)

lemma forget_mk_rule [simp]: "forget_bucket (mk_XfwActionRule a i) = mk_XfwActionRule a i"
  by (simp add: forget_bucket_def set_bucket_def mk_XfwActionRule_def invalid_rlimit_def split: option.split)

lemma forget_action [simp]: "action (forget_bucket r) = action r"
  by (simp add: forget_bucket_def)

definition key_entries :: "('k list \<times> XfwActionRule) list \<Rightarrow> ('k \<times> XfwActionRule) list" where
  "key_entries xs = concat (map (\<lambda>(ks, r). keys_with ks (forget_bucket r)) xs)"

abbreviation forget_all :: "('k \<times> XfwActionRule) list \<Rightarrow> ('k \<times> XfwActionRule) list" where
  "forget_all \<equiv> map (\<lambda>(k, r). (k, forget_bucket r))"

lemma reconcile_forget:
  assumes "reconcile_ratelimit_bucket (Some r) old t = (Inr x, t')"
  shows "\<exists>r'. x = Some r' \<and> forget_bucket r' = forget_bucket r"
  using assms by (elim reconcile_rule) auto

lemma add_bucketed_spec:
  assumes "add_bucketed active ks r new t = (Inr new', t')" "distinct (map fst new)"
  shows "forget_all new' = forget_all new @ keys_with ks (forget_bucket r) \<and> distinct (map fst new')"
  using assms
proof (induction ks arbitrary: r new t)
  case (Cons k ks)
  obtain x t1 where rc: "reconcile_ratelimit_bucket (Some r) (map_of active k) t = (x, t1)" by (metis surj_pair)
  obtain r1 where r1: "x = Inr (Some r1)" "forget_bucket r1 = forget_bucket r" "map_of new k = None"
      "add_bucketed active ks r1 (new @ [(k, r1)]) t1 = (Inr new', t')"
    using Cons.prems(1) rc reconcile_forget[of r "map_of active k" t _ t1]
    by (auto simp: try_emplace_def split: sum.splits if_splits)
  have "distinct (map fst (new @ [(k, r1)]))" using Cons.prems(2) r1(3) by (simp add: map_of_eq_None_iff)
  from Cons.IH[OF r1(4) this] r1(2) show ?case by (elim conjE, intro conjI) simp_all
qed simp

lemma add_all_bucketed_spec:
  assumes "add_all_bucketed active xs new t = (Inr new', t')" "distinct (map fst new)"
  shows "forget_all new' = forget_all new @ key_entries xs \<and> distinct (map fst new')"
  using assms
proof (induction xs arbitrary: new t)
  case (Cons x xs)
  obtain ks r where x: "x = (ks, r)" by (cases x)
  obtain new1 t1 where a: "add_bucketed active ks r new t = (Inr new1, t1)"
      "add_all_bucketed active xs new1 t1 = (Inr new', t')"
    using Cons.prems(1) by (auto simp: x split: prod.splits sum.splits)
  have b: "forget_all new1 = forget_all new @ keys_with ks (forget_bucket r)" "distinct (map fst new1)"
    using add_bucketed_spec[OF a(1) Cons.prems(2)] by blast+
  from Cons.IH[OF a(2) b(2)] b(1) show ?case
    by (elim conjE, intro conjI) (simp_all add: x key_entries_def)
qed (simp add: key_entries_def)

text \<open>The rule of an ICMP type and of a destination, without the bucket.\<close>

definition icmp_spec :: "IcmpRules \<Rightarrow> XfwIcmpKey \<rightharpoonup> XfwActionRule" where
  "icmp_spec rs = map_of (key_entries (icmp_keys rs))"

definition dst_spec :: "NetIps \<Rightarrow> XfwDstKey \<rightharpoonup> XfwActionRule" where
  "dst_spec rs = map_of (key_entries (dst_keys rs))"

lemma map_of_forget_all: "map_of (forget_all m) k = map_option forget_bucket (map_of m k)"
  by (induction m) auto


section \<open>Protected networks\<close>

definition prot4_spec :: "NetIps \<Rightarrow> XfwIpv4LpmKey set" where
  "prot4_spec rs = (\<Union>(a, n) \<in> set rs. set (user4 n))"

definition prot6_spec :: "NetIps \<Rightarrow> XfwIpv6LpmKey set" where
  "prot6_spec rs = (\<Union>(a, n) \<in> set rs. set (user6 n))"

lemma add_prot_nets_spec:
  assumes "add_prot_nets rs m4 m6 = Inr (m4', m6')" "distinct (map fst m4)" "distinct (map fst m6)"
  shows "distinct (map fst m4') \<and> distinct (map fst m6')
    \<and> fst ` set m4' = fst ` set m4 \<union> prot4_spec rs \<and> fst ` set m6' = fst ` set m6 \<union> prot6_spec rs"
  using assms
proof (induction rs arbitrary: m4 m6)
  case (Cons x rs)
  obtain a n where x: "x = (a, n)" by (cases x)
  obtain n4 n6 where e: "emplace_all (map lpm4_key (ni_net4s n)) 1 m4 = Inr n4"
      "emplace_all (map lpm6_key (ni_net6s n)) 1 m6 = Inr n6" "add_prot_nets rs n4 n6 = Inr (m4', m6')"
    using Cons.prems(1) by (auto simp: x split: sum.splits)
  have m: "n4 = m4 @ keys_with (user4 n) 1" "distinct (map fst n4)" "n6 = m6 @ keys_with (user6 n) 1" "distinct (map fst n6)"
    using emplace_all_spec[OF e(1) Cons.prems(2)] emplace_all_spec[OF e(2) Cons.prems(3)]
    unfolding user4_def user6_def by blast+
  show ?case
    using Cons.IH[OF e(3) m(2,4)] by (auto simp: x m(1,3) prot4_spec_def prot6_spec_def image_Un image_image)
qed (simp add: prot4_spec_def prot6_spec_def)

end
