(* ===== verification/Manager.thy ===== *)
theory Manager
  imports BucketLedger RuleSets
begin

text \<open>
  Applying configurations: the calls of the maps manager as one step function,
  \<open>Xfw::set_config\<close> as a sequence of calls, the invariant of the manager with the kernel
  maps it owns, and what the datapath sees before and after a call.
\<close>


section \<open>Calls\<close>

datatype mgr_call =
    Set_ratelimits Ratelimits
  | Set_simple_rules XfwConfig
  | Set_src_rules NetIps Defaults
  | Set_icmp_rules IcmpRules Defaults
  | Set_dst_rules NetIps Defaults
  | Set_prot_net_settings NetIps
  | Set_tcp_flag_rule "u8 option" XfwFlagsFilter
  | Set_tcp_anomaly_rule TcpAnomalyFilter
  | Turn_filtration_on

fun mgr_step :: "mgr_env \<Rightarrow> mgr_call \<Rightarrow> BpfMapsManager \<Rightarrow> mgr_result option" where
  "mgr_step E (Set_ratelimits rls) mg = Some (set_ratelimits E rls mg)"
| "mgr_step E (Set_simple_rules c) mg = Some (set_simple_rules E c mg)"
| "mgr_step E (Set_src_rules rs ds) mg = set_src_rules E rs ds mg"
| "mgr_step E (Set_icmp_rules rs ds) mg = set_icmp_rules E rs ds mg"
| "mgr_step E (Set_dst_rules rs ds) mg = set_dst_rules E rs ds mg"
| "mgr_step E (Set_prot_net_settings rs) mg = set_prot_net_settings E rs mg"
| "mgr_step E (Set_tcp_flag_rule f flag) mg = Some (set_tcp_flag_rule E f flag mg)"
| "mgr_step E (Set_tcp_anomaly_rule f) mg = Some (set_tcp_anomaly_rule E f mg)"
| "mgr_step E Turn_filtration_on mg = Some (turn_filtration_on E mg)"

text \<open>A sequence of calls, each with the kernel it meets; an exception ends it.\<close>

fun mgr_run :: "(mgr_env \<times> mgr_call) list \<Rightarrow> BpfMapsManager \<Rightarrow> mgr_result option" where
  "mgr_run [] mg = Some (Inr (), mg)"
| "mgr_run ((E, c) # cs) mg =
     (case mgr_step E c mg of
        None \<Rightarrow> None
      | Some (Inl e, mg') \<Rightarrow> Some (Inl e, mg')
      | Some (Inr _, mg') \<Rightarrow> mgr_run cs mg')"

record Xfw =
  maps_manager :: BpfMapsManager
  xfw_config :: "XfwConfig option"

text \<open>
  What \<open>set_config\<close> asks the host: whether the maps of a load-time mode are pinned, and the
  sysctl value for SYN cookies; either may fail. \<open>host_env i\<close> is the kernel during the
  i-th call of the maps manager.
\<close>

record host =
  pinned_dns_egr :: "mgr_error + bool"
  pinned_syncookies :: "mgr_error + bool"
  sysctl_tcp_syncookies :: "mgr_error + int"
  host_env :: "nat \<Rightarrow> mgr_env"

definition check_modes :: "host \<Rightarrow> XfwConfig \<Rightarrow> mgr_error + unit" where
  "check_modes h config =
     (let dns = (if c_dns_filter config then
             (case pinned_dns_egr h of Inl e \<Rightarrow> Inl e | Inr b \<Rightarrow> if b then Inr () else Inl Mode_not_loaded)
           else Inr ())
      in case dns of
           Inl e \<Rightarrow> Inl e
         | Inr _ \<Rightarrow>
             if c_syncookie_filter config = None then Inr ()
             else
               (case pinned_syncookies h of
                  Inl e \<Rightarrow> Inl e
                | Inr False \<Rightarrow> Inl Mode_not_loaded
                | Inr True \<Rightarrow>
                    (case sysctl_tcp_syncookies h of
                       Inl e \<Rightarrow> Inl e
                     | Inr v \<Rightarrow> if v = 0 then Inl Sysctl_unavailable else Inr ())))"

definition config_calls :: "Xfw \<Rightarrow> XfwConfig \<Rightarrow> mgr_call list" where
  "config_calls x config =
     [Set_ratelimits (c_ratelimits config), Set_simple_rules config,
      Set_src_rules (c_src_rules config) (c_defaults config),
      Set_icmp_rules (c_icmp_rules config) (c_defaults config),
      Set_dst_rules (c_dst_rules config) (c_defaults config),
      Set_prot_net_settings (c_prot_net config),
      Set_tcp_flag_rule (c_tcp_rst_flag_filter config) XFW_FLAGS_FILTER_RST,
      Set_tcp_flag_rule (c_tcp_syn_flag_filter config) XFW_FLAGS_FILTER_SYN,
      Set_tcp_anomaly_rule (c_anomaly_filter config)]
     @ (if xfw_config x = None then [Turn_filtration_on] else [])"

definition set_config :: "host \<Rightarrow> XfwConfig \<Rightarrow> Xfw \<Rightarrow> ((mgr_error + unit) \<times> Xfw) option" where
  "set_config h config x =
     (case check_modes h config of
        Inl e \<Rightarrow> Some (Inl e, x)
      | Inr _ \<Rightarrow>
          (case mgr_run (map (\<lambda>(i, c). (host_env h i, c)) (enumerate 0 (config_calls x config))) (maps_manager x) of
             None \<Rightarrow> None
           | Some (Inl e, mg) \<Rightarrow> Some (Inl e, x\<lparr>maps_manager := mg\<rparr>)
           | Some (Inr _, mg) \<Rightarrow>
               Some (Inr (), \<lparr>maps_manager = mg,
                 xfw_config = Some (config\<lparr>c_ratelimits := free_inactive (Ratelimits_move (c_ratelimits config))\<rparr>)\<rparr>)))"


section \<open>The invariant\<close>

text \<open>
  The kernel identifies trie keys up to \<open>canon4\<close> and \<open>canon6\<close>; the prefixes in use are
  canonical, that is, their host bits are zero.
\<close>

definition kernel_ok ::
  "(XfwIpv4LpmKey \<Rightarrow> XfwIpv4LpmKey) \<Rightarrow> (XfwIpv6LpmKey \<Rightarrow> XfwIpv6LpmKey) \<Rightarrow> mgr_env \<Rightarrow> bool" where
  "kernel_ok canon4 canon6 E \<longleftrightarrow>
     (\<forall>b. \<exists>pl n. batch_laws canon4 pl n (ops_v4 E b)) \<and> (\<forall>b. \<exists>pl n. batch_laws canon6 pl n (ops_v6 E b))
     \<and> (\<forall>b. \<exists>pl n. batch_laws id pl n (ops_port E b)) \<and> (\<exists>pl n. batch_laws id pl n (ops_icmp E))
     \<and> (\<exists>pl n. batch_laws id pl n (ops_dst E)) \<and> (\<exists>pl n. batch_laws canon4 pl n (ops_net4 E))
     \<and> (\<exists>pl n. batch_laws canon6 pl n (ops_net6 E))"

definition canonical :: "('k \<Rightarrow> 'k) \<Rightarrow> 'k set \<Rightarrow> bool" where
  "canonical canon A \<longleftrightarrow> (\<forall>k \<in> A. canon k = k)"

definition synced :: "('k \<Rightarrow> 'k) \<Rightarrow> ('k, 'v) BpfShadowHashMap \<Rightarrow> bool" where
  "synced canon sm \<longleftrightarrow> shadow_inv canon sm \<and> canonical canon (keys_of (snapshot sm))"

definition src_synced where
  "src_synced canon4 canon6 r \<longleftrightarrow> synced canon4 (v4_udp r) \<and> synced canon4 (v4_tcp r)
     \<and> synced canon6 (v6_udp r) \<and> synced canon6 (v6_tcp r)
     \<and> synced id (port_udp r) \<and> synced id (port_tcp r)"

definition prot_synced where
  "prot_synced canon4 canon6 r \<longleftrightarrow> synced canon4 (pn_v4 r) \<and> synced canon6 (pn_v6 r)"

definition valid_idx :: "u8 \<Rightarrow> bool" where
  "valid_idx i \<longleftrightarrow> i = MAP_PRIMARY_IDX \<or> i = MAP_SECONDARY_IDX"

definition both_copies :: "('a \<Rightarrow> bool) \<Rightarrow> 'a shadow \<Rightarrow> bool" where
  "both_copies P m \<longleftrightarrow> P (fst m) \<and> P (snd m)"

definition mgr_inv where
  "mgr_inv canon4 canon6 mg \<longleftrightarrow>
     valid_idx (amap_src (cfg_map mg)) \<and> valid_idx (amap_icmp (cfg_map mg))
     \<and> valid_idx (amap_dst (cfg_map mg)) \<and> valid_idx (amap_prot_net (cfg_map mg))
     \<and> both_copies (src_synced canon4 canon6) (src_maps mg)
     \<and> both_copies (synced id) (icmp_maps mg) \<and> both_copies (synced id) (dst_maps mg)
     \<and> both_copies (prot_synced canon4 canon6) (prot_net_maps mg) \<and> bucket_inv mg"

text \<open>The prefixes of the rules a call brings are canonical.\<close>

definition canonical_nets where
  "canonical_nets canon4 canon6 rs \<longleftrightarrow> (\<forall>(a, n) \<in> set rs.
     canonical canon4 (lpm4_key ` set (ni_net4s n)) \<and> canonical canon6 (lpm6_key ` set (ni_net6s n))
     \<and> (\<forall>g \<in> set (ni_nets n). canonical canon4 (lpm4_key ` set (geo_net4s g))
          \<and> canonical canon6 (lpm6_key ` set (geo_net6s g))))"

fun canonical_call where
  "canonical_call canon4 canon6 (Set_src_rules rs ds) \<longleftrightarrow> canonical_nets canon4 canon6 rs"
| "canonical_call canon4 canon6 (Set_prot_net_settings rs) \<longleftrightarrow> canonical_nets canon4 canon6 rs"
| "canonical_call canon4 canon6 _ \<longleftrightarrow> True"

lemma both_copies_iff: "both_copies P m \<longleftrightarrow> (\<forall>i. P (SELECT_SHADOW_MAP m i))"
proof
  assume r: "\<forall>i. P (SELECT_SHADOW_MAP m i)"
  show "both_copies P m"
    using r[rule_format, of 0] r[rule_format, of 1] by (simp add: both_copies_def SELECT_SHADOW_MAP_def map_idx_defs)
qed (auto simp: both_copies_def SELECT_SHADOW_MAP_def)

lemma both_copies_select: "both_copies P m \<Longrightarrow> P (SELECT_SHADOW_MAP m i)"
  by (simp add: both_copies_iff)

lemma both_copies_put: "both_copies P m \<Longrightarrow> P v \<Longrightarrow> both_copies P (put_shadow_map m i v)"
  by (auto simp: both_copies_def put_shadow_map_def)

lemma synced_distinct: "synced canon sm \<Longrightarrow> distinct (map fst (snapshot sm))"
  by (simp add: synced_def shadow_inv_def)

lemma canonical_inj: "canonical canon A \<Longrightarrow> inj_on canon A"
  by (auto simp: canonical_def inj_on_def)

lemma canonical_id [simp]: "canonical id A"
  by (simp add: canonical_def)

lemma kernel_of_canonical: "canonical canon (keys_of st) \<Longrightarrow> kernel_of canon st = map_of st"
  unfolding kernel_of_def canonical_def keys_of_def by (induction st) auto

text \<open>\<open>replace\<close> on a synchronised map, with canonical keys.\<close>

lemma replace_synced:
  assumes "\<exists>pl n. batch_laws canon pl n K" "synced canon sm" "distinct (map fst new)" "canonical canon (keys_of new)"
  shows "\<exists>ok sm'. replace K new sm = Some (ok, sm') \<and> synced canon sm'
    \<and> (ok \<longrightarrow> snapshot sm' = new \<and> bpf_map sm' = map_of new)"
proof -
  obtain pl n where laws: "batch_laws canon pl n K" using assms(1) by blast
  have "canonical canon (keys_of (snapshot sm) \<union> keys_of new)"
    using assms(2,4) by (auto simp: synced_def canonical_def)
  from replace_spec[OF laws _ assms(3) canonical_inj[OF this]] assms(2,4) show ?thesis
    by (fastforce simp: synced_def kernel_of_canonical)
qed


section \<open>What the datapath sees\<close>

definition active_src :: "BpfMapsManager \<Rightarrow> SrcRules" where
  "active_src mg = SELECT_SHADOW_MAP (src_maps mg) (amap_src (cfg_map mg))"

definition active_prot :: "BpfMapsManager \<Rightarrow> ProtectedNetRules" where
  "active_prot mg = SELECT_SHADOW_MAP (prot_net_maps mg) (amap_prot_net (cfg_map mg))"

type_synonym src_maps_view = "(XfwIpv4LpmKey \<rightharpoonup> XfwSrcRule) \<times> (XfwIpv4LpmKey \<rightharpoonup> XfwSrcRule) \<times> (XfwIpv6LpmKey \<rightharpoonup> XfwSrcRule)
  \<times> (XfwIpv6LpmKey \<rightharpoonup> XfwSrcRule) \<times> (u16 \<rightharpoonup> XfwSrcRule) \<times> (u16 \<rightharpoonup> XfwSrcRule)"

definition src_view :: "SrcRules \<Rightarrow> src_maps_view" where
  "src_view r = (bpf_map (v4_udp r), bpf_map (v4_tcp r), bpf_map (v6_udp r), bpf_map (v6_tcp r),
     bpf_map (port_udp r), bpf_map (port_tcp r))"

definition prot_view where
  "prot_view r = (bpf_map (pn_v4 r), bpf_map (pn_v6 r))"

text \<open>The configuration and the copies of the rule maps it selects.\<close>

definition datapath_view where
  "datapath_view mg = (cfg_map mg, src_view (active_src mg), bpf_map (active_icmp mg), bpf_map (active_dst mg),
     prot_view (active_prot mg))"

definition src_spec :: "NetIps \<Rightarrow> src_maps_view" where
  "src_spec rs = (src4_spec rs False, src4_spec rs True, src6_spec rs False, src6_spec rs True,
     src_port_spec rs False, src_port_spec rs True)"

lemma keys_of_dom: "keys_of st = dom (map_of st)"
  by (simp add: keys_of_def dom_map_of_conv_image_fst)

lemma entries_keys: "k \<in> dom (map_of (entries f tcp rs)) \<Longrightarrow> \<exists>a n. (a, n) \<in> set rs \<and> k \<in> set (f n)"
  by (auto simp: dom_map_of_conv_image_fst entries_def split: if_splits) blast+

lemma canonical_nets_keys:
  assumes "canonical_nets canon4 canon6 rs" "(a, n) \<in> set rs"
  shows "k4 \<in> set (user4 n) \<Longrightarrow> canon4 k4 = k4" "k4 \<in> set (geo4 n) \<Longrightarrow> canon4 k4 = k4"
    "k6 \<in> set (user6 n) \<Longrightarrow> canon6 k6 = k6" "k6 \<in> set (geo6 n) \<Longrightarrow> canon6 k6 = k6"
  using bspec[OF assms(1)[unfolded canonical_nets_def] assms(2)]
  by (auto simp: canonical_def user4_def user6_def geo4_def geo6_def)

lemma src_snapshots_canonical:
  assumes "canonical_nets canon4 canon6 rs" "build_src_snapshots rs = Inr S"
  shows "canonical canon4 (keys_of (s4_udp S))" "canonical canon4 (keys_of (s4_tcp S))"
    "canonical canon6 (keys_of (s6_udp S))" "canonical canon6 (keys_of (s6_tcp S))"
proof -
  note keys = canonical_nets_keys[OF assms(1)]
  have c4: "canonical canon4 (dom (src4_spec rs tcp))" for tcp
    unfolding canonical_def src4_spec_def dom_map_add
    by (auto dest!: entries_keys intro: keys(1,2))
  have c6: "canonical canon6 (dom (src6_spec rs tcp))" for tcp
    unfolding canonical_def src6_spec_def dom_map_add
    by (auto dest!: entries_keys intro: keys(3,4))
  show "canonical canon4 (keys_of (s4_udp S))" "canonical canon4 (keys_of (s4_tcp S))"
    "canonical canon6 (keys_of (s6_udp S))" "canonical canon6 (keys_of (s6_tcp S))"
    unfolding keys_of_dom build_src_snapshots_spec[OF assms(2)] by (rule c4 c6)+
qed

lemma replace_src_maps_ok:
  assumes k: "kernel_ok canon4 canon6 E" and r: "src_synced canon4 canon6 r"
    and c: "canonical_nets canon4 canon6 rs" and S: "build_src_snapshots rs = Inr S"
  shows "\<exists>ok r'. verify_all (replace_src_maps E S) r = Some (ok, r') \<and> src_synced canon4 canon6 r'
    \<and> (ok \<longrightarrow> src_view r' = src_spec rs)"
proof -
  note sp = build_src_snapshots_spec[OF S] and cs = src_snapshots_canonical[OF c S]
  have laws: "\<exists>pl n. batch_laws canon4 pl n (ops_v4 E b)" "\<exists>pl n. batch_laws canon6 pl n (ops_v6 E b)"
    "\<exists>pl n. batch_laws id pl n (ops_port E b)" for b using k by (simp_all add: kernel_ok_def)
  have d: "distinct (map fst (s4_udp S))" "distinct (map fst (s4_tcp S))" "distinct (map fst (s6_udp S))"
    "distinct (map fst (s6_tcp S))" "distinct (map fst (sp_udp S))" "distinct (map fst (sp_tcp S))"
    using sp(1) by (simp_all add: src_distinct_def)
  have sy: "synced canon4 (v4_udp r)" "synced canon4 (v4_tcp r)" "synced canon6 (v6_udp r)"
    "synced canon6 (v6_tcp r)" "synced id (port_udp r)" "synced id (port_tcp r)"
    using r by (simp_all add: src_synced_def)
  obtain ok1 m1 where 1: "replace (ops_v4 E False) (s4_udp S) (v4_udp r) = Some (ok1, m1)" "synced canon4 m1"
      "ok1 \<longrightarrow> bpf_map m1 = map_of (s4_udp S)" using replace_synced[OF laws(1) sy(1) d(1) cs(1)] by blast
  obtain ok2 m2 where 2: "replace (ops_v4 E True) (s4_tcp S) (v4_tcp r) = Some (ok2, m2)" "synced canon4 m2"
      "ok2 \<longrightarrow> bpf_map m2 = map_of (s4_tcp S)" using replace_synced[OF laws(1) sy(2) d(2) cs(2)] by blast
  obtain ok3 m3 where 3: "replace (ops_v6 E False) (s6_udp S) (v6_udp r) = Some (ok3, m3)" "synced canon6 m3"
      "ok3 \<longrightarrow> bpf_map m3 = map_of (s6_udp S)" using replace_synced[OF laws(2) sy(3) d(3) cs(3)] by blast
  obtain ok4 m4 where 4: "replace (ops_v6 E True) (s6_tcp S) (v6_tcp r) = Some (ok4, m4)" "synced canon6 m4"
      "ok4 \<longrightarrow> bpf_map m4 = map_of (s6_tcp S)" using replace_synced[OF laws(2) sy(4) d(4) cs(4)] by blast
  obtain ok5 m5 where 5: "replace (ops_port E False) (sp_udp S) (port_udp r) = Some (ok5, m5)" "synced id m5"
      "ok5 \<longrightarrow> bpf_map m5 = map_of (sp_udp S)" using replace_synced[OF laws(3) sy(5) d(5) canonical_id] by blast
  obtain ok6 m6 where 6: "replace (ops_port E True) (sp_tcp S) (port_tcp r) = Some (ok6, m6)" "synced id m6"
      "ok6 \<longrightarrow> bpf_map m6 = map_of (sp_tcp S)" using replace_synced[OF laws(3) sy(6) d(6) canonical_id] by blast
  note rp = 1(1) 2(1) 3(1) 4(1) 5(1) 6(1) and sy' = 1(2) 2(2) 3(2) 4(2) 5(2) 6(2)
  have v: "src_view (r\<lparr>v4_udp := m1, v4_tcp := m2, v6_udp := m3, v6_tcp := m4, port_udp := m5, port_tcp := m6\<rparr>) = src_spec rs"
    if "ok1" "ok2" "ok3" "ok4" "ok5" "ok6"
    using 1(3) 2(3) 3(3) 4(3) 5(3) 6(3) that by (simp add: src_view_def src_spec_def sp(2-7))
  show ?thesis
    using v sy sy'
    by (cases ok1; cases ok2; cases ok3; cases ok4; cases ok5; cases ok6)
      (simp_all add: replace_src_maps_def rp src_synced_def, blast+)
qed


section \<open>Single calls\<close>

text \<open>
  A call returns, keeps the invariant, changes nothing the datapath sees if it fails, and
  meets its specification, a predicate on what the datapath sees, if it succeeds.
\<close>

definition call_ok where
  "call_ok canon4 canon6 mg spec x \<longleftrightarrow> (\<exists>res mg'. x = Some (res, mg') \<and> mgr_inv canon4 canon6 mg'
     \<and> (\<forall>e. res = Inl e \<longrightarrow> datapath_view mg' = datapath_view mg)
     \<and> (res = Inr () \<longrightarrow> spec (datapath_view mg')))"

definition idx_ok :: "XfwFilterCfg \<Rightarrow> bool" where
  "idx_ok cf \<longleftrightarrow> valid_idx (amap_src cf) \<and> valid_idx (amap_icmp cf) \<and> valid_idx (amap_dst cf) \<and> valid_idx (amap_prot_net cf)"

definition copies_ok where
  "copies_ok canon4 canon6 mg \<longleftrightarrow> both_copies (src_synced canon4 canon6) (src_maps mg)
     \<and> both_copies (synced id) (icmp_maps mg) \<and> both_copies (synced id) (dst_maps mg)
     \<and> both_copies (prot_synced canon4 canon6) (prot_net_maps mg)"

lemma mgr_inv_iff: "mgr_inv canon4 canon6 mg \<longleftrightarrow> idx_ok (cfg_map mg) \<and> copies_ok canon4 canon6 mg \<and> bucket_inv mg"
  by (auto simp: mgr_inv_def idx_ok_def copies_ok_def)

lemma view_end_tx [simp]: "datapath_view (end_tx t mg) = datapath_view mg"
  by (simp add: datapath_view_def active_src_def active_prot_def)

lemma copies_end_tx [simp]: "copies_ok canon4 canon6 (end_tx t mg) = copies_ok canon4 canon6 mg"
  by (simp add: copies_ok_def)

lemma call_fails: "mgr_inv canon4 canon6 mg \<Longrightarrow> call_ok canon4 canon6 mg spec (Some (Inl e, mg))"
  by (simp add: call_ok_def)

lemma call_aborts:
  assumes "copies_ok canon4 canon6 mg'" "idx_ok (cfg_map mg')" "datapath_view mg' = datapath_view mg" "bucket_inv (end_tx t mg')"
  shows "call_ok canon4 canon6 mg spec (Some (Inl e, end_tx t mg'))"
  using assms by (simp add: call_ok_def mgr_inv_iff)

lemma upload_ok:
  assumes "copies_ok canon4 canon6 mg'" "idx_ok (cfg_map mg')" "idx_ok cf" "datapath_view mg' = datapath_view mg"
    "bucket_inv (snd (upload_config_changes E cf tx mg'))" "spec (datapath_view (mg'\<lparr>cfg_map := cf\<rparr>))"
  shows "call_ok canon4 canon6 mg spec (Some (upload_config_changes E cf tx mg'))"
proof -
  have "copies_ok canon4 canon6 (mg'\<lparr>cfg_map := cf\<rparr>)" using assms(1) by (simp add: copies_ok_def)
  with assms show ?thesis
    by (cases tx; cases "cfg_set_err E = 0") (simp_all add: call_ok_def mgr_inv_iff upload_config_changes_def)
qed

text \<open>The calls that only rewrite the configuration.\<close>

lemma upload_cfg_only:
  assumes inv: "mgr_inv canon4 canon6 mg" and "idx_ok cf" and same: "amap_icmp cf = amap_icmp (cfg_map mg)"
    "amap_dst cf = amap_dst (cfg_map mg)" "defaults (rules cf) = defaults (rules (cfg_map mg))"
    "tcp_flags (rules cf) = tcp_flags (rules (cfg_map mg))" and spec: "spec (datapath_view (mg\<lparr>cfg_map := cf\<rparr>))"
  shows "call_ok canon4 canon6 mg spec (Some (upload_config_changes E cf None mg))"
proof (rule upload_ok)
  have "place_bucket (mg\<lparr>cfg_map := cf\<rparr>) = place_bucket mg"
    by (rule place_bucket_cong) (simp_all add: active_icmp_def active_dst_def same)
  then show "bucket_inv (snd (upload_config_changes E cf None mg))"
    using upload_none_bucket_inv[of mg mg cf E] inv by (simp add: mgr_inv_iff)
qed (use inv assms(2) spec in \<open>simp_all add: mgr_inv_iff\<close>)

definition default_rule_of :: "Defaults \<Rightarrow> u8 \<Rightarrow> DefaultIndex \<Rightarrow> XfwActionRule" where
  "default_rule_of ds a i = (case ds i of Some src \<Rightarrow> mk_XfwActionRule (act_allow src) (act_ratelimit_index src)
     | None \<Rightarrow> XfwActionRule_of a)"

lemma forget_XfwActionRule_of [simp]: "forget_bucket (XfwActionRule_of a) = XfwActionRule_of a"
  by (simp add: forget_bucket_def set_bucket_def XfwActionRule_of_def invalid_rlimit_def)

lemma apply_defaults_spec:
  assumes "apply_defaults ds indices a to t = (Inr to', t')"
  shows "forget_bucket (to' i) = (if i \<in> set indices then default_rule_of ds a i else forget_bucket (to i))"
  using assms
proof (induction indices arbitrary: to t)
  case (Cons j indices)
  let ?r = "default_rule_of ds a j"
  obtain x t1 where rc: "reconcile_ratelimit_bucket (Some ?r) (Some (to j)) t = (x, t1)" by (metis surj_pair)
  obtain r1 where r1: "x = Inr (Some r1)" "forget_bucket r1 = forget_bucket ?r"
      "apply_defaults ds indices a (to(j := r1)) t1 = (Inr to', t')"
    using Cons.prems rc reconcile_forget[of ?r "Some (to j)" t _ t1]
    by (auto simp: Let_def default_rule_of_def[symmetric] split: sum.splits)
  have "forget_bucket ?r = ?r" by (simp add: default_rule_of_def split: option.split)
  then show ?case using Cons.IH[OF r1(3)] r1(2) by auto
qed simp

text \<open>The calls that end in \<open>switch_rules\<close>.\<close>

definition defaults_set :: "Defaults \<Rightarrow> DefaultIndex list \<Rightarrow> u8 \<Rightarrow> XfwFilterCfg \<Rightarrow> XfwFilterCfg \<Rightarrow> bool" where
  "defaults_set ds indices a cf cf' \<longleftrightarrow> (\<forall>i. forget_bucket (defaults (rules cf') i) =
     (if i \<in> set indices then default_rule_of ds a i else forget_bucket (defaults (rules cf) i)))
     \<and> cf' = set_defaults cf (defaults (rules cf'))"

lemma defaults_set_keeps:
  assumes "defaults_set ds indices a cf cf'"
  shows "amap_src cf' = amap_src cf" "amap_icmp cf' = amap_icmp cf" "amap_dst cf' = amap_dst cf"
    "amap_prot_net cf' = amap_prot_net cf" "tcp_flags (rules cf') = tcp_flags (rules cf)"
    "tcp_anomaly (rules cf') = tcp_anomaly (rules cf)" "syncookie (rules cf') = syncookie (rules cf)"
    "ip_protocols (rules cf') = ip_protocols (rules cf)" "evaluation_mode (rules cf') = evaluation_mode (rules cf)"
    "tcp_auth_enabled (rules cf') = tcp_auth_enabled (rules cf)" "dns_enabled (rules cf') = dns_enabled (rules cf)"
    "rl_window cf' = rl_window cf" "named_rates cf' = named_rates cf" "rules_active cf' = rules_active cf"
proof -
  obtain to where "cf' = set_defaults cf to" using assms unfolding defaults_set_def by blast
  then show "amap_src cf' = amap_src cf" "amap_icmp cf' = amap_icmp cf" "amap_dst cf' = amap_dst cf"
    "amap_prot_net cf' = amap_prot_net cf" "tcp_flags (rules cf') = tcp_flags (rules cf)"
    "tcp_anomaly (rules cf') = tcp_anomaly (rules cf)" "syncookie (rules cf') = syncookie (rules cf)"
    "ip_protocols (rules cf') = ip_protocols (rules cf)" "evaluation_mode (rules cf') = evaluation_mode (rules cf)"
    "tcp_auth_enabled (rules cf') = tcp_auth_enabled (rules cf)" "dns_enabled (rules cf') = dns_enabled (rules cf)"
    "rl_window cf' = rl_window cf" "named_rates cf' = named_rates cf" "rules_active cf' = rules_active cf"
    by (simp_all add: set_defaults_def)
qed

lemma switch_ok:
  assumes "copies_ok canon4 canon6 mg'" "idx_ok (cfg_map mg')" "idx_ok cf" "datapath_view mg' = datapath_view mg"
    "bucket_inv (snd (switch_rules E ds indices a cf t mg'))"
    "\<And>cf'. defaults_set ds indices a cf cf' \<Longrightarrow> spec (datapath_view (mg'\<lparr>cfg_map := cf'\<rparr>))"
  shows "call_ok canon4 canon6 mg spec (Some (switch_rules E ds indices a cf t mg'))"
proof -
  obtain res t' where ad: "apply_defaults ds indices a (defaults (rules cf)) t = (res, t')" by (metis surj_pair)
  show ?thesis
  proof (cases res)
    case (Inl e)
    then show ?thesis using assms by (simp add: switch_rules_def ad call_aborts)
  next
    case (Inr to)
    have sw: "switch_rules E ds indices a cf t mg' = upload_config_changes E (set_defaults cf to) (Some t') mg'"
      by (simp add: switch_rules_def ad Inr)
    have "defaults_set ds indices a cf (set_defaults cf to)"
      using apply_defaults_spec[OF ad[unfolded Inr]] by (simp add: defaults_set_def set_defaults_def)
    moreover have "idx_ok (set_defaults cf to)" using assms(3) by (simp add: idx_ok_def set_defaults_def)
    ultimately show ?thesis unfolding sw using assms(1-5) by (intro upload_ok) (simp_all add: assms(6) sw)
  qed
qed


text \<open>
  What the datapath enforces, without the mechanism: the rules in force and the settings, with
  no trace of which copy of a map is active and which bucket a rule owns.
\<close>

record filter_spec =
  f_src :: src_maps_view
  f_icmp :: "XfwIcmpKey \<rightharpoonup> XfwActionRule"
  f_dst :: "XfwDstKey \<rightharpoonup> XfwActionRule"
  f_prot4 :: "XfwIpv4LpmKey set"
  f_prot6 :: "XfwIpv6LpmKey set"
  f_defaults :: "DefaultIndex \<Rightarrow> XfwActionRule"
  f_flags :: "XfwFlagsFilter \<Rightarrow> XfwActionRule"
  f_anomaly :: XfwRulesCfgTcpAnomaly
  f_syncookie :: XfwRulesCfgSyncookie
  f_ip_protocols :: "u64 list"
  f_evaluation :: bool
  f_auth :: bool
  f_dns :: bool
  f_window :: XfwRlWindow
  f_rates :: "u8 \<Rightarrow> XfwPacketRate"
  f_active :: bool

fun abs_view where
  "abs_view (cf, sv, iv, dv, pv) =
     \<lparr>f_src = sv, f_icmp = (\<lambda>k. map_option forget_bucket (iv k)), f_dst = (\<lambda>k. map_option forget_bucket (dv k)),
      f_prot4 = dom (fst pv), f_prot6 = dom (snd pv),
      f_defaults = (\<lambda>i. forget_bucket (defaults (rules cf) i)), f_flags = (\<lambda>g. forget_bucket (tcp_flags (rules cf) g)),
      f_anomaly = tcp_anomaly (rules cf), f_syncookie = syncookie (rules cf), f_ip_protocols = ip_protocols (rules cf),
      f_evaluation = evaluation_mode (rules cf), f_auth = tcp_auth_enabled (rules cf), f_dns = dns_enabled (rules cf),
      f_window = rl_window cf, f_rates = named_rates cf, f_active = rules_active cf\<rparr>"

definition abs_mgr :: "BpfMapsManager \<Rightarrow> filter_spec" where
  "abs_mgr mg = abs_view (datapath_view mg)"

definition flag_rule_of :: "u8 option \<Rightarrow> XfwActionRule" where
  "flag_rule_of f = (case f of Some i \<Rightarrow> mk_XfwActionRule True (Some i) | None \<Rightarrow> XfwActionRule_of XFW_ACTION_ALLOW)"

definition anomaly_of :: "TcpAnomalyFilter \<Rightarrow> XfwRulesCfgTcpAnomaly" where
  "anomaly_of f = \<lparr>ta_enabled = an_enabled f, syn_without_opt_enabled = an_syn_without_opt f,
     syn_with_payload_enabled = an_syn_with_payload f, syn_seqno_enabled = (an_syn_with_seqno f \<noteq> None),
     syn_seqno_value = (case an_syn_with_seqno f of Some v \<Rightarrow> v | None \<Rightarrow> 0), bad_flags = memcpy_u64s 4 (an_bad_flags f)\<rparr>"

definition syncookie_of :: "u64 \<Rightarrow> SynCookieFilter option \<Rightarrow> XfwRulesCfgSyncookie \<Rightarrow> XfwRulesCfgSyncookie" where
  "syncookie_of h f old = (case f of
     Some d \<Rightarrow> \<lparr>passive_timer_jiff = passive_timer d * h, flood_timer_jiff = flood_timer d * h, sc_enabled = True\<rparr>
   | None \<Rightarrow> old\<lparr>sc_enabled := False\<rparr>)"

definition protocols_of :: "BitSet option \<Rightarrow> u64 list" where
  "protocols_of f = memcpy_u64s 4 (case f of Some p \<Rightarrow> p | None \<Rightarrow> make_default_ip_proto)"

definition scaled_rate :: "BpfMapsManager \<Rightarrow> Ratelimit \<Rightarrow> XfwPacketRate" where
  "scaled_rate mg r = \<lparr>rate_packets = scale_rl_to_window mg (rl_pps r), rate_bytes = scale_rl_to_window mg (rl_bps r)\<rparr>"

text \<open>The active limits of a table, by slot.\<close>

definition active_limits :: "Ratelimits \<Rightarrow> u8 \<rightharpoonup> Ratelimit" where
  "active_limits rls = map_of (filter (\<lambda>(i, r). rl_state r = Active) (zip slots (ratelimits rls)))"

definition rates_of :: "BpfMapsManager \<Rightarrow> Ratelimits \<Rightarrow> (u8 \<Rightarrow> XfwPacketRate) \<Rightarrow> u8 \<Rightarrow> XfwPacketRate" where
  "rates_of mg rls old i = (case active_limits rls i of Some r \<Rightarrow> scaled_rate mg r | None \<Rightarrow> old i)"

definition defaults_of where
  "defaults_of ds indices a old i = (if i \<in> set indices then default_rule_of ds a i else old i)"

text \<open>
  The specification of a call, a function on the rules in force. The manager \<open>mg\<close> gives the
  clock and the window, which no call changes.
\<close>

fun spec_step :: "BpfMapsManager \<Rightarrow> mgr_call \<Rightarrow> filter_spec \<Rightarrow> filter_spec" where
  "spec_step mg (Set_src_rules rs ds) s =
     s\<lparr>f_src := src_spec rs, f_defaults := defaults_of ds src_indices XFW_ACTION_ALLOW (f_defaults s)\<rparr>"
| "spec_step mg (Set_icmp_rules rs ds) s =
     s\<lparr>f_icmp := icmp_spec rs, f_defaults := defaults_of ds icmp_indices XFW_ACTION_ALLOW (f_defaults s)\<rparr>"
| "spec_step mg (Set_dst_rules rs ds) s =
     s\<lparr>f_dst := dst_spec rs, f_defaults :=
         defaults_of ds dst_indices (if rs = [] then XFW_ACTION_ALLOW else XFW_ACTION_BLOCK) (f_defaults s)\<rparr>"
| "spec_step mg (Set_prot_net_settings rs) s = s\<lparr>f_prot4 := prot4_spec rs, f_prot6 := prot6_spec rs\<rparr>"
| "spec_step mg (Set_tcp_flag_rule f flag) s = s\<lparr>f_flags := (f_flags s)(flag := flag_rule_of f)\<rparr>"
| "spec_step mg (Set_tcp_anomaly_rule f) s = s\<lparr>f_anomaly := anomaly_of f\<rparr>"
| "spec_step mg (Set_simple_rules c) s =
     s\<lparr>f_syncookie := syncookie_of (hz mg) (c_syncookie_filter c) (f_syncookie s),
       f_ip_protocols := protocols_of (c_ip_proto_filter c), f_evaluation := c_evaluation_mode c,
       f_auth := c_auth_filter c, f_dns := c_dns_filter c, f_window := mgr_window mg\<rparr>"
| "spec_step mg (Set_ratelimits rls) s = s\<lparr>f_rates := rates_of mg rls (f_rates s)\<rparr>"
| "spec_step mg Turn_filtration_on s = s\<lparr>f_active := True\<rparr>"

definition call_spec where
  "call_spec mg c v \<longleftrightarrow> abs_view v = spec_step mg c (abs_view (datapath_view mg))"

lemma scale_ratelimits_spec:
  assumes "scale_ratelimits mg xs rates = Inr rates'" "distinct (map fst xs)"
  shows "rates' i = (case map_of (filter (\<lambda>(i, r). rl_state r = Active) xs) i of Some r \<Rightarrow> scaled_rate mg r | None \<Rightarrow> rates i)"
  using assms
proof (induction xs arbitrary: rates)
  case (Cons x rest)
  obtain j q where x: "x = (j, q)" by (cases x)
  have "j \<notin> dom (map_of (filter (\<lambda>(i, r). rl_state r = Active) rest))"
    using Cons.prems(2) by (auto simp: x dom_map_of_conv_image_fst image_iff)
  then have "map_of (filter (\<lambda>(i, r). rl_state r = Active) rest) j = None" by blast
  then show ?case
    using Cons by (cases "rl_state q = Active") (auto simp: x scaled_rate_def split: if_splits option.splits)
qed simp

lemma scale_rates_of: "scale_ratelimits mg (zip slots (ratelimits rls)) rates = Inr rates' \<Longrightarrow> rates' = rates_of mg rls rates"
  using scale_ratelimits_spec[of mg "zip slots (ratelimits rls)" rates rates']
  by (simp add: fun_eq_iff rates_of_def active_limits_def distinct_slots map_fst_zip_take)

lemma defaults_set_of:
  "defaults_set ds indices a cf cf' \<Longrightarrow>
     (\<lambda>i. forget_bucket (defaults (rules cf') i)) = defaults_of ds indices a (\<lambda>i. forget_bucket (defaults (rules cf) i))"
  by (simp add: defaults_set_def defaults_of_def fun_eq_iff)

lemmas setting_defs = anomaly_of_def syncookie_of_def protocols_of_def

lemmas view_defs = call_spec_def datapath_view_def active_src_def active_prot_def active_icmp_def active_dst_def

text \<open>The calls that rewrite the configuration only.\<close>

lemma cfg_only_calls_ok:
  assumes inv: "mgr_inv canon4 canon6 mg"
    and c: "c = Set_ratelimits rls \<or> c = Set_simple_rules conf \<or> c = Set_tcp_anomaly_rule f \<or> c = Turn_filtration_on"
  shows "call_ok canon4 canon6 mg (call_spec mg c) (mgr_step E c mg)"
proof (cases "cfg_get_err E = 0")
  case True
  note up = upload_cfg_only[OF inv]
  have "call_ok canon4 canon6 mg (call_spec mg (Set_ratelimits rls)) (mgr_step E (Set_ratelimits rls) mg)"
    using True inv by (auto simp: set_ratelimits_def get_config_def call_fails idx_ok_def mgr_inv_iff view_defs
        dest!: scale_rates_of intro!: up split: sum.splits)
  moreover have "call_ok canon4 canon6 mg (call_spec mg (Set_simple_rules conf)) (mgr_step E (Set_simple_rules conf) mg)"
    using True inv by (auto simp: set_simple_rules_def get_config_def Let_def idx_ok_def mgr_inv_iff view_defs setting_defs
        intro!: up split: option.splits)
  moreover have "call_ok canon4 canon6 mg (call_spec mg (Set_tcp_anomaly_rule f)) (mgr_step E (Set_tcp_anomaly_rule f) mg)"
    using True inv by (auto simp: set_tcp_anomaly_rule_def get_config_def idx_ok_def mgr_inv_iff view_defs setting_defs
        intro!: up)
  moreover have "call_ok canon4 canon6 mg (call_spec mg Turn_filtration_on) (mgr_step E Turn_filtration_on mg)"
    using True inv by (auto simp: turn_filtration_on_def get_config_def idx_ok_def mgr_inv_iff view_defs intro!: up)
  ultimately show ?thesis using c by auto
next
  case False
  have "mgr_step E c mg = Some (Inl Cfg_load_failed, mg)"
    using False c by (auto simp: get_config_def set_ratelimits_def set_simple_rules_def set_tcp_anomaly_rule_def turn_filtration_on_def)
  then show ?thesis using call_fails[OF inv] by simp
qed

lemma set_tcp_flag_rule_ok:
  assumes inv: "mgr_inv canon4 canon6 mg"
  shows "call_ok canon4 canon6 mg (call_spec mg (Set_tcp_flag_rule f flag)) (mgr_step E (Set_tcp_flag_rule f flag) mg)"
proof (cases "cfg_get_err E = 0")
  case True
  let ?cf = "cfg_map mg" and ?r = "flag_rule_of f"
  let ?cf' = "\<lambda>r. ?cf\<lparr>rules := (rules ?cf)\<lparr>tcp_flags := (tcp_flags (rules ?cf))(flag := r)\<rparr>\<rparr>"
  have r: "?r = (case f of Some i \<Rightarrow> \<lparr>action = XFW_ACTION_RATE_LIMIT, rlimit = invalid_rlimit\<lparr>rl_named_idx := i\<rparr>\<rparr>
      | None \<Rightarrow> XfwActionRule_of XFW_ACTION_ALLOW)" by (simp add: flag_rule_of_def mk_XfwActionRule_def split: option.split)
  obtain x t where rc: "reconcile_ratelimit_bucket (Some ?r) (Some (tcp_flags (rules ?cf) flag)) (begin_tx mg) = (x, t)"
    by (metis surj_pair)
  have b: "bucket_inv mg" using inv by (simp add: mgr_inv_iff)
  have al: "tx_alloc_inv N (ran (place_bucket mg)) t"
    using reconcile_alloc_inv[OF ledger_alloc_inv[OF begin_ledger[OF b]]] rc by (metis snd_conv)
  show ?thesis
  proof (cases x)
    case (Inl e)
    have "mgr_step E (Set_tcp_flag_rule f flag) mg = Some (Inl (Pool_exhausted e), end_tx t mg)"
      using rc True by (simp add: set_tcp_flag_rule_def get_config_def Let_def r[symmetric] Inl)
    then show ?thesis using inv abort_bucket_inv[OF b al refl] by (simp add: call_aborts mgr_inv_iff)
  next
    case (Inr y)
    then obtain r1 where r1: "y = Some r1" "forget_bucket r1 = forget_bucket ?r" using reconcile_forget rc by metis
    have fr: "forget_bucket ?r = ?r" by (simp add: flag_rule_of_def split: option.split)
    have step: "mgr_step E (Set_tcp_flag_rule f flag) mg = Some (upload_config_changes E (?cf' r1) (Some t) mg)"
      using rc True by (simp add: set_tcp_flag_rule_def get_config_def Let_def r[symmetric] Inr r1)
    have "ledger N (ran (place_bucket mg)) ((place_bucket mg)(Flag_rule flag := rule_bucket (Some r1))) t"
      by (rule reconcile_ledger[OF begin_ledger[OF b], where old = "Some (tcp_flags (rules ?cf) flag)"])
        (use rc Inr r1 in \<open>auto intro: ranI[of _ "Flag_rule flag"]\<close>)
    moreover have "(place_bucket mg)(Flag_rule flag := rule_bucket (Some r1)) = place_bucket (mg\<lparr>cfg_map := ?cf' r1\<rparr>)"
      by (rule ext, case_tac x) (auto simp: active_icmp_def active_dst_def)
    ultimately have "bucket_inv (snd (upload_config_changes E (?cf' r1) (Some t) mg))"
      using upload_bucket_inv[OF b al refl] by simp
    then show ?thesis
      unfolding step using inv r1(2) fr by (intro upload_ok) (auto simp: mgr_inv_iff idx_ok_def view_defs)
  qed
next
  case False
  then show ?thesis using call_fails[OF inv] by (simp add: set_tcp_flag_rule_def get_config_def)
qed


text \<open>Writing the inactive copy does not show.\<close>

lemma select_put_next:
  assumes "valid_idx i"
  shows "SELECT_SHADOW_MAP (put_shadow_map m (next_map_idx i) v) i = SELECT_SHADOW_MAP m i"
    "SELECT_SHADOW_MAP (put_shadow_map m (next_map_idx i) v) (next_map_idx i) = v"
  using assms select_put[of "next_map_idx i" i m v] select_put[of "next_map_idx i" "next_map_idx i" m v] next_map_idx_neq[of i]
  by (simp_all add: valid_idx_def)

lemma valid_next [simp]: "valid_idx (next_map_idx i)"
  by (simp add: valid_idx_def)

lemma set_src_rules_ok:
  assumes k: "kernel_ok canon4 canon6 E" and inv: "mgr_inv canon4 canon6 mg" and c: "canonical_nets canon4 canon6 rs"
  shows "call_ok canon4 canon6 mg (call_spec mg (Set_src_rules rs ds)) (set_src_rules E rs ds mg)"
proof (cases "build_src_snapshots rs")
  case (Inl e)
  then show ?thesis using call_fails[OF inv] by (simp add: set_src_rules_def)
next
  case (Inr S)
  show ?thesis
  proof (cases "cfg_get_err E = 0")
    case True
    let ?cf = "cfg_map mg" let ?i = "next_map_idx (amap_src ?cf)"
    have i: "valid_idx (amap_src ?cf)" using inv by (simp add: mgr_inv_iff idx_ok_def)
    have "src_synced canon4 canon6 (SELECT_SHADOW_MAP (src_maps mg) ?i)"
      using inv by (simp add: mgr_inv_iff copies_ok_def both_copies_select)
    then obtain ok r where v: "verify_all (replace_src_maps E S) (SELECT_SHADOW_MAP (src_maps mg) ?i) = Some (ok, r)"
        "src_synced canon4 canon6 r" "ok \<longrightarrow> src_view r = src_spec rs"
      using replace_src_maps_ok[OF k _ c Inr] by blast
    define mg' where "mg' = mg\<lparr>src_maps := put_shadow_map (src_maps mg) ?i r\<rparr>"
    have cp: "copies_ok canon4 canon6 mg'" "cfg_map mg' = ?cf" "idx_ok (cfg_map mg')" "place_bucket mg' = place_bucket mg"
      using inv v(2) by (auto simp: mgr_inv_iff copies_ok_def mg'_def both_copies_put active_icmp_def active_dst_def
          intro!: place_bucket_cong)
    have vw: "datapath_view mg' = datapath_view mg"
      using i by (simp add: view_defs mg'_def select_put_next)
    have b: "bucket_inv mg" "bucket_inv mg'" using inv cp(4) by (simp_all add: mgr_inv_iff bucket_inv_def mg'_def)
    show ?thesis
    proof (cases ok)
      case ok: True
      have st: "set_src_rules E rs ds mg = Some (switch_rules E ds src_indices XFW_ACTION_ALLOW (?cf\<lparr>amap_src := ?i\<rparr>) (begin_tx mg') mg')"
        using Inr True v(1) ok by (simp add: set_src_rules_def get_config_def get_maps_by_index_next Let_def mg'_def)
      have "bucket_inv (snd (switch_rules E ds src_indices XFW_ACTION_ALLOW (?cf\<lparr>amap_src := ?i\<rparr>) (begin_tx mg') mg'))"
      proof (rule switch_bucket_inv[OF b(2) begin_ledger[OF b(2)]])
        show "\<forall>p. p \<notin> range Default_rule \<longrightarrow> place_bucket mg' p = place_bucket (mg'\<lparr>cfg_map := ?cf\<lparr>amap_src := ?i\<rparr>\<rparr>) p"
          using cp(2) by (intro allI impI fun_cong[OF place_bucket_cong[symmetric]]) (simp_all add: active_icmp_def active_dst_def)
      qed (simp_all add: src_indices_def cp(2))
      then show ?thesis
        unfolding st using cp vw i v(3) ok
        by (intro switch_ok) (auto simp: idx_ok_def view_defs defaults_set_keeps defaults_set_of mg'_def select_put_next)
    next
      case False
      then have "set_src_rules E rs ds mg = Some (Inl Unable_to_update_rules, mg')"
        using Inr True v(1) by (simp add: set_src_rules_def get_config_def get_maps_by_index_next Let_def mg'_def)
      then show ?thesis using cp vw b by (simp add: call_ok_def mgr_inv_iff)
    qed
  next
    case False
    then show ?thesis using Inr call_fails[OF inv] by (simp add: set_src_rules_def get_config_def)
  qed
qed


section \<open>Rule maps whose rules own buckets\<close>

text \<open>
  The ICMP and the destination rules are updated in the same way. The interface of such a
  map: how it and the index of its active copy are read and written, and which places of the
  ledger are its keys.
\<close>

locale bucketed_rules =
  fixes maps :: "BpfMapsManager \<Rightarrow> ('k, XfwActionRule) BpfShadowHashMap shadow"
    and put_maps :: "('k, XfwActionRule) BpfShadowHashMap shadow \<Rightarrow> BpfMapsManager \<Rightarrow> BpfMapsManager"
    and amap :: "XfwFilterCfg \<Rightarrow> u8"
    and put_amap :: "u8 \<Rightarrow> XfwFilterCfg \<Rightarrow> XfwFilterCfg"
    and emb :: "'k \<Rightarrow> rule_place"
  assumes put_maps: "maps (put_maps m mg) = m" "cfg_map (put_maps m mg) = cfg_map mg"
      "maps (mg\<lparr>cfg_map := cf\<rparr>) = maps mg"
    and put_amap: "amap (put_amap i cf) = i" "defaults (rules (put_amap i cf)) = defaults (rules cf)"
    and idx: "idx_ok cf \<Longrightarrow> valid_idx (amap cf)" "idx_ok cf \<Longrightarrow> valid_idx i \<Longrightarrow> idx_ok (put_amap i cf)"
    and copies: "copies_ok c4 c6 mg \<Longrightarrow> both_copies (synced id) (maps mg)"
      "copies_ok c4 c6 mg \<Longrightarrow> both_copies (synced id) m \<Longrightarrow> copies_ok c4 c6 (put_maps m mg)"
    and emb: "inj emb" and not_default: "Default_rule j \<notin> range emb"
    and place: "place_bucket mg (emb k) = rule_bucket (map_of (snapshot (SELECT_SHADOW_MAP (maps mg) (amap (cfg_map mg)))) k)"
    and other_places: "p \<notin> range emb \<Longrightarrow> p \<notin> range Default_rule \<Longrightarrow>
      place_bucket ((put_maps m mg)\<lparr>cfg_map := put_amap i (cfg_map mg)\<rparr>) p = place_bucket mg p"
    and hidden: "SELECT_SHADOW_MAP m (amap (cfg_map mg)) = SELECT_SHADOW_MAP (maps mg) (amap (cfg_map mg)) \<Longrightarrow>
      datapath_view (put_maps m mg) = datapath_view mg \<and> place_bucket (put_maps m mg) = place_bucket mg"
begin

lemma active_valid: "mgr_inv c4 c6 mg \<Longrightarrow> get_maps_by_index (amap (cfg_map mg)) = Inr (amap (cfg_map mg))"
  using idx(1) by (simp add: mgr_inv_iff get_maps_by_index_iff valid_idx_def)

lemma inv_copies: "mgr_inv c4 c6 mg \<Longrightarrow> both_copies (synced id) (maps mg)"
  by (rule copies(1)[of c4 c6]) (simp add: mgr_inv_iff)

lemma collect_aborts:
  assumes inv: "mgr_inv c4 c6 mg"
    and ad: "add_all_bucketed (snapshot (SELECT_SHADOW_MAP (maps mg) (amap (cfg_map mg)))) xs [] (begin_tx mg) = (x, t)"
  shows "call_ok c4 c6 mg spec (Some (Inl e, end_tx t mg))"
proof (rule call_aborts)
  have b: "bucket_inv mg" using inv by (simp add: mgr_inv_iff)
  have "tx_alloc_inv N (ran (place_bucket mg)) t"
    using add_all_bucketed_alloc_inv[OF ledger_alloc_inv[OF begin_ledger[OF b]]] ad by (metis snd_conv)
  then show "bucket_inv (end_tx t mg)" by (rule abort_bucket_inv[OF b]) simp
qed (use inv in \<open>simp_all add: mgr_inv_iff\<close>)

lemma write_inactive:
  assumes inv: "mgr_inv c4 c6 mg" and laws: "\<exists>pl n. batch_laws id pl n K" and d: "distinct (map fst new)"
  obtains ok m where "replace K new (SELECT_SHADOW_MAP (maps mg) (next_map_idx (amap (cfg_map mg)))) = Some (ok, m)"
    "synced id m" "ok \<Longrightarrow> snapshot m = new \<and> bpf_map m = map_of new"
proof -
  have "synced id (SELECT_SHADOW_MAP (maps mg) (next_map_idx (amap (cfg_map mg))))"
    by (rule both_copies_select[OF inv_copies[OF inv]])
  from replace_synced[OF laws this d canonical_id] that show thesis by blast
qed

lemma inactive_written:
  assumes inv: "mgr_inv c4 c6 mg" and m: "synced id m"
    and mg': "mg' = put_maps (put_shadow_map (maps mg) (next_map_idx (amap (cfg_map mg))) m) mg"
  shows "copies_ok c4 c6 mg'" "cfg_map mg' = cfg_map mg" "datapath_view mg' = datapath_view mg"
    "place_bucket mg' = place_bucket mg"
proof -
  have "valid_idx (amap (cfg_map mg))" using inv idx(1) by (simp add: mgr_inv_iff)
  note hid = hidden[OF select_put_next(1)[OF this]]
  show "copies_ok c4 c6 mg'" "cfg_map mg' = cfg_map mg" "datapath_view mg' = datapath_view mg"
    "place_bucket mg' = place_bucket mg"
    using inv hid copies(2)[OF _ both_copies_put[OF inv_copies[OF inv] m]] by (simp_all add: mg' mgr_inv_iff put_maps)
qed

lemma write_aborts:
  assumes inv: "mgr_inv c4 c6 mg" and m: "synced id m"
    and mg': "mg' = put_maps (put_shadow_map (maps mg) (next_map_idx (amap (cfg_map mg))) m) mg"
    and ad: "add_all_bucketed (snapshot (SELECT_SHADOW_MAP (maps mg) (amap (cfg_map mg)))) xs [] (begin_tx mg) = (x, t)"
  shows "call_ok c4 c6 mg spec (Some (Inl e, end_tx (release_removed new active t) mg'))"
proof (rule call_aborts)
  note w = inactive_written[OF inv m mg']
  have b: "bucket_inv mg" using inv by (simp add: mgr_inv_iff)
  have "tx_alloc_inv N (ran (place_bucket mg)) t"
    using add_all_bucketed_alloc_inv[OF ledger_alloc_inv[OF begin_ledger[OF b]]] ad by (metis snd_conv)
  then show "bucket_inv (end_tx (release_removed new active t) mg')"
    by (intro abort_bucket_inv[OF b _ w(4)] release_removed_alloc_inv)
qed (use inactive_written[OF inv m mg'] inv in \<open>simp_all add: mgr_inv_iff\<close>)

lemma switch_succeeds:
  assumes inv: "mgr_inv c4 c6 mg" and m: "synced id m" "snapshot m = new"
    and mg': "mg' = put_maps (put_shadow_map (maps mg) (next_map_idx (amap (cfg_map mg))) m) mg"
    and active: "active = snapshot (SELECT_SHADOW_MAP (maps mg) (amap (cfg_map mg)))"
    and ad: "add_all_bucketed active xs [] (begin_tx mg) = (Inr new, t)"
    and cf: "cf = put_amap (next_map_idx (amap (cfg_map mg))) (cfg_map mg)" and ix: "distinct indices"
    and spec: "\<And>cf'. defaults_set ds indices a cf cf' \<Longrightarrow> spec (datapath_view (mg'\<lparr>cfg_map := cf'\<rparr>))"
  shows "call_ok c4 c6 mg spec (Some (switch_rules E ds indices a cf (release_removed new active t) mg'))"
proof (rule switch_ok)
  note w = inactive_written[OF inv m(1) mg']
  have b: "bucket_inv mg" and i: "valid_idx (amap (cfg_map mg))" using inv idx(1) by (simp_all add: mgr_inv_iff)
  have "distinct (map fst active)" 
    unfolding active by (rule synced_distinct[OF both_copies_select[OF inv_copies[OF inv]]])
  from collect_ledger[OF b emb _ this ad] obtain cur where
      cur: "ledger N (ran (place_bucket mg)) cur (release_removed new active t)" "\<forall>k. cur (emb k) = rule_bucket (map_of new k)"
        "\<forall>p. p \<notin> range emb \<longrightarrow> cur p = place_bucket mg p"
    using place active by blast
  have "cur p = place_bucket (mg'\<lparr>cfg_map := cf\<rparr>) p" if "p \<notin> range Default_rule" for p
  proof (cases "p \<in> range emb")
    case True
    then obtain k where "p = emb k" by blast
    then show ?thesis using cur(2) i by (simp add: place mg' cf put_maps put_amap select_put_next m(2))
  qed (use that cur(3) other_places in \<open>simp add: mg' cf\<close>)
  moreover have "cur (Default_rule j) = place_bucket mg (Default_rule j)" for j
    using cur(3) not_default by blast
  ultimately show "bucket_inv (snd (switch_rules E ds indices a cf (release_removed new active t) mg'))"
    using b cur(1) ix w(4) put_amap(2) cf by (intro switch_bucket_inv) auto
  show "idx_ok cf" using inv idx(2) by (simp add: cf mgr_inv_iff)
qed (use inactive_written[OF inv m(1) mg'] inv spec in \<open>simp_all add: mgr_inv_iff\<close>)

end

interpretation icmp_rules: bucketed_rules icmp_maps "\<lambda>m mg. mg\<lparr>icmp_maps := m\<rparr>" amap_icmp "\<lambda>i cf. cf\<lparr>amap_icmp := i\<rparr>" Icmp_rule
proof
  show "place_bucket (mg\<lparr>icmp_maps := m, cfg_map := (cfg_map mg)\<lparr>amap_icmp := i\<rparr>\<rparr>) p = place_bucket mg p"
    if "p \<notin> range Icmp_rule" "p \<notin> range Default_rule" for p m mg i
    using that by (cases p) (auto simp: active_dst_def)
qed (auto simp: idx_ok_def copies_ok_def active_icmp_def active_dst_def view_defs inj_def intro!: place_bucket_cong)

interpretation dst_rules: bucketed_rules dst_maps "\<lambda>m mg. mg\<lparr>dst_maps := m\<rparr>" amap_dst "\<lambda>i cf. cf\<lparr>amap_dst := i\<rparr>" Dst_rule
proof
  show "place_bucket (mg\<lparr>dst_maps := m, cfg_map := (cfg_map mg)\<lparr>amap_dst := i\<rparr>\<rparr>) p = place_bucket mg p"
    if "p \<notin> range Dst_rule" "p \<notin> range Default_rule" for p m mg i
    using that by (cases p) (auto simp: active_icmp_def)
qed (auto simp: idx_ok_def copies_ok_def active_icmp_def active_dst_def view_defs inj_def intro!: place_bucket_cong)

lemma new_rules_spec:
  assumes "add_all_bucketed active xs [] t = (Inr new, t')"
  shows "distinct (map fst new)" "(\<lambda>k. map_option forget_bucket (map_of new k)) = map_of (key_entries xs)"
  using add_all_bucketed_spec[OF assms] map_of_forget_all[of new] by (auto simp: fun_eq_iff)

lemma set_icmp_rules_ok:
  assumes k: "kernel_ok canon4 canon6 E" and inv: "mgr_inv canon4 canon6 mg"
  shows "call_ok canon4 canon6 mg (call_spec mg (Set_icmp_rules rs ds)) (set_icmp_rules E rs ds mg)"
proof (cases "cfg_get_err E = 0")
  case True
  let ?i = "next_map_idx (amap_icmp (cfg_map mg))" and ?active = "snapshot (SELECT_SHADOW_MAP (icmp_maps mg) (amap_icmp (cfg_map mg)))"
  obtain x t where ad: "add_all_bucketed ?active (icmp_keys rs) [] (begin_tx mg) = (x, t)" by (metis surj_pair)
  note st = set_icmp_rules_def get_config_def icmp_rules.active_valid[OF inv] get_maps_by_index_next Let_def
  show ?thesis
  proof (cases "\<exists>new. x = Inr new \<and> length new \<le> XFW_MAX_ICMP_RULES")
    case False
    then show ?thesis using True ad icmp_rules.collect_aborts[OF inv ad] by (cases x) (auto simp: st)
  next
    case lim: True
    then obtain new where new: "x = Inr new" "length new \<le> XFW_MAX_ICMP_RULES" by blast
    note nw = new_rules_spec[OF ad[unfolded new(1)]]
    have laws: "\<exists>pl n. batch_laws id pl n (ops_icmp E)" using k by (simp add: kernel_ok_def)
    obtain ok m where r: "replace (ops_icmp E) new (SELECT_SHADOW_MAP (icmp_maps mg) ?i) = Some (ok, m)" "synced id m"
        "ok \<Longrightarrow> snapshot m = new \<and> bpf_map m = map_of new"
      using icmp_rules.write_inactive[OF inv laws nw(1)] by blast
    define mg' where mg': "mg' = mg\<lparr>icmp_maps := put_shadow_map (icmp_maps mg) ?i m\<rparr>"
    have i: "valid_idx (amap_icmp (cfg_map mg))" using inv by (simp add: mgr_inv_iff idx_ok_def)
    show ?thesis
    proof (cases ok)
      case ok: True
      have "call_ok canon4 canon6 mg (call_spec mg (Set_icmp_rules rs ds)) (Some (switch_rules E ds icmp_indices XFW_ACTION_ALLOW
          ((cfg_map mg)\<lparr>amap_icmp := ?i\<rparr>) (release_removed new ?active t) mg'))"
        by (rule icmp_rules.switch_succeeds[OF inv r(2) _ mg' refl])
          (use ad new(1) r(3) ok nw(2) i in \<open>auto simp: icmp_indices_def icmp_spec_def view_defs defaults_set_keeps defaults_set_of mg' select_put_next\<close>)
      then show ?thesis using True ad new r(1) ok by (simp add: st mg')
    next
      case False
      then show ?thesis using True ad new r(1) icmp_rules.write_aborts[OF inv r(2) mg' ad] by (simp add: st mg'[symmetric])
    qed
  qed
next
  case False
  then show ?thesis using call_fails[OF inv] by (simp add: set_icmp_rules_def get_config_def)
qed

lemma set_dst_rules_ok:
  assumes k: "kernel_ok canon4 canon6 E" and inv: "mgr_inv canon4 canon6 mg"
  shows "call_ok canon4 canon6 mg (call_spec mg (Set_dst_rules rs ds)) (set_dst_rules E rs ds mg)"
proof (cases "cfg_get_err E = 0")
  case True
  let ?i = "next_map_idx (amap_dst (cfg_map mg))" and ?active = "snapshot (SELECT_SHADOW_MAP (dst_maps mg) (amap_dst (cfg_map mg)))"
  obtain x t where ad: "add_all_bucketed ?active (dst_keys rs) [] (begin_tx mg) = (x, t)" by (metis surj_pair)
  note st = set_dst_rules_def get_config_def dst_rules.active_valid[OF inv] get_maps_by_index_next Let_def
  show ?thesis
  proof (cases "\<exists>new. x = Inr new \<and> length new \<le> XFW_MAX_DST_RULES")
    case False
    then show ?thesis using True ad dst_rules.collect_aborts[OF inv ad] by (cases x) (auto simp: st)
  next
    case lim: True
    then obtain new where new: "x = Inr new" "length new \<le> XFW_MAX_DST_RULES" by blast
    note nw = new_rules_spec[OF ad[unfolded new(1)]]
    have laws: "\<exists>pl n. batch_laws id pl n (ops_dst E)" using k by (simp add: kernel_ok_def)
    obtain ok m where r: "replace (ops_dst E) new (SELECT_SHADOW_MAP (dst_maps mg) ?i) = Some (ok, m)" "synced id m"
        "ok \<Longrightarrow> snapshot m = new \<and> bpf_map m = map_of new"
      using dst_rules.write_inactive[OF inv laws nw(1)] by blast
    define mg' where mg': "mg' = mg\<lparr>dst_maps := put_shadow_map (dst_maps mg) ?i m\<rparr>"
    have i: "valid_idx (amap_dst (cfg_map mg))" using inv by (simp add: mgr_inv_iff idx_ok_def)
    show ?thesis
    proof (cases ok)
      case ok: True
      have "call_ok canon4 canon6 mg (call_spec mg (Set_dst_rules rs ds)) (Some (switch_rules E ds dst_indices (if rs = [] then XFW_ACTION_ALLOW else XFW_ACTION_BLOCK)
          ((cfg_map mg)\<lparr>amap_dst := ?i\<rparr>) (release_removed new ?active t) mg'))"
        by (rule dst_rules.switch_succeeds[OF inv r(2) _ mg' refl])
          (use ad new(1) r(3) ok nw(2) i in \<open>auto simp: dst_indices_def dst_spec_def view_defs defaults_set_keeps defaults_set_of mg' select_put_next\<close>)
      then show ?thesis using True ad new r(1) ok by (simp add: st mg')
    next
      case False
      then show ?thesis using True ad new r(1) dst_rules.write_aborts[OF inv r(2) mg' ad] by (simp add: st mg'[symmetric])
    qed
  qed
next
  case False
  then show ?thesis using call_fails[OF inv] by (simp add: set_dst_rules_def get_config_def)
qed

lemma replace_prot_maps_ok:
  assumes k: "kernel_ok canon4 canon6 E" and r: "prot_synced canon4 canon6 r"
    and c: "canonical_nets canon4 canon6 rs" and S: "add_prot_nets rs [] [] = Inr (m4, m6)"
  shows "\<exists>ok r'. verify_all (replace_prot_maps E m4 m6) r = Some (ok, r') \<and> prot_synced canon4 canon6 r'
    \<and> (ok \<longrightarrow> dom (fst (prot_view r')) = prot4_spec rs \<and> dom (snd (prot_view r')) = prot6_spec rs)"
proof -
  have sp: "distinct (map fst m4)" "distinct (map fst m6)" "keys_of m4 = prot4_spec rs" "keys_of m6 = prot6_spec rs"
    using add_prot_nets_spec[OF S] by (simp_all add: keys_of_def)
  have c4: "canonical canon4 (keys_of m4)"
    unfolding sp(3) prot4_spec_def canonical_def by (auto dest: canonical_nets_keys(1)[OF c])
  have c6: "canonical canon6 (keys_of m6)"
    unfolding sp(4) prot6_spec_def canonical_def by (auto dest: canonical_nets_keys(3)[OF c])
  have laws: "\<exists>pl n. batch_laws canon4 pl n (ops_net4 E)" "\<exists>pl n. batch_laws canon6 pl n (ops_net6 E)"
    using k by (simp_all add: kernel_ok_def)
  have sy: "synced canon4 (pn_v4 r)" "synced canon6 (pn_v6 r)" using r by (simp_all add: prot_synced_def)
  obtain ok1 r1 where 1: "replace (ops_net4 E) m4 (pn_v4 r) = Some (ok1, r1)" "synced canon4 r1"
      "ok1 \<longrightarrow> bpf_map r1 = map_of m4" using replace_synced[OF laws(1) sy(1) sp(1) c4] by blast
  obtain ok2 r2 where 2: "replace (ops_net6 E) m6 (pn_v6 r) = Some (ok2, r2)" "synced canon6 r2"
      "ok2 \<longrightarrow> bpf_map r2 = map_of m6" using replace_synced[OF laws(2) sy(2) sp(2) c6] by blast
  show ?thesis
    using 1 2 sy by (cases ok1; cases ok2)
      (simp_all add: replace_prot_maps_def prot_synced_def prot_view_def keys_of_dom[symmetric] sp(3,4), blast+)
qed

lemma set_prot_net_settings_ok:
  assumes k: "kernel_ok canon4 canon6 E" and inv: "mgr_inv canon4 canon6 mg" and c: "canonical_nets canon4 canon6 rs"
  shows "call_ok canon4 canon6 mg (call_spec mg (Set_prot_net_settings rs)) (set_prot_net_settings E rs mg)"
proof (cases "\<exists>m4 m6. add_prot_nets rs [] [] = Inr (m4, m6) \<and> length m4 \<le> XFW_MAX_PROTECTED_NET_RULES
    \<and> length m6 \<le> XFW_MAX_PROTECTED_NET_RULES \<and> cfg_get_err E = 0")
  case False
  then have "\<exists>e. set_prot_net_settings E rs mg = Some (Inl e, mg)"
    by (auto simp: set_prot_net_settings_def get_config_def not_less split: sum.split)
  then show ?thesis using call_fails[OF inv] by auto
next
  case True
  then obtain m4 m6 where ad: "add_prot_nets rs [] [] = Inr (m4, m6)" "length m4 \<le> XFW_MAX_PROTECTED_NET_RULES"
      "length m6 \<le> XFW_MAX_PROTECTED_NET_RULES" "cfg_get_err E = 0" by blast
  let ?i = "next_map_idx (amap_prot_net (cfg_map mg))"
  let ?cf = "(cfg_map mg)\<lparr>amap_prot_net := ?i\<rparr>"
  have i: "valid_idx (amap_prot_net (cfg_map mg))" using inv by (simp add: mgr_inv_iff idx_ok_def)
  have "prot_synced canon4 canon6 (SELECT_SHADOW_MAP (prot_net_maps mg) ?i)"
    using inv by (simp add: mgr_inv_iff copies_ok_def both_copies_select)
  from replace_prot_maps_ok[OF k this c ad(1)] obtain ok r where
      v: "verify_all (replace_prot_maps E m4 m6) (SELECT_SHADOW_MAP (prot_net_maps mg) ?i) = Some (ok, r)"
        "prot_synced canon4 canon6 r" "ok \<longrightarrow> dom (fst (prot_view r)) = prot4_spec rs \<and> dom (snd (prot_view r)) = prot6_spec rs"
    by blast
  define mg' where mg': "mg' = mg\<lparr>prot_net_maps := put_shadow_map (prot_net_maps mg) ?i r\<rparr>"
  have w: "copies_ok canon4 canon6 mg'" "idx_ok (cfg_map mg')" "datapath_view mg' = datapath_view mg" "idx_ok ?cf"
    using inv i v(2) by (simp_all add: mg' mgr_inv_iff copies_ok_def both_copies_put view_defs select_put_next idx_ok_def)
  have p: "place_bucket mg' = place_bucket mg" "place_bucket (mg'\<lparr>cfg_map := ?cf\<rparr>) = place_bucket mg"
    by (rule place_bucket_cong; simp add: mg' active_icmp_def active_dst_def)+
  have b: "bucket_inv mg" "bucket_inv mg'" using inv p(1) by (simp_all add: mgr_inv_iff bucket_inv_def mg')
  have st: "set_prot_net_settings E rs mg = Some (if ok then upload_config_changes E ?cf None mg' else (Inl Unable_to_update_rules, mg'))"
    using ad v(1) by (simp add: set_prot_net_settings_def get_config_def get_maps_by_index_next Let_def mg')
  show ?thesis
  proof (cases ok)
    case ok: True
    have "bucket_inv (snd (upload_config_changes E ?cf None mg'))"
      using upload_none_bucket_inv[of mg mg' ?cf E] b p by (simp add: mg')
    then show ?thesis
      unfolding st using w v(3) ok i by (auto simp: view_defs mg' select_put_next intro!: upload_ok)
  next
    case False
    then show ?thesis using w b by (simp add: st call_ok_def mgr_inv_iff)
  qed
qed

text \<open>Every call.\<close>

lemma mgr_step_ok:
  assumes "kernel_ok canon4 canon6 E" "mgr_inv canon4 canon6 mg" "canonical_call canon4 canon6 c"
  shows "call_ok canon4 canon6 mg (call_spec mg c) (mgr_step E c mg)"
proof (cases "\<exists>rls conf f. c = Set_ratelimits rls \<or> c = Set_simple_rules conf \<or> c = Set_tcp_anomaly_rule f \<or> c = Turn_filtration_on")
  case True
  then show ?thesis by (elim exE) (rule cfg_only_calls_ok[OF assms(2)])
next
  case False
  then show ?thesis
    using assms set_src_rules_ok set_icmp_rules_ok set_dst_rules_ok set_prot_net_settings_ok set_tcp_flag_rule_ok
    by (cases c) simp_all
qed

end
