(* ===== verification/SetConfig.thy ===== *)
theory SetConfig
  imports Manager
begin

text \<open>
  Applying a whole configuration: \<open>Xfw::set_config\<close> runs the calls of the maps manager one
  after the other. It returns whatever the kernel answers, keeps the invariant of the
  manager, and when it reports success the datapath enforces exactly the configuration.
\<close>


section \<open>Sequences of calls\<close>

text \<open>The clock, the window and the bound of the rate limiter are fixed when the manager is built.\<close>

definition clock :: "BpfMapsManager \<Rightarrow> u64 \<times> XfwRlWindow \<times> u64" where
  "clock mg = (hz mg, mgr_window mg, rl_max_rate mg)"

lemma clock_kept [simp]:
  "clock (end_tx t mg) = clock mg" "clock (snd (upload_config_changes E cf tx mg)) = clock mg"
  "clock (snd (switch_rules E ds indices a cf t mg)) = clock mg"
  by (auto simp: clock_def end_tx_def upload_config_changes_def switch_rules_def split: option.split prod.split sum.split)

lemma clock_keptD:
  "upload_config_changes E cf tx mg = (res, mg') \<Longrightarrow> clock mg' = clock mg"
  "switch_rules E ds indices a cf t mg = (res, mg') \<Longrightarrow> clock mg' = clock mg"
  using clock_kept by (metis snd_conv)+

lemma clock_put [simp]:
  "clock (mg\<lparr>src_maps := a\<rparr>) = clock mg" "clock (mg\<lparr>icmp_maps := b\<rparr>) = clock mg"
  "clock (mg\<lparr>dst_maps := c\<rparr>) = clock mg" "clock (mg\<lparr>prot_net_maps := d\<rparr>) = clock mg"
  by (simp_all add: clock_def)

lemma mgr_step_clock: "mgr_step E c mg = Some (res, mg') \<Longrightarrow> clock mg' = clock mg"
  by (cases c) (auto simp: set_ratelimits_def set_simple_rules_def set_src_rules_def set_icmp_rules_def set_dst_rules_def
      set_prot_net_settings_def set_tcp_flag_rule_def set_tcp_anomaly_rule_def turn_filtration_on_def Let_def
      split: sum.splits prod.splits option.splits if_splits dest!: clock_keptD)

lemma rates_of_clock: "clock mg' = clock mg \<Longrightarrow> rates_of mg' = rates_of mg"
  by (auto simp: fun_eq_iff clock_def rates_of_def scaled_rate_def scale_rl_to_window_def split: option.split)

lemma spec_step_clock: "clock mg' = clock mg \<Longrightarrow> spec_step mg' c s = spec_step mg c s"
  using rates_of_clock[of mg' mg] by (cases c) (simp_all add: clock_def)

lemma spec_step_active: "f_active s \<Longrightarrow> f_active (spec_step mg c s)"
  by (cases c) simp_all

text \<open>
  A sequence of calls returns and keeps the invariant; if every call succeeds, what the
  datapath enforces is the composition of their specifications.
\<close>

lemma mgr_run_ok:
  assumes "\<forall>(E, c) \<in> set cs. kernel_ok canon4 canon6 E \<and> canonical_call canon4 canon6 c" "mgr_inv canon4 canon6 mg"
  shows "\<exists>res mg'. mgr_run cs mg = Some (res, mg') \<and> mgr_inv canon4 canon6 mg' \<and> clock mg' = clock mg
    \<and> (f_active (abs_mgr mg) \<longrightarrow> f_active (abs_mgr mg'))
    \<and> (res = Inr () \<longrightarrow> abs_mgr mg' = fold (spec_step mg) (map snd cs) (abs_mgr mg))"
  using assms
proof (induction cs arbitrary: mg)
  case (Cons ec cs)
  obtain E c where ec: "ec = (E, c)" by (cases ec)
  have ok: "kernel_ok canon4 canon6 E" "canonical_call canon4 canon6 c"
    and cs: "\<forall>(E, c) \<in> set cs. kernel_ok canon4 canon6 E \<and> canonical_call canon4 canon6 c"
    using Cons.prems(1) by (simp_all add: ec)
  obtain res mg1 where st: "mgr_step E c mg = Some (res, mg1)" "mgr_inv canon4 canon6 mg1"
      "\<forall>e. res = Inl e \<longrightarrow> abs_mgr mg1 = abs_mgr mg" "res = Inr () \<longrightarrow> abs_mgr mg1 = spec_step mg c (abs_mgr mg)"
    using mgr_step_ok[OF ok(1) Cons.prems(2) ok(2)] unfolding call_ok_def call_spec_def abs_mgr_def by metis
  note ck = mgr_step_clock[OF st(1)]
  show ?case
  proof (cases res)
    case (Inl e)
    then show ?thesis using st ck by (simp add: ec)
  next
    case (Inr u)
    then have a: "abs_mgr mg1 = spec_step mg c (abs_mgr mg)" using st(4) by simp
    from Cons.IH[OF cs st(2)] show ?thesis
      using st(1) Inr ck by (auto simp: ec a spec_step_active spec_step_clock[OF ck, abs_def])
  qed
qed simp


section \<open>The configuration in force\<close>

definition default_action :: "XfwConfig \<Rightarrow> DefaultIndex \<Rightarrow> u8" where
  "default_action c i = (if i \<in> set dst_indices \<and> c_dst_rules c \<noteq> [] then XFW_ACTION_BLOCK else XFW_ACTION_ALLOW)"

text \<open>
  What a configuration asks for. Two things depend on what was in force before: the rates in
  slots without an active limit, and the timers of SYN cookies while they are off.
\<close>

definition config_spec :: "BpfMapsManager \<Rightarrow> XfwConfig \<Rightarrow> filter_spec \<Rightarrow> filter_spec" where
  "config_spec mg c s =
     \<lparr>f_src = src_spec (c_src_rules c), f_icmp = icmp_spec (c_icmp_rules c), f_dst = dst_spec (c_dst_rules c),
      f_prot4 = prot4_spec (c_prot_net c), f_prot6 = prot6_spec (c_prot_net c),
      f_defaults = (\<lambda>i. default_rule_of (c_defaults c) (default_action c i) i),
      f_flags = (\<lambda>g. flag_rule_of (case g of XFW_FLAGS_FILTER_SYN \<Rightarrow> c_tcp_syn_flag_filter c
         | XFW_FLAGS_FILTER_RST \<Rightarrow> c_tcp_rst_flag_filter c)),
      f_anomaly = anomaly_of (c_anomaly_filter c),
      f_syncookie = syncookie_of (hz mg) (c_syncookie_filter c) (f_syncookie s),
      f_ip_protocols = protocols_of (c_ip_proto_filter c), f_evaluation = c_evaluation_mode c,
      f_auth = c_auth_filter c, f_dns = c_dns_filter c, f_window = mgr_window mg,
      f_rates = rates_of mg (c_ratelimits c) (f_rates s), f_active = True\<rparr>"

definition xfw_inv where
  "xfw_inv canon4 canon6 x \<longleftrightarrow> mgr_inv canon4 canon6 (maps_manager x)
     \<and> (xfw_config x \<noteq> None \<longrightarrow> rules_active (cfg_map (maps_manager x)))"

definition canonical_config where
  "canonical_config canon4 canon6 c \<longleftrightarrow> canonical_nets canon4 canon6 (c_src_rules c) \<and> canonical_nets canon4 canon6 (c_prot_net c)"

lemma config_calls_canonical:
  assumes "canonical_config canon4 canon6 config" "c \<in> set (config_calls x config)"
  shows "canonical_call canon4 canon6 c"
  using assms by (auto simp: config_calls_def canonical_config_def split: if_splits)

lemma all_defaults: "i \<in> set src_indices \<or> i \<in> set icmp_indices \<or> i \<in> set dst_indices"
  by (cases i) (simp_all add: src_indices_def icmp_indices_def dst_indices_def)

lemma config_calls_spec:
  assumes "xfw_config x \<noteq> None \<longrightarrow> f_active s"
  shows "fold (spec_step mg) (config_calls x c) s = config_spec mg c s"
proof -
  have d: "defaults_of ds dst_indices a (defaults_of ds icmp_indices XFW_ACTION_ALLOW (defaults_of ds src_indices XFW_ACTION_ALLOW old))
      = (\<lambda>i. default_rule_of ds (if i \<in> set dst_indices then a else XFW_ACTION_ALLOW) i)" for ds a old
    using all_defaults by (auto simp: defaults_of_def fun_eq_iff)
  have "(f_flags s)(XFW_FLAGS_FILTER_RST := flag_rule_of r, XFW_FLAGS_FILTER_SYN := flag_rule_of y)
      = (\<lambda>g. flag_rule_of (case g of XFW_FLAGS_FILTER_SYN \<Rightarrow> y | XFW_FLAGS_FILTER_RST \<Rightarrow> r))" for r y
    by (auto split: XfwFlagsFilter.split)
  then show ?thesis
    using assms by (cases s) (auto simp: config_calls_def config_spec_def default_action_def d)
qed

section \<open>A fresh host\<close>

text \<open>
  Right after the loader has created the maps they are empty and no rule of the configuration
  map is a rate limit.
\<close>

definition no_rules :: "kernel_maps \<Rightarrow> bool" where
  "no_rules km \<longleftrightarrow> idx_ok (km_cfg km) \<and> (\<forall>i. \<not> is_rate_limit (defaults (rules (km_cfg km)) i))
     \<and> (\<forall>g. \<not> is_rate_limit (tcp_flags (rules (km_cfg km)) g))
     \<and> both_copies (\<lambda>m. m = (Map.empty, Map.empty, Map.empty, Map.empty, Map.empty, Map.empty)) (km_src km)
     \<and> both_copies (\<lambda>m. m = Map.empty) (km_icmp km) \<and> both_copies (\<lambda>m. m = Map.empty) (km_dst km)
     \<and> both_copies (\<lambda>m. m = (Map.empty, Map.empty)) (km_prot_net km)"

lemma synced_new [simp]: "synced canon (BpfShadowHashMap_new Map.empty)"
  by (simp add: synced_def shadow_inv_def BpfShadowHashMap_new_def keys_of_def kernel_of_def canonical_def)

lemma fresh_mgr_inv:
  assumes "no_rules km"
  shows "mgr_inv canon4 canon6 (BpfMapsManager_new h km)"
proof -
  let ?mg = "BpfMapsManager_new h km"
  have "snapshot (active_icmp ?mg) = []" "snapshot (active_dst ?mg) = []"
    by (simp_all add: active_icmp_def active_dst_def BpfMapsManager_new_def both_def SELECT_SHADOW_MAP_def BpfShadowHashMap_new_def)
  then have "place_bucket ?mg p = None" for p
    using assms by (cases p) (simp_all add: rule_bucket_def no_rules_def BpfMapsManager_new_def)
  then have "place_bucket ?mg = Map.empty" by blast
  moreover have "pool ?mg = IndexPool_new N (km_buckets km)" by (simp add: BpfMapsManager_new_def)
  moreover have "N \<le> 2 ^ 32" by (simp add: XFW_MAX_RATE_LIMITER_BUCKETS_def limits_defs)
  ultimately have "bucket_inv ?mg" by (simp add: bucket_inv_def pool_inv_new)
  moreover have "copies_ok canon4 canon6 ?mg"
    using assms by (auto simp: no_rules_def copies_ok_def both_copies_def BpfMapsManager_new_def both_def src_synced_def prot_synced_def)
  moreover have "idx_ok (cfg_map ?mg)" using assms by (simp add: no_rules_def BpfMapsManager_new_def)
  ultimately show ?thesis by (simp add: mgr_inv_iff)
qed

lemma set_config_ok:
  assumes "\<forall>i. kernel_ok canon4 canon6 (host_env h i)" "xfw_inv canon4 canon6 x" "canonical_config canon4 canon6 c"
  shows "\<exists>res x'. set_config h c x = Some (res, x') \<and> xfw_inv canon4 canon6 x'
    \<and> (\<forall>e. res = Inl e \<longrightarrow> xfw_config x' = xfw_config x)
    \<and> (res = Inr () \<longrightarrow> abs_mgr (maps_manager x') = config_spec (maps_manager x) c (abs_mgr (maps_manager x)))"
proof (cases "check_modes h c")
  case (Inl e)
  then show ?thesis using assms(2) by (simp add: set_config_def)
next
  case (Inr u)
  let ?cs = "map (\<lambda>(i, c). (host_env h i, c)) (enumerate 0 (config_calls x c))"
  have "map snd ?cs = config_calls x c" by (simp add: o_def case_prod_beta enumerate_eq_zip)
  moreover have "\<forall>(E, c) \<in> set ?cs. kernel_ok canon4 canon6 E \<and> canonical_call canon4 canon6 c"
    using assms(1) config_calls_canonical[OF assms(3)] by (auto simp: enumerate_eq_zip dest: set_zip_rightD)
  ultimately obtain res mg' where r: "mgr_run ?cs (maps_manager x) = Some (res, mg')" "mgr_inv canon4 canon6 mg'"
      "f_active (abs_mgr (maps_manager x)) \<longrightarrow> f_active (abs_mgr mg')"
      "res = Inr () \<longrightarrow> abs_mgr mg' = fold (spec_step (maps_manager x)) (config_calls x c) (abs_mgr (maps_manager x))"
    using mgr_run_ok[of ?cs canon4 canon6 "maps_manager x"] assms(2) by (auto simp: xfw_inv_def)
  have act: "f_active (abs_mgr mg) = rules_active (cfg_map mg)" for mg by (simp add: abs_mgr_def datapath_view_def)
  have ok: "abs_mgr mg' = config_spec (maps_manager x) c (abs_mgr (maps_manager x))" if "res = Inr ()"
    using r(4) that config_calls_spec[of x "abs_mgr (maps_manager x)"] assms(2) by (simp add: xfw_inv_def act)
  then have "rules_active (cfg_map mg')" if "res = Inr ()" using that by (simp add: act[symmetric] config_spec_def)
  then show ?thesis
    using r Inr ok assms(2) by (cases res) (auto simp: set_config_def xfw_inv_def act)
qed

text \<open>
  C6. Whatever the kernel answers, \<open>set_config\<close> returns and keeps the invariant of the
  manager; if it fails the stored configuration is the old one, and if it succeeds the
  datapath enforces exactly what the new configuration asks for.
\<close>

theorem set_config_applies:
  assumes "\<forall>i. kernel_ok canon4 canon6 (host_env h i)" "xfw_inv canon4 canon6 x" "canonical_config canon4 canon6 c"
  shows "\<exists>res x'. set_config h c x = Some (res, x') \<and> xfw_inv canon4 canon6 x'
    \<and> (\<forall>e. res = Inl e \<longrightarrow> xfw_config x' = xfw_config x)
    \<and> (res = Inr () \<longrightarrow> abs_mgr (maps_manager x') = config_spec (maps_manager x) c (abs_mgr (maps_manager x)))"
  using assms by (rule set_config_ok)

text \<open>The trie of the kernel ignores the host bits of a prefix.\<close>

definition trie4 :: "XfwIpv4LpmKey \<Rightarrow> XfwIpv4LpmKey" where
  "trie4 k = k\<lparr>addr4 := bswap32 (drop_bit (32 - unat (prefixlen4 k)) (bswap32 (addr4 k))
     * 2 ^ (32 - unat (prefixlen4 k)))\<rparr>"

definition ideal_env :: mgr_env where
  "ideal_env = \<lparr>ops_v4 = (\<lambda>_. ideal_ops trie4), ops_v6 = (\<lambda>_. ideal_ops id), ops_port = (\<lambda>_. ideal_ops id),
     ops_icmp = ideal_ops id, ops_dst = ideal_ops id, ops_net4 = ideal_ops trie4, ops_net6 = ideal_ops id,
     cfg_get_err = 0, cfg_set_err = 0\<rparr>"

lemma ideal_kernel: "kernel_ok trie4 id ideal_env"
  by (auto simp: kernel_ok_def ideal_env_def intro!: exI[of _ "\<lambda>_. 0"] ideal_ops_laws(1))

definition ideal_host :: host where
  "ideal_host = \<lparr>pinned_dns_egr = Inr True, pinned_syncookies = Inr True, sysctl_tcp_syncookies = Inr 1,
     host_env = (\<lambda>_. ideal_env)\<rparr>"

text \<open>A zeroed configuration map.\<close>

definition zero_cfg :: XfwFilterCfg where
  "zero_cfg = \<lparr>rules = \<lparr>evaluation_mode = False, ip_protocols = [0, 0, 0, 0],
       syncookie = \<lparr>passive_timer_jiff = 0, flood_timer_jiff = 0, sc_enabled = False\<rparr>,
       tcp_anomaly = \<lparr>ta_enabled = False, syn_without_opt_enabled = False, syn_with_payload_enabled = False,
         syn_seqno_enabled = False, syn_seqno_value = 0, bad_flags = [0, 0, 0, 0]\<rparr>,
       tcp_auth_enabled = False, dns_enabled = False, tcp_flags = (\<lambda>_. \<lparr>action = 0, rlimit = \<lparr>bucket_idx = 0, rl_named_idx = 0\<rparr>\<rparr>),
       defaults = (\<lambda>_. \<lparr>action = 0, rlimit = \<lparr>bucket_idx = 0, rl_named_idx = 0\<rparr>\<rparr>)\<rparr>,
     rules_active = False, amap_src = 0, amap_icmp = 0, amap_dst = 0, amap_prot_net = 0,
     rl_window = \<lparr>rl_jiffies = 0, rl_shift = 0, rl_mask = 0\<rparr>, named_rates = (\<lambda>_. \<lparr>rate_packets = 0, rate_bytes = 0\<rparr>)\<rparr>"

definition fresh_maps :: kernel_maps where
  "fresh_maps = \<lparr>km_cfg = zero_cfg,
     km_src = ((Map.empty, Map.empty, Map.empty, Map.empty, Map.empty, Map.empty),
               (Map.empty, Map.empty, Map.empty, Map.empty, Map.empty, Map.empty)),
     km_icmp = (Map.empty, Map.empty), km_dst = (Map.empty, Map.empty),
     km_prot_net = ((Map.empty, Map.empty), (Map.empty, Map.empty)), km_buckets = (\<lambda>_. reset_window)\<rparr>"

definition fresh_xfw :: Xfw where
  "fresh_xfw = \<lparr>maps_manager = BpfMapsManager_new 250 fresh_maps, xfw_config = None\<rparr>"

lemma fresh_xfw_inv: "xfw_inv canon4 canon6 fresh_xfw"
proof -
  have "no_rules fresh_maps"
    by (simp add: no_rules_def fresh_maps_def zero_cfg_def idx_ok_def valid_idx_def both_copies_def map_idx_defs
        is_rate_limit_def action_defs)
  then show ?thesis by (simp add: xfw_inv_def fresh_xfw_def fresh_mgr_inv)
qed

text \<open>UDP from 10.0.0.0/8 is blocked.\<close>

definition block_net :: NetIp where
  "block_net = \<lparr>ni_ratelimit_index = None, ni_flags = \<lparr>isProcNet = False, isSrc = True, isAllowed = False, isTcp = False, isIpv6 = False\<rparr>,
     ni_net4s = [\<lparr>n4_prefixlen = 8, n4_addr = 10\<rparr>], ni_net6s = [], ni_nets = [], ni_ports = []\<rparr>"

definition block_config :: XfwConfig where
  "block_config = XfwConfig_new\<lparr>c_src_rules := [(''blocked'', block_net)]\<rparr>"

lemma block_config_canonical: "canonical_config trie4 id block_config"
proof -
  have "trie4 (lpm4_key \<lparr>n4_prefixlen = 8, n4_addr = 10\<rparr>) = lpm4_key \<lparr>n4_prefixlen = 8, n4_addr = 10\<rparr>" by code_simp
  then show ?thesis
    by (simp add: canonical_config_def canonical_nets_def block_config_def XfwConfig_new_def block_net_def canonical_def)
qed

theorem set_config_applies_witness:
  "\<exists>res x'. set_config ideal_host block_config fresh_xfw = Some (res, x') \<and> xfw_inv trie4 id x'
    \<and> (\<forall>e. res = Inl e \<longrightarrow> xfw_config x' = None)
    \<and> (res = Inr () \<longrightarrow> abs_mgr (maps_manager x') =
         config_spec (maps_manager fresh_xfw) block_config (abs_mgr (maps_manager fresh_xfw)))"
  using set_config_applies[of trie4 id ideal_host fresh_xfw block_config] ideal_kernel fresh_xfw_inv block_config_canonical
  by (simp add: ideal_host_def fresh_xfw_def)



section \<open>A restart of the manager\<close>

text \<open>
  The maps are pinned, so a new process finds them as the old one left them; its snapshots
  are empty and its pool is full.
\<close>

definition kernel_maps_of :: "BpfMapsManager \<Rightarrow> kernel_maps" where
  "kernel_maps_of mg = \<lparr>km_cfg = cfg_map mg, km_src = both src_view (src_maps mg), km_icmp = both bpf_map (icmp_maps mg),
     km_dst = both bpf_map (dst_maps mg), km_prot_net = both prot_view (prot_net_maps mg), km_buckets = storage (pool mg)\<rparr>"

definition restarted :: "BpfMapsManager \<Rightarrow> BpfMapsManager" where
  "restarted mg = BpfMapsManager_new (hz mg) (kernel_maps_of mg)"

text \<open>
  C38. If a TCP flag rule was a rate limit before the manager was restarted, the first
  configuration without it puts the bucket of the old rule into a pool that has it already:
  the pool then holds the bucket twice, and may give it to two rules.
\<close>

theorem restart_duplicates_bucket:
  assumes "is_rate_limit (tcp_flags (rules (cfg_map mg)) flag)"
    "unat (bucket_idx (rlimit (tcp_flags (rules (cfg_map mg)) flag))) < N" "cfg_get_err E = 0" "cfg_set_err E = 0"
  shows "\<exists>mg'. set_tcp_flag_rule E None flag (restarted mg) = (Inr (), mg') \<and> \<not> distinct (free_indices (pool mg'))"
proof -
  let ?b = "bucket_idx (rlimit (tcp_flags (rules (cfg_map mg)) flag))" and ?mg = "restarted mg"
  have new: "cfg_map ?mg = cfg_map mg" "free_indices (pool ?mg) = map word_of_nat [0..<N]"
    by (simp_all add: restarted_def kernel_maps_of_def BpfMapsManager_new_def IndexPool_new_def)
  have "?b = word_of_nat (unat ?b)" by simp
  then have "?b \<in> set (free_indices (pool ?mg))" using assms(2) unfolding new(2) by (metis atLeastLessThan_iff image_eqI set_map set_upt zero_le)
  moreover have "\<not> is_rate_limit (XfwActionRule_of XFW_ACTION_ALLOW)" by (simp add: is_rate_limit_def XfwActionRule_of_def)
  ultimately show ?thesis
    using assms by (auto simp: set_tcp_flag_rule_def get_config_def new(1) reconcile_ratelimit_bucket_def Let_def upload_config_changes_def
        end_tx_def begin_tx_def tx_defs release_all_def pool_release_def)
qed

theorem restart_duplicates_bucket_witness:
  "\<exists>mg'. set_tcp_flag_rule ideal_env None XFW_FLAGS_FILTER_SYN (restarted ((maps_manager fresh_xfw)\<lparr>cfg_map := zero_cfg\<lparr>rules :=
      (rules zero_cfg)\<lparr>tcp_flags := (\<lambda>_. \<lparr>action = XFW_ACTION_RATE_LIMIT, rlimit = \<lparr>bucket_idx = 7, rl_named_idx = 0\<rparr>\<rparr>)\<rparr>\<rparr>\<rparr>)) = (Inr (), mg')
    \<and> \<not> distinct (free_indices (pool mg'))"
  by (rule restart_duplicates_bucket) (simp_all add: is_rate_limit_def limits_defs ideal_env_def)

end
