(* ===== verification/Liveness.thy ===== *)
theory Liveness
  imports SetConfig
begin

text \<open>
  A valid configuration is accepted: while the kernel performs what it is asked to do, a
  configuration without duplicates and within the limits is applied. The point is the bucket
  pool: it holds twice as many buckets as there can be rules, so the new rules find buckets
  while the old ones still own theirs.
\<close>


section \<open>Enough buckets\<close>

definition sizes_ok :: "BpfMapsManager \<Rightarrow> bool" where
  "sizes_ok mg \<longleftrightarrow> length (snapshot (active_icmp mg)) \<le> XFW_MAX_ICMP_RULES
     \<and> length (snapshot (active_dst mg)) \<le> XFW_MAX_DST_RULES"

abbreviation free :: "'m tx_state \<Rightarrow> nat" where
  "free t \<equiv> length (free_indices (fst t))"

lemma rule_bucket_key: "rule_bucket (map_of m k) = Some b \<Longrightarrow> k \<in> fst ` set m"
  by (metis map_of_eq_None_iff option.distinct(1) rule_bucket_simps(1))

lemma owned_bound:
  assumes "sizes_ok mg"
  shows "finite (ran (place_bucket mg))" "2 * card (ran (place_bucket mg)) \<le> N"
proof -
  let ?A = "Icmp_rule ` fst ` set (snapshot (active_icmp mg))" and ?B = "Dst_rule ` fst ` set (snapshot (active_dst mg))"
  let ?C = "Default_rule ` set (src_indices @ icmp_indices @ dst_indices)" and ?D = "Flag_rule ` {XFW_FLAGS_FILTER_SYN, XFW_FLAGS_FILTER_RST}"
  have sub: "dom (place_bucket mg) \<subseteq> ?A \<union> ?B \<union> ?C \<union> ?D"
  proof
    fix p assume p: "p \<in> dom (place_bucket mg)"
    show "p \<in> ?A \<union> ?B \<union> ?C \<union> ?D"
    proof (cases p)
      case (Icmp_rule k)
      then show ?thesis using p rule_bucket_key[of "snapshot (active_icmp mg)" k] by auto
    next
      case (Dst_rule k)
      then show ?thesis using p rule_bucket_key[of "snapshot (active_dst mg)" k] by auto
    next
      case (Default_rule i)
      then show ?thesis using all_defaults[of i] by auto
    next
      case (Flag_rule g)
      then show ?thesis by (cases g) auto
    qed
  qed
  have c: "card (?A \<union> ?B \<union> ?C \<union> ?D) \<le> XFW_MAX_ICMP_RULES + XFW_MAX_DST_RULES + 14 + 2"
  proof -
    have "card (f ` fst ` set xs) \<le> length xs" for f :: "'a \<Rightarrow> rule_place" and xs :: "('a \<times> 'b) list"
      by (metis card_image_le card_length finite_imageI finite_set image_image le_trans)
    then have "card ?A \<le> XFW_MAX_ICMP_RULES" "card ?B \<le> XFW_MAX_DST_RULES"
      using assms unfolding sizes_ok_def by (meson le_trans)+
    moreover have "card ?C \<le> 14" using card_image_le[of "set (src_indices @ icmp_indices @ dst_indices)" Default_rule]
        card_length[of "src_indices @ icmp_indices @ dst_indices"]
      by (simp add: src_indices_def icmp_indices_def dst_indices_def)
    moreover have "card ?D \<le> 2" using card_image_le[of "{XFW_FLAGS_FILTER_SYN, XFW_FLAGS_FILTER_RST}" Flag_rule] by simp
    ultimately show ?thesis
      using card_Un_le[of ?A ?B] card_Un_le[of "?A \<union> ?B" ?C] card_Un_le[of "?A \<union> ?B \<union> ?C" ?D] by linarith
  qed
  have fin: "finite (?A \<union> ?B \<union> ?C \<union> ?D)" by simp
  have r: "ran (place_bucket mg) = (the \<circ> place_bucket mg) ` dom (place_bucket mg)" by (force simp: ran_def dom_def image_iff)
  show "finite (ran (place_bucket mg))" unfolding r using finite_subset[OF sub fin] by simp
  have "card (ran (place_bucket mg)) \<le> card (dom (place_bucket mg))"
    unfolding r by (rule card_image_le[OF finite_subset[OF sub fin]])
  also have "\<dots> \<le> XFW_MAX_ICMP_RULES + XFW_MAX_DST_RULES + 14 + 2" using card_mono[OF fin sub] c by linarith
  finally show "2 * card (ran (place_bucket mg)) \<le> N" by (simp add: XFW_MAX_RATE_LIMITER_BUCKETS_def limits_defs)
qed

lemma room:
  assumes "mgr_inv canon4 canon6 mg" "sizes_ok mg"
  shows "XFW_MAX_DST_RULES + XFW_MAX_ICMP_RULES + 14 \<le> free (begin_tx mg)"
proof -
  let ?F = "free_indices (pool mg)" and ?O = "ran (place_bucket mg)"
  have p: "distinct ?F" "set ?F \<inter> ?O = {}" "set ?F \<union> ?O = word_of_nat ` {0..<N}"
    using assms(1) by (simp_all add: mgr_inv_iff bucket_inv_def pool_inv_def)
  have "inj_on (word_of_nat :: nat \<Rightarrow> u32) {0..<N}"
    by (rule inj_onI) (simp add: XFW_MAX_RATE_LIMITER_BUCKETS_def limits_defs word_of_nat_eq_iff take_bit_nat_eq_self)
  then have "N = card (set ?F \<union> ?O)" using p(3) by (simp add: card_image)
  also have "\<dots> = length ?F + card ?O"
    using p(1,2) owned_bound(1)[OF assms(2)] by (simp add: card_Un_disjoint distinct_card)
  finally show ?thesis using owned_bound(2)[OF assms(2)] by (simp add: begin_tx_def XFW_MAX_RATE_LIMITER_BUCKETS_def limits_defs)
qed


text \<open>Every key takes at most one bucket.\<close>

lemma reconcile_free:
  assumes "reconcile_ratelimit_bucket new old t = (x, t')"
  shows "free t \<le> Suc (free t')" "0 < free t \<Longrightarrow> \<exists>r. x = Inr r" "new = None \<Longrightarrow> free t' = free t"
proof -
  have al: "tx_allocate t = Inr (i, t1) \<Longrightarrow> free t = Suc (free t1)" for i t1
    by (auto simp: tx_allocate_def pool_allocate_def Let_def split: if_splits prod.splits)
  show "free t \<le> Suc (free t')" "new = None \<Longrightarrow> free t' = free t"
    using assms by (auto simp: reconcile_ratelimit_bucket_def Let_def split: if_splits sum.splits prod.splits dest!: al)
  show "0 < free t \<Longrightarrow> \<exists>r. x = Inr r"
    using reconcile_fails_only_when_exhausted[of new old t _ t'] assms by (cases x) auto
qed

lemma reconcile_works:
  assumes "0 < free t"
  obtains r' t' where "reconcile_ratelimit_bucket (Some r) old t = (Inr (Some r'), t')" "free t \<le> Suc (free t')"
proof -
  obtain x t' where x: "reconcile_ratelimit_bucket (Some r) old t = (x, t')" by (metis surj_pair)
  then show thesis using that reconcile_free[OF x] reconcile_rule assms by metis
qed

lemma add_bucketed_works:
  assumes "length ks \<le> free t" "distinct (map fst new @ ks)"
  shows "\<exists>new' t'. add_bucketed active ks r new t = (Inr new', t') \<and> map fst new' = map fst new @ ks \<and> free t \<le> free t' + length ks"
  using assms
proof (induction ks arbitrary: r new t)
  case (Cons k ks)
  obtain r' t1 where r: "reconcile_ratelimit_bucket (Some r) (map_of active k) t = (Inr (Some r'), t1)" "free t \<le> Suc (free t1)"
    by (rule reconcile_works[of t r "map_of active k"]) (use Cons.prems(1) in auto)
  have "map_of new k = None" using Cons.prems(2) by (auto simp: map_of_eq_None_iff)
  moreover have "length ks \<le> free t1" "distinct (map fst (new @ [(k, r')]) @ ks)" using Cons.prems r(2) by auto
  ultimately show ?case using Cons.IH[of t1 "new @ [(k, r')]" r'] r by (auto simp: try_emplace_def)
qed simp

lemma add_all_bucketed_works:
  assumes "length (concat (map fst xs)) \<le> free t" "distinct (map fst new @ concat (map fst xs))"
  shows "\<exists>new' t'. add_all_bucketed active xs new t = (Inr new', t') \<and> map fst new' = map fst new @ concat (map fst xs)
    \<and> free t \<le> free t' + length (concat (map fst xs))"
  using assms
proof (induction xs arbitrary: new t)
  case (Cons x xs)
  obtain ks r where x: "x = (ks, r)" by (cases x)
  obtain n1 t1 where a: "add_bucketed active ks r new t = (Inr n1, t1)" "map fst n1 = map fst new @ ks" "free t \<le> free t1 + length ks"
    using add_bucketed_works[of ks t new active r] Cons.prems unfolding x by fastforce
  have "length (concat (map fst xs)) \<le> free t1" "distinct (map fst n1 @ concat (map fst xs))"
    using Cons.prems a(2,3) by (auto simp: x)
  from Cons.IH[OF this] show ?case using a by (auto simp: x)
qed simp

lemma release_removed_free: "free (release_removed new xs t) = free t"
proof (induction new xs t rule: release_removed.induct)
  case (2 new k r rest t)
  obtain x t' where "reconcile_ratelimit_bucket None (Some r) t = (x, t')" by (metis surj_pair)
  then show ?case using 2 reconcile_free(3)[of None "Some r" t x t'] by simp
qed simp

lemma apply_defaults_works:
  assumes "length indices \<le> free t"
  shows "\<exists>to' t'. apply_defaults ds indices a to t = (Inr to', t')"
  using assms
proof (induction indices arbitrary: to t)
  case (Cons i indices)
  obtain r' t1 where r: "reconcile_ratelimit_bucket (Some (default_rule_of ds a i)) (Some (to i)) t = (Inr (Some r'), t1)"
      "free t \<le> Suc (free t1)"
    by (rule reconcile_works[of t "default_rule_of ds a i" "Some (to i)"]) (use Cons.prems in auto)
  have "apply_defaults ds (i # indices) a to t = apply_defaults ds indices a (to(i := r')) t1"
    using r(1) by (simp add: Let_def default_rule_of_def)
  moreover have "length indices \<le> free t1" using Cons.prems r(2) by simp
  ultimately show ?case using Cons.IH by metis
qed simp

lemma switch_works:
  assumes "cfg_set_err E = 0" "length indices \<le> free t"
  shows "\<exists>mg' t' to. switch_rules E ds indices a cf t mg = (Inr (), mg') \<and> mg' = end_tx t' (mg\<lparr>cfg_map := set_defaults cf to\<rparr>)"
proof -
  obtain to t' where "apply_defaults ds indices a (defaults (rules cf)) t = (Inr to, t')"
    using apply_defaults_works[OF assms(2)] by blast
  then have "switch_rules E ds indices a cf t mg = (Inr (), end_tx (tx_commit reset_rlimit_bucket t') (mg\<lparr>cfg_map := set_defaults cf to\<rparr>))"
    using assms(1) by (simp add: switch_rules_def upload_config_changes_def)
  then show ?thesis by blast
qed



section \<open>Valid configurations\<close>

lemma emplace_all_works: "distinct (map fst m @ ks) \<Longrightarrow> emplace_all ks v m = Inr (m @ keys_with ks v)"
  using emplace_all_fails[of ks v m] emplace_all_spec[of ks v m]
  by (cases "emplace_all ks v m") auto

definition fresh_keys :: "(NetIp \<Rightarrow> 'k list) \<Rightarrow> bool \<Rightarrow> ('k, XfwSrcRule) Snapshot \<Rightarrow> NetIps \<Rightarrow> bool" where
  "fresh_keys f tcp m rs \<longleftrightarrow> distinct (map fst (m @ entries f tcp rs))"

definition user_keys_distinct :: "src_snapshots \<Rightarrow> NetIps \<Rightarrow> bool" where
  "user_keys_distinct S rs \<longleftrightarrow> fresh_keys user4 False (s4_udp S) rs \<and> fresh_keys user4 True (s4_tcp S) rs
     \<and> fresh_keys user6 False (s6_udp S) rs \<and> fresh_keys user6 True (s6_tcp S) rs
     \<and> fresh_keys ni_ports False (sp_udp S) rs \<and> fresh_keys ni_ports True (sp_tcp S) rs"

lemma fresh_keys_Cons:
  assumes "fresh_keys f tcp m ((a, n) # rs)"
  shows "isTcp (ni_flags n) = tcp \<Longrightarrow> distinct (map fst m @ f n)"
    "isTcp (ni_flags n) = tcp \<Longrightarrow> fresh_keys f tcp (m @ keys_with (f n) r) rs"
    "isTcp (ni_flags n) \<noteq> tcp \<Longrightarrow> fresh_keys f tcp m rs"
  using assms by (auto simp: fresh_keys_def o_def)

lemma user_keys_distinct_Cons:
  assumes "user_keys_distinct S ((a, n) # rs)"
  shows "isTcp (ni_flags n) \<Longrightarrow> user_keys_distinct (S\<lparr>s4_tcp := s4_tcp S @ keys_with (user4 n) r,
           s6_tcp := s6_tcp S @ keys_with (user6 n) r, sp_tcp := sp_tcp S @ keys_with (ni_ports n) r\<rparr>) rs"
    "\<not> isTcp (ni_flags n) \<Longrightarrow> user_keys_distinct (S\<lparr>s4_udp := s4_udp S @ keys_with (user4 n) r,
           s6_udp := s6_udp S @ keys_with (user6 n) r, sp_udp := sp_udp S @ keys_with (ni_ports n) r\<rparr>) rs"
  using assms by (auto simp: user_keys_distinct_def intro: fresh_keys_Cons(2,3))

lemma add_user_rules_works: "user_keys_distinct S rs \<Longrightarrow> \<exists>S'. add_user_rules rs S = Inr S'"
proof (induction rs arbitrary: S)
  case (Cons x rs)
  obtain a n where x: "x = (a, n)" by (cases x)
  note d = user_keys_distinct_Cons[OF Cons.prems[unfolded x], of "src_rule_of n"]
  show ?case
  proof (cases "isTcp (ni_flags n)")
    case True
    have f: "fresh_keys user4 True (s4_tcp S) ((a, n) # rs)" "fresh_keys user6 True (s6_tcp S) ((a, n) # rs)"
        "fresh_keys ni_ports True (sp_tcp S) ((a, n) # rs)"
      using Cons.prems by (simp_all add: x user_keys_distinct_def)
    have e: "distinct (map fst (s4_tcp S) @ user4 n)" "distinct (map fst (s6_tcp S) @ user6 n)"
        "distinct (map fst (sp_tcp S) @ ni_ports n)"
      using f[THEN fresh_keys_Cons(1)] True by blast+
    note w = e[THEN emplace_all_works, of "src_rule_of n"]
    show ?thesis using d(1)[OF True] Cons.IH True by (simp add: x Let_def w[unfolded user4_def user6_def] user4_def user6_def)
  next
    case False
    have f: "fresh_keys user4 False (s4_udp S) ((a, n) # rs)" "fresh_keys user6 False (s6_udp S) ((a, n) # rs)"
        "fresh_keys ni_ports False (sp_udp S) ((a, n) # rs)"
      using Cons.prems by (simp_all add: x user_keys_distinct_def)
    have e: "distinct (map fst (s4_udp S) @ user4 n)" "distinct (map fst (s6_udp S) @ user6 n)"
        "distinct (map fst (sp_udp S) @ ni_ports n)"
      using f[THEN fresh_keys_Cons(1)] False by blast+
    note w = e[THEN emplace_all_works, of "src_rule_of n"]
    show ?thesis using d(2)[OF False] Cons.IH False by (simp add: x Let_def w[unfolded user4_def user6_def] user4_def user6_def)
  qed
qed simp

text \<open>No prefix or port twice for the same protocol, and not too many of them.\<close>

definition valid_src :: "NetIps \<Rightarrow> bool" where
  "valid_src rs \<longleftrightarrow> user_keys_distinct no_src_snapshots rs \<and> (\<forall>tcp. card (dom (src4_spec rs tcp)) \<le> XFW_MAX_SRC_IP_RULES
     \<and> card (dom (src6_spec rs tcp)) \<le> XFW_MAX_SRC_IP_RULES \<and> card (dom (src_port_spec rs tcp)) \<le> XFW_MAX_PORTS)"

lemma length_card_dom: "distinct (map fst m) \<Longrightarrow> length m = card (dom (map_of m))"
  by (metis distinct_card dom_map_of_conv_image_fst length_map set_map)

lemma build_src_works:
  assumes "valid_src rs"
  shows "\<exists>S. build_src_snapshots rs = Inr S"
proof -
  have v: "user_keys_distinct no_src_snapshots rs" "src_distinct no_src_snapshots"
    using assms by (simp_all add: valid_src_def src_distinct_def no_src_snapshots_def)
  obtain S0 where S0: "add_user_rules rs no_src_snapshots = Inr S0" using add_user_rules_works[OF v(1)] by blast
  have u: "src_distinct S0" "s4_udp S0 = entries user4 False rs" "s4_tcp S0 = entries user4 True rs"
    "s6_udp S0 = entries user6 False rs" "s6_tcp S0 = entries user6 True rs"
    "sp_udp S0 = entries ni_ports False rs" "sp_tcp S0 = entries ni_ports True rs"
    using add_user_rules_spec[OF S0 v(2)] by (simp_all add: no_src_snapshots_def)
  define S where "S = add_geo_rules rs S0"
  note g = add_geo_rules_spec[OF u(1) S_def]
  have m: "map_of (s4_udp S) = src4_spec rs False" "map_of (s4_tcp S) = src4_spec rs True"
    "map_of (s6_udp S) = src6_spec rs False" "map_of (s6_tcp S) = src6_spec rs True"
    by (rule ext, simp add: g u src4_spec_def src6_spec_def map_add_def split: option.split)+
  have p: "map_of (sp_udp S) = src_port_spec rs False" "map_of (sp_tcp S) = src_port_spec rs True"
    by (simp_all add: g u src_port_spec_def)
  have "\<not> src_limits_exceeded S"
    using g(1) assms by (simp add: src_limits_exceeded_def src_distinct_def length_card_dom m p valid_src_def not_less)
  then show ?thesis using S0 by (simp add: build_src_snapshots_def Let_def S_def)
qed

definition valid_keys :: "('k list \<times> XfwActionRule) list \<Rightarrow> nat \<Rightarrow> bool" where
  "valid_keys xs limit \<longleftrightarrow> distinct (concat (map fst xs)) \<and> length (concat (map fst xs)) \<le> limit"

definition prot_keys_distinct :: "(XfwIpv4LpmKey, int) Snapshot \<Rightarrow> (XfwIpv6LpmKey, int) Snapshot \<Rightarrow> NetIps \<Rightarrow> bool" where
  "prot_keys_distinct m4 m6 rs \<longleftrightarrow> distinct (map fst m4 @ concat (map (user4 \<circ> snd) rs))
     \<and> distinct (map fst m6 @ concat (map (user6 \<circ> snd) rs))"

definition valid_prot :: "NetIps \<Rightarrow> bool" where
  "valid_prot rs \<longleftrightarrow> prot_keys_distinct [] [] rs \<and> card (prot4_spec rs) \<le> XFW_MAX_PROTECTED_NET_RULES
     \<and> card (prot6_spec rs) \<le> XFW_MAX_PROTECTED_NET_RULES"

lemma add_prot_nets_works: "prot_keys_distinct m4 m6 rs \<Longrightarrow> \<exists>m4' m6'. add_prot_nets rs m4 m6 = Inr (m4', m6')"
proof (induction rs arbitrary: m4 m6)
  case (Cons x rs)
  obtain a n where x: "x = (a, n)" by (cases x)
  have d: "distinct (map fst m4 @ user4 n)" "distinct (map fst m6 @ user6 n)"
    using Cons.prems by (auto simp: prot_keys_distinct_def x)
  have "add_prot_nets (x # rs) m4 m6 = add_prot_nets rs (m4 @ keys_with (user4 n) 1) (m6 @ keys_with (user6 n) 1)"
    using emplace_all_works[OF d(1)] emplace_all_works[OF d(2)] unfolding x user4_def user6_def by simp
  moreover have "prot_keys_distinct (m4 @ keys_with (user4 n) 1) (m6 @ keys_with (user6 n) 1) rs"
    using Cons.prems by (simp add: prot_keys_distinct_def x o_def)
  ultimately show ?case using Cons.IH by metis
qed simp



section \<open>Every valid call succeeds\<close>

definition env_works where
  "env_works canon4 canon6 E \<longleftrightarrow> kernel_ok canon4 canon6 E \<and> (\<forall>b. never_fails (ops_v4 E b)) \<and> (\<forall>b. never_fails (ops_v6 E b))
     \<and> (\<forall>b. never_fails (ops_port E b)) \<and> never_fails (ops_icmp E) \<and> never_fails (ops_dst E)
     \<and> never_fails (ops_net4 E) \<and> never_fails (ops_net6 E) \<and> cfg_get_err E = 0 \<and> cfg_set_err E = 0"

definition valid_rates :: "BpfMapsManager \<Rightarrow> Ratelimits \<Rightarrow> bool" where
  "valid_rates mg rls \<longleftrightarrow> (\<forall>r \<in> set (ratelimits rls). rl_state r = Active \<longrightarrow> rl_pps r \<le> rl_max_rate mg \<and> rl_bps r \<le> rl_max_rate mg)"

fun valid_call :: "BpfMapsManager \<Rightarrow> mgr_call \<Rightarrow> bool" where
  "valid_call mg (Set_ratelimits rls) \<longleftrightarrow> valid_rates mg rls"
| "valid_call mg (Set_src_rules rs ds) \<longleftrightarrow> valid_src rs"
| "valid_call mg (Set_icmp_rules rs ds) \<longleftrightarrow> valid_keys (icmp_keys rs) XFW_MAX_ICMP_RULES"
| "valid_call mg (Set_dst_rules rs ds) \<longleftrightarrow> valid_keys (dst_keys rs) XFW_MAX_DST_RULES"
| "valid_call mg (Set_prot_net_settings rs) \<longleftrightarrow> valid_prot rs"
| "valid_call mg _ \<longleftrightarrow> True"

definition call_works :: "mgr_result option \<Rightarrow> bool" where
  "call_works x \<longleftrightarrow> (\<exists>mg'. x = Some (Inr (), mg') \<and> sizes_ok mg')"

lemma sizes_ok_cong:
  "snapshot (active_icmp mg') = snapshot (active_icmp mg) \<Longrightarrow> snapshot (active_dst mg') = snapshot (active_dst mg)
     \<Longrightarrow> sizes_ok mg' = sizes_ok mg"
  by (simp add: sizes_ok_def)

lemma sizes_end_tx [simp]: "sizes_ok (end_tx t mg) = sizes_ok mg"
  by (rule sizes_ok_cong) (simp_all add: active_icmp_def active_dst_def)

lemma replace_works:
  assumes "\<exists>pl n. batch_laws canon pl n K" "synced canon sm" "distinct (map fst new)" "canonical canon (keys_of new)" "never_fails K"
  shows "\<exists>sm'. replace K new sm = Some (True, sm') \<and> snapshot sm' = new \<and> synced canon sm'"
proof -
  obtain pl n where laws: "batch_laws canon pl n K" using assms(1) by blast
  have "canonical canon (keys_of (snapshot sm) \<union> keys_of new)"
    using assms(2,4) by (auto simp: synced_def canonical_def)
  note spec = replace_spec[OF laws _ assms(3) canonical_inj[OF this]]
  obtain ok sm' where r: "replace K new sm = Some (ok, sm')" "synced canon sm'" "ok \<longrightarrow> snapshot sm' = new"
    using replace_synced[OF assms(1-4)] by blast
  have "ok" using spec assms(2,5) r(1) by (simp add: synced_def) 
  then show ?thesis using r by simp
qed

lemma scale_ratelimits_works:
  assumes "\<forall>(i, r) \<in> set xs. rl_state r = Active \<longrightarrow> rl_pps r \<le> rl_max_rate mg \<and> rl_bps r \<le> rl_max_rate mg"
  shows "\<exists>rates'. scale_ratelimits mg xs rates = Inr rates'"
  using assms by (induction mg xs rates rule: scale_ratelimits.induct) (auto simp: not_less)

lemma cfg_only_works:
  assumes E: "cfg_get_err E = 0" "cfg_set_err E = 0" and sz: "sizes_ok mg" and v: "valid_call mg c"
    and c: "c = Set_ratelimits rls \<or> c = Set_simple_rules conf \<or> c = Set_tcp_anomaly_rule f \<or> c = Turn_filtration_on"
  shows "call_works (mgr_step E c mg)"
proof -
  have up: "call_works (Some (upload_config_changes E cf None mg))"
    if "amap_icmp cf = amap_icmp (cfg_map mg)" "amap_dst cf = amap_dst (cfg_map mg)" for cf
    using sz that E(2) sizes_ok_cong[of "mg\<lparr>cfg_map := cf\<rparr>" mg]
    by (simp add: call_works_def upload_config_changes_def active_icmp_def active_dst_def)
  from c show ?thesis
  proof (elim disjE)
    assume c: "c = Set_ratelimits rls"
    have "\<forall>(i, r) \<in> set (zip slots (ratelimits rls)). rl_state r = Active \<longrightarrow> rl_pps r \<le> rl_max_rate mg \<and> rl_bps r \<le> rl_max_rate mg"
      using v by (auto simp: c valid_rates_def dest: set_zip_rightD)
    from scale_ratelimits_works[OF this, of "named_rates (cfg_map mg)"] show ?thesis
      using E by (auto simp: c set_ratelimits_def get_config_def up)
  qed (use E in \<open>simp_all add: set_simple_rules_def set_tcp_anomaly_rule_def turn_filtration_on_def get_config_def Let_def up\<close>)
qed

lemma set_tcp_flag_rule_works:
  assumes E: "cfg_get_err E = 0" "cfg_set_err E = 0" and inv: "mgr_inv canon4 canon6 mg" and sz: "sizes_ok mg"
  shows "call_works (Some (set_tcp_flag_rule E f flag mg))"
proof -
  have "0 < free (begin_tx mg)" using room[OF inv sz] unfolding limits_defs by linarith
  then obtain r t where "reconcile_ratelimit_bucket (Some (case f of Some i \<Rightarrow> \<lparr>action = XFW_ACTION_RATE_LIMIT, rlimit = invalid_rlimit\<lparr>rl_named_idx := i\<rparr>\<rparr>
      | None \<Rightarrow> XfwActionRule_of XFW_ACTION_ALLOW)) (Some (tcp_flags (rules (cfg_map mg)) flag)) (begin_tx mg) = (Inr (Some r), t)"
    by (rule reconcile_works)
  then show ?thesis
    using E sz sizes_ok_cong[of "mg\<lparr>cfg_map := (cfg_map mg)\<lparr>rules := (rules (cfg_map mg))\<lparr>tcp_flags := (tcp_flags (rules (cfg_map mg)))(flag := r)\<rparr>\<rparr>\<rparr>" mg]
    by (simp add: call_works_def set_tcp_flag_rule_def get_config_def upload_config_changes_def active_icmp_def active_dst_def Let_def)
qed


lemma set_src_rules_works:
  assumes E: "env_works canon4 canon6 E" and inv: "mgr_inv canon4 canon6 mg" and sz: "sizes_ok mg"
    and c: "canonical_nets canon4 canon6 rs" and v: "valid_src rs"
  shows "call_works (set_src_rules E rs ds mg)"
proof -
  obtain S where S: "build_src_snapshots rs = Inr S" using build_src_works[OF v] by blast
  let ?i = "next_map_idx (amap_src (cfg_map mg))"
  let ?r = "SELECT_SHADOW_MAP (src_maps mg) ?i"
  have sy: "src_synced canon4 canon6 ?r" using inv by (simp add: mgr_inv_iff copies_ok_def both_copies_select)
  have k: "kernel_ok canon4 canon6 E" "cfg_get_err E = 0" "cfg_set_err E = 0"
    and nf: "never_fails (ops_v4 E b)" "never_fails (ops_v6 E b)" "never_fails (ops_port E b)" for b
    using E by (simp_all add: env_works_def)
  have laws: "\<exists>pl n. batch_laws canon4 pl n (ops_v4 E b)" "\<exists>pl n. batch_laws canon6 pl n (ops_v6 E b)"
    "\<exists>pl n. batch_laws id pl n (ops_port E b)" for b using k(1) by (simp_all add: kernel_ok_def)
  note d = build_src_snapshots_spec(1)[OF S, unfolded src_distinct_def] and cs = src_snapshots_canonical[OF c S]
  note s = sy[unfolded src_synced_def]
  have "\<exists>m. replace (ops_v4 E False) (s4_udp S) (v4_udp ?r) = Some (True, m)" "\<exists>m. replace (ops_v4 E True) (s4_tcp S) (v4_tcp ?r) = Some (True, m)"
    "\<exists>m. replace (ops_v6 E False) (s6_udp S) (v6_udp ?r) = Some (True, m)" "\<exists>m. replace (ops_v6 E True) (s6_tcp S) (v6_tcp ?r) = Some (True, m)"
    "\<exists>m. replace (ops_port E False) (sp_udp S) (port_udp ?r) = Some (True, m)" "\<exists>m. replace (ops_port E True) (sp_tcp S) (port_tcp ?r) = Some (True, m)"
    using replace_works[OF laws(1) _ _ cs(1) nf(1)] replace_works[OF laws(1) _ _ cs(2) nf(1)] replace_works[OF laws(2) _ _ cs(3) nf(2)]
      replace_works[OF laws(2) _ _ cs(4) nf(2)] replace_works[OF laws(3) _ _ canonical_id nf(3)] d s by blast+
  then obtain r where r: "verify_all (replace_src_maps E S) ?r = Some (True, r)"
    by (elim exE) (simp add: replace_src_maps_def)
  let ?mg = "mg\<lparr>src_maps := put_shadow_map (src_maps mg) ?i r\<rparr>" and ?cf = "(cfg_map mg)\<lparr>amap_src := ?i\<rparr>"
  have "length src_indices \<le> free (begin_tx ?mg)" using room[OF inv sz] by (simp add: begin_tx_def src_indices_def limits_defs)
  from switch_works[OF k(3) this, of ds XFW_ACTION_ALLOW ?cf ?mg] obtain t to where
      sw: "switch_rules E ds src_indices XFW_ACTION_ALLOW ?cf (begin_tx ?mg) ?mg = (Inr (), end_tx t (?mg\<lparr>cfg_map := set_defaults ?cf to\<rparr>))"
    by blast
  have "sizes_ok (?mg\<lparr>cfg_map := set_defaults ?cf to\<rparr>)"
    using sz sizes_ok_cong[of "?mg\<lparr>cfg_map := set_defaults ?cf to\<rparr>" mg] by (simp add: active_icmp_def active_dst_def set_defaults_def)
  then show ?thesis
    using S k(2) r sw by (simp add: call_works_def set_src_rules_def get_config_def get_maps_by_index_next Let_def)
qed

lemma set_prot_net_settings_works:
  assumes E: "env_works canon4 canon6 E" and inv: "mgr_inv canon4 canon6 mg" and sz: "sizes_ok mg"
    and c: "canonical_nets canon4 canon6 rs" and v: "valid_prot rs"
  shows "call_works (set_prot_net_settings E rs mg)"
proof -
  obtain m4 m6 where ad: "add_prot_nets rs [] [] = Inr (m4, m6)" using add_prot_nets_works v by (metis valid_prot_def)
  have sp: "distinct (map fst m4)" "distinct (map fst m6)" "keys_of m4 = prot4_spec rs" "keys_of m6 = prot6_spec rs"
    using add_prot_nets_spec[OF ad] by (simp_all add: keys_of_def)
  have len: "length m4 \<le> XFW_MAX_PROTECTED_NET_RULES" "length m6 \<le> XFW_MAX_PROTECTED_NET_RULES"
    using v sp by (simp_all add: length_card_dom keys_of_dom[symmetric] valid_prot_def)
  have c4: "canonical canon4 (keys_of m4)"
    unfolding sp(3) prot4_spec_def canonical_def by (auto dest: canonical_nets_keys(1)[OF c])
  have c6: "canonical canon6 (keys_of m6)"
    unfolding sp(4) prot6_spec_def canonical_def by (auto dest: canonical_nets_keys(3)[OF c])
  let ?i = "next_map_idx (amap_prot_net (cfg_map mg))"
  let ?r = "SELECT_SHADOW_MAP (prot_net_maps mg) ?i"
  have sy: "synced canon4 (pn_v4 ?r)" "synced canon6 (pn_v6 ?r)"
    using inv both_copies_select[of "prot_synced canon4 canon6" "prot_net_maps mg" ?i] by (simp_all add: mgr_inv_iff copies_ok_def prot_synced_def)
  have k: "kernel_ok canon4 canon6 E" "cfg_get_err E = 0" "cfg_set_err E = 0" "never_fails (ops_net4 E)" "never_fails (ops_net6 E)"
    using E by (simp_all add: env_works_def)
  have laws: "\<exists>pl n. batch_laws canon4 pl n (ops_net4 E)" "\<exists>pl n. batch_laws canon6 pl n (ops_net6 E)"
    using k(1) by (simp_all add: kernel_ok_def)
  obtain r where r: "verify_all (replace_prot_maps E m4 m6) ?r = Some (True, r)"
    using replace_works[OF laws(1) sy(1) sp(1) c4 k(4)] replace_works[OF laws(2) sy(2) sp(2) c6 k(5)]
    by (auto simp: replace_prot_maps_def)
  let ?mg = "mg\<lparr>prot_net_maps := put_shadow_map (prot_net_maps mg) ?i r, cfg_map := (cfg_map mg)\<lparr>amap_prot_net := ?i\<rparr>\<rparr>"
  have "sizes_ok ?mg" using sz sizes_ok_cong[of ?mg mg] by (simp add: active_icmp_def active_dst_def)
  then show ?thesis
    using ad len k(2,3) r by (simp add: call_works_def set_prot_net_settings_def get_config_def get_maps_by_index_next Let_def
        upload_config_changes_def not_less)
qed


context bucketed_rules
begin

lemma update_works:
  assumes inv: "mgr_inv c4 c6 mg" and sz: "sizes_ok mg" and K: "\<exists>pl n. batch_laws id pl n K" "never_fails K"
    and v: "valid_keys xs limit" "limit \<le> XFW_MAX_DST_RULES + XFW_MAX_ICMP_RULES" and a: "active = snapshot (SELECT_SHADOW_MAP (maps mg) (amap (cfg_map mg)))"
  shows "\<exists>new t m. add_all_bucketed active xs [] (begin_tx mg) = (Inr new, t) \<and> length new \<le> limit
    \<and> replace K new (SELECT_SHADOW_MAP (maps mg) (next_map_idx (amap (cfg_map mg)))) = Some (True, m) \<and> snapshot m = new
    \<and> 14 \<le> free (release_removed new active t)"
proof -
  let ?n = "length (concat (map fst xs))"
  have k: "?n \<le> free (begin_tx mg)" "distinct (map fst [] @ concat (map fst xs))" "?n + 14 \<le> free (begin_tx mg)"
    using v room[OF inv sz] by (simp_all add: valid_keys_def)
  obtain new t where ad: "add_all_bucketed active xs [] (begin_tx mg) = (Inr new, t)" "map fst new = concat (map fst xs)"
      "free (begin_tx mg) \<le> free t + ?n"
    using add_all_bucketed_works[OF k(1,2), of active] by auto
  have "synced id (SELECT_SHADOW_MAP (maps mg) (next_map_idx (amap (cfg_map mg))))"
    by (rule both_copies_select[OF inv_copies[OF inv]])
  moreover have "distinct (map fst new)" using v(1) ad(2) by (simp add: valid_keys_def)
  ultimately obtain m where m: "replace K new (SELECT_SHADOW_MAP (maps mg) (next_map_idx (amap (cfg_map mg)))) = Some (True, m)" "snapshot m = new"
    using replace_works[OF K(1) _ _ canonical_id K(2)] by blast
  have "length new \<le> limit" using v(1) ad(2) by (metis length_map valid_keys_def)
  moreover have "14 \<le> free (release_removed new active t)" using k(3) ad(3) by (simp add: release_removed_free)
  ultimately show ?thesis using ad(1) m by blast
qed

end

lemma set_icmp_rules_works:
  assumes E: "env_works canon4 canon6 E" and inv: "mgr_inv canon4 canon6 mg" and sz: "sizes_ok mg"
    and v: "valid_keys (icmp_keys rs) XFW_MAX_ICMP_RULES"
  shows "call_works (set_icmp_rules E rs ds mg)"
proof -
  let ?i = "next_map_idx (amap_icmp (cfg_map mg))" and ?cf = "cfg_map mg"
  define act where "act = snapshot (SELECT_SHADOW_MAP (icmp_maps mg) (amap_icmp ?cf))"
  have k: "\<exists>pl n. batch_laws id pl n (ops_icmp E)" "never_fails (ops_icmp E)" "cfg_get_err E = 0" "cfg_set_err E = 0"
    using E by (simp_all add: env_works_def kernel_ok_def)
  have lim: "XFW_MAX_ICMP_RULES \<le> XFW_MAX_DST_RULES + XFW_MAX_ICMP_RULES" by simp
  obtain new t m where u: "add_all_bucketed act (icmp_keys rs) [] (begin_tx mg) = (Inr new, t)" "length new \<le> XFW_MAX_ICMP_RULES"
      "replace (ops_icmp E) new (SELECT_SHADOW_MAP (icmp_maps mg) ?i) = Some (True, m)" "snapshot m = new"
      "14 \<le> free (release_removed new act t)"
    using icmp_rules.update_works[OF inv sz k(1,2) v lim act_def] by blast
  let ?mg = "mg\<lparr>icmp_maps := put_shadow_map (icmp_maps mg) ?i m\<rparr>"
  have "length icmp_indices \<le> free (release_removed new act t)" using u(5) by (simp add: icmp_indices_def)
  from switch_works[OF k(4) this, of ds XFW_ACTION_ALLOW "?cf\<lparr>amap_icmp := ?i\<rparr>" ?mg] obtain t' to where
      sw: "switch_rules E ds icmp_indices XFW_ACTION_ALLOW (?cf\<lparr>amap_icmp := ?i\<rparr>) (release_removed new act t) ?mg
        = (Inr (), end_tx t' (?mg\<lparr>cfg_map := set_defaults (?cf\<lparr>amap_icmp := ?i\<rparr>) to\<rparr>))" by blast
  have "valid_idx (amap_icmp ?cf)" using inv by (simp add: mgr_inv_iff idx_ok_def)
  then have "sizes_ok (?mg\<lparr>cfg_map := set_defaults (?cf\<lparr>amap_icmp := ?i\<rparr>) to\<rparr>)"
    using sz u(2,4) by (simp add: sizes_ok_def active_icmp_def active_dst_def set_defaults_def select_put_next)
  then show ?thesis
    using u sw k(3) icmp_rules.active_valid[OF inv]
    by (simp add: call_works_def set_icmp_rules_def get_config_def get_maps_by_index_next Let_def act_def[symmetric] not_less)
qed

lemma set_dst_rules_works:
  assumes E: "env_works canon4 canon6 E" and inv: "mgr_inv canon4 canon6 mg" and sz: "sizes_ok mg"
    and v: "valid_keys (dst_keys rs) XFW_MAX_DST_RULES"
  shows "call_works (set_dst_rules E rs ds mg)"
proof -
  let ?i = "next_map_idx (amap_dst (cfg_map mg))" and ?cf = "cfg_map mg"
  define act where "act = snapshot (SELECT_SHADOW_MAP (dst_maps mg) (amap_dst ?cf))"
  have k: "\<exists>pl n. batch_laws id pl n (ops_dst E)" "never_fails (ops_dst E)" "cfg_get_err E = 0" "cfg_set_err E = 0"
    using E by (simp_all add: env_works_def kernel_ok_def)
  have lim: "XFW_MAX_DST_RULES \<le> XFW_MAX_DST_RULES + XFW_MAX_ICMP_RULES" by simp
  obtain new t m where u: "add_all_bucketed act (dst_keys rs) [] (begin_tx mg) = (Inr new, t)" "length new \<le> XFW_MAX_DST_RULES"
      "replace (ops_dst E) new (SELECT_SHADOW_MAP (dst_maps mg) ?i) = Some (True, m)" "snapshot m = new"
      "14 \<le> free (release_removed new act t)"
    using dst_rules.update_works[OF inv sz k(1,2) v lim act_def] by blast
  let ?mg = "mg\<lparr>dst_maps := put_shadow_map (dst_maps mg) ?i m\<rparr>"
  have "length dst_indices \<le> free (release_removed new act t)" using u(5) by (simp add: dst_indices_def)
  from switch_works[OF k(4) this, of ds "if rs = [] then XFW_ACTION_ALLOW else XFW_ACTION_BLOCK" "?cf\<lparr>amap_dst := ?i\<rparr>" ?mg] obtain t' to where
      sw: "switch_rules E ds dst_indices (if rs = [] then XFW_ACTION_ALLOW else XFW_ACTION_BLOCK) (?cf\<lparr>amap_dst := ?i\<rparr>) (release_removed new act t) ?mg
        = (Inr (), end_tx t' (?mg\<lparr>cfg_map := set_defaults (?cf\<lparr>amap_dst := ?i\<rparr>) to\<rparr>))" by blast
  have "valid_idx (amap_dst ?cf)" using inv by (simp add: mgr_inv_iff idx_ok_def)
  then have "sizes_ok (?mg\<lparr>cfg_map := set_defaults (?cf\<lparr>amap_dst := ?i\<rparr>) to\<rparr>)"
    using sz u(2,4) by (simp add: sizes_ok_def active_icmp_def active_dst_def set_defaults_def select_put_next)
  then show ?thesis
    using u sw k(3) dst_rules.active_valid[OF inv]
    by (simp add: call_works_def set_dst_rules_def get_config_def get_maps_by_index_next Let_def act_def[symmetric] not_less)
qed

lemma mgr_step_works:
  assumes "env_works canon4 canon6 E" "mgr_inv canon4 canon6 mg" "sizes_ok mg" "canonical_call canon4 canon6 c" "valid_call mg c"
  shows "call_works (mgr_step E c mg)"
proof (cases "\<exists>rls conf f. c = Set_ratelimits rls \<or> c = Set_simple_rules conf \<or> c = Set_tcp_anomaly_rule f \<or> c = Turn_filtration_on")
  case True
  have "cfg_get_err E = 0" "cfg_set_err E = 0" using assms(1) by (simp_all add: env_works_def)
  then show ?thesis using True cfg_only_works[OF _ _ assms(3,5)] by blast
next
  case False
  then show ?thesis
    using assms set_src_rules_works set_icmp_rules_works set_dst_rules_works set_prot_net_settings_works set_tcp_flag_rule_works[of E canon4 canon6 mg]
    by (cases c) (simp_all add: env_works_def)
qed



section \<open>Valid configurations are applied\<close>

lemma valid_call_clock: "clock mg' = clock mg \<Longrightarrow> valid_call mg' c = valid_call mg c"
  by (cases c) (simp_all add: clock_def valid_rates_def)

lemma mgr_run_works:
  assumes "\<forall>(E, c) \<in> set cs. env_works canon4 canon6 E \<and> canonical_call canon4 canon6 c \<and> valid_call mg c"
    "mgr_inv canon4 canon6 mg" "sizes_ok mg"
  shows "call_works (mgr_run cs mg)"
  using assms
proof (induction cs arbitrary: mg)
  case (Cons ec cs)
  obtain E c where ec: "ec = (E, c)" by (cases ec)
  have ok: "env_works canon4 canon6 E" "canonical_call canon4 canon6 c" "valid_call mg c" using Cons.prems(1) by (simp_all add: ec)
  obtain mg1 where st: "mgr_step E c mg = Some (Inr (), mg1)" "sizes_ok mg1"
    using mgr_step_works[OF ok(1) Cons.prems(2,3) ok(2,3)] unfolding call_works_def by blast
  have inv: "mgr_inv canon4 canon6 mg1"
    using mgr_step_ok[OF _ Cons.prems(2) ok(2), of E] ok(1) st(1) unfolding call_ok_def env_works_def by auto
  note ck = valid_call_clock[OF mgr_step_clock[OF st(1)]]
  have "\<forall>(E, c) \<in> set cs. env_works canon4 canon6 E \<and> canonical_call canon4 canon6 c \<and> valid_call mg1 c"
    using Cons.prems(1) ck by auto
  from Cons.IH[OF this inv st(2)] show ?case using st(1) by (simp add: ec)
qed (simp add: call_works_def)

text \<open>
  No duplicates and nothing beyond the limits; every rate limit within the bound of the
  manager. The programs are loaded in the modes the configuration needs.
\<close>

definition valid_config :: "BpfMapsManager \<Rightarrow> XfwConfig \<Rightarrow> bool" where
  "valid_config mg c \<longleftrightarrow> valid_rates mg (c_ratelimits c) \<and> valid_src (c_src_rules c)
     \<and> valid_keys (icmp_keys (c_icmp_rules c)) XFW_MAX_ICMP_RULES \<and> valid_keys (dst_keys (c_dst_rules c)) XFW_MAX_DST_RULES
     \<and> valid_prot (c_prot_net c)"

definition modes_loaded :: "host \<Rightarrow> XfwConfig \<Rightarrow> bool" where
  "modes_loaded h c \<longleftrightarrow> (c_dns_filter c \<longrightarrow> pinned_dns_egr h = Inr True)
     \<and> (c_syncookie_filter c \<noteq> None \<longrightarrow> pinned_syncookies h = Inr True \<and> (\<exists>v. sysctl_tcp_syncookies h = Inr v \<and> v \<noteq> 0))"

lemma set_config_works:
  assumes "\<forall>i. env_works canon4 canon6 (host_env h i)" "xfw_inv canon4 canon6 x" "sizes_ok (maps_manager x)"
    "canonical_config canon4 canon6 c" "valid_config (maps_manager x) c" "modes_loaded h c"
  shows "\<exists>x'. set_config h c x = Some (Inr (), x') \<and> sizes_ok (maps_manager x')"
proof -
  let ?cs = "map (\<lambda>(i, c). (host_env h i, c)) (enumerate 0 (config_calls x c))"
  have m: "check_modes h c = Inr ()" using assms(6) by (auto simp: check_modes_def modes_loaded_def)
  have v: "valid_call (maps_manager x) y" if "y \<in> set (config_calls x c)" for y
    using that assms(5) by (auto simp: config_calls_def valid_config_def split: if_splits)
  have "\<forall>(E, y) \<in> set ?cs. env_works canon4 canon6 E \<and> canonical_call canon4 canon6 y \<and> valid_call (maps_manager x) y"
    using assms(1) config_calls_canonical[OF assms(4)] v by (auto simp: enumerate_eq_zip dest: set_zip_rightD)
  from mgr_run_works[OF this] assms(2,3) obtain mg where "mgr_run ?cs (maps_manager x) = Some (Inr (), mg)" "sizes_ok mg"
    by (auto simp: xfw_inv_def call_works_def)
  then show ?thesis using m by (simp add: set_config_def)
qed

text \<open>
  C8. While the kernel performs what it is asked to do, a valid configuration is applied:
  \<open>set_config\<close> succeeds, and the manager is ready for the next configuration. The bucket pool
  in particular never runs out, although the rules of the old and of the new configuration
  own their buckets at the same time during the switch.
\<close>

theorem valid_config_is_accepted:
  assumes "\<forall>i. env_works canon4 canon6 (host_env h i)" "xfw_inv canon4 canon6 x" "sizes_ok (maps_manager x)"
    "canonical_config canon4 canon6 c" "valid_config (maps_manager x) c" "modes_loaded h c"
  shows "\<exists>x'. set_config h c x = Some (Inr (), x') \<and> xfw_inv canon4 canon6 x' \<and> sizes_ok (maps_manager x')
    \<and> abs_mgr (maps_manager x') = config_spec (maps_manager x) c (abs_mgr (maps_manager x))"
proof -
  have "\<forall>i. kernel_ok canon4 canon6 (host_env h i)" using assms(1) by (simp add: env_works_def)
  from set_config_ok[OF this assms(2,4)] set_config_works[OF assms] show ?thesis by auto
qed


lemma ideal_env_works: "env_works trie4 id ideal_env"
  using ideal_kernel by (simp add: env_works_def ideal_env_def ideal_ops_laws(2))

lemma fresh_sizes_ok: "sizes_ok (maps_manager fresh_xfw)"
  by (simp add: sizes_ok_def fresh_xfw_def active_icmp_def active_dst_def BpfMapsManager_new_def both_def SELECT_SHADOW_MAP_def
      BpfShadowHashMap_new_def)

lemma block_config_valid: "valid_config mg block_config"
proof -
  let ?rs = "[(''blocked'', block_net)]"
  have e: "entries user4 tcp ?rs = (if tcp then [] else [(lpm4_key \<lparr>n4_prefixlen = 8, n4_addr = 10\<rparr>, src_rule_of block_net)])"
    "entries user6 tcp ?rs = []" "entries geo4 tcp ?rs = []" "entries geo6 tcp ?rs = []" "entries ni_ports tcp ?rs = []" for tcp
    by (simp_all add: user4_def user6_def geo4_def geo6_def block_net_def)
  have "valid_src ?rs"
    unfolding valid_src_def user_keys_distinct_def fresh_keys_def src4_spec_def src6_spec_def src_port_spec_def e
    by (simp add: no_src_snapshots_def limits_defs)
  moreover have "valid_rates mg Ratelimits_new" by (simp add: valid_rates_def Ratelimits_new_def)
  ultimately show ?thesis
    by (simp add: valid_config_def block_config_def XfwConfig_new_def valid_keys_def valid_prot_def prot_keys_distinct_def
        icmp_keys_def dst_keys_def prot4_spec_def prot6_spec_def)
qed

lemma block_config_modes: "modes_loaded h block_config"
  by (simp add: modes_loaded_def block_config_def XfwConfig_new_def)

theorem valid_config_is_accepted_witness:
  "\<exists>x'. set_config ideal_host block_config fresh_xfw = Some (Inr (), x') \<and> xfw_inv trie4 id x'
    \<and> f_src (abs_mgr (maps_manager x')) = src_spec [(''blocked'', block_net)]"
proof -
  have "\<forall>i. env_works trie4 id (host_env ideal_host i)" by (simp add: ideal_host_def ideal_env_works)
  from valid_config_is_accepted[OF this fresh_xfw_inv fresh_sizes_ok block_config_canonical block_config_valid block_config_modes]
  show ?thesis by (auto simp: config_spec_def block_config_def)
qed

end
