(* ===== verification/EndToEnd.thy ===== *)
theory EndToEnd
  imports Datapath Liveness
begin

text \<open>
  The manager and the datapath together: the window the manager derives from the tick
  frequency satisfies what the rate limiter needs, and the rules of a configuration that was
  applied decide what happens to packets.
\<close>


section \<open>The window of the rate limiter\<close>

lemma find_least:
  assumes "find P [0..<n] = Some k"
  shows "P k" "k < n" "\<And>j. j < k \<Longrightarrow> \<not> P j"
proof -
  obtain i where i: "i < n" "P ([0..<n] ! i)" "k = [0..<n] ! i" "\<forall>j<i. \<not> P ([0..<n] ! j)"
    using assms by (auto simp: find_Some_iff)
  then show "P k" "k < n" "\<And>j. j < k \<Longrightarrow> \<not> P j" by auto
qed

lemma find_leastI: "P k \<Longrightarrow> k < n \<Longrightarrow> (\<And>j. j < k \<Longrightarrow> \<not> P j) \<Longrightarrow> find P [0..<n] = Some k"
  by (auto simp: find_Some_iff intro!: exI[of _ k])

lemma unat_pow2: "k < 32 \<Longrightarrow> unat (push_bit k 1 :: u32) = 2 ^ k"
  unfolding unsigned_push_bit_eq by (simp add: push_bit_eq_mult take_bit_nat_eq_self)

lemma ilog2_pow2: "k < 32 \<Longrightarrow> xfw_ilog2 (push_bit k 1) = word_of_nat k"
  by (subst xfw_ilog2_def, subst find_leastI[of _ k]) (auto simp: bit_simps)

lemma bit_ceil_pow2:
  assumes "1 < unat v" "unat v \<le> 2 ^ 31"
  obtains k where "bit_ceil v = push_bit k 1" "1 \<le> k" "k < 32" "unat v \<le> 2 ^ k" "2 ^ (k - 1) < unat v"
proof -
  have "find (\<lambda>k. unat v \<le> 2 ^ k) [0..<32] \<noteq> None"
    using assms(2) by (auto simp: find_None_iff intro!: exI[of _ 31])
  then obtain k where f: "find (\<lambda>k. unat v \<le> 2 ^ k) [0..<32] = Some k" by blast
  note k = find_least[OF f]
  have "k \<noteq> 0" using k(1) assms(1) by (intro notI) simp
  then have "2 ^ (k - 1) < unat v" using k(3)[of "k - 1"] by simp
  with k \<open>k \<noteq> 0\<close> f show thesis by (intro that[of k]) (simp_all add: bit_ceil_def)
qed

lemma round_pow2_pow2:
  assumes "1 < unat v" "unat v \<le> 2 ^ 31"
  obtains k where "xfw_round_pow2 v = push_bit k 1" "1 \<le> k" "k < 32" "2 * unat v \<le> 3 * 2 ^ k" "3 * 2 ^ k \<le> 4 * unat v"
proof -
  obtain k where k: "bit_ceil v = push_bit k 1" "1 \<le> k" "k < 32" "unat v \<le> 2 ^ k" "2 ^ (k - 1) < unat v"
    by (rule bit_ceil_pow2[OF assms])
  define l hi lo where "l = (2 :: nat) ^ (k - 1)" and "hi = (push_bit k 1 :: u32)" and "lo = (push_bit (k - 1) 1 :: u32)"
  note defs = l_def hi_def lo_def
  have lo: "drop_bit 1 hi = lo"
    unfolding defs using k(2,3) by (intro bit_word_eqI) (auto simp: bit_simps)
  have un: "unat hi = 2 * l" "unat lo = l"
    using unat_pow2[OF k(3)] unat_pow2[of "k - 1"] k(2,3) by (cases k; simp add: defs)+
  have v: "l < unat v" "unat v \<le> 2 * l" using k(2,4,5) by (cases k; simp add: defs)+
  have "lo \<le> v" "v \<le> hi" using un v by (simp_all add: word_le_nat_alt)
  then have cmp: "v - lo < hi - v \<longleftrightarrow> unat v - l < 2 * l - unat v"
    using un by (simp only: word_less_nat_alt unat_sub)
  have eq: "v = hi \<longleftrightarrow> unat v = 2 * l" using un(1) by (metis unsigned_word_eqI)
  have gt: "\<not> v \<le> 1" using assms(1) by (simp add: word_le_nat_alt)
  have "xfw_round_pow2 v = (if unat v \<noteq> 2 * l \<and> unat v - l < 2 * l - unat v then lo else hi)"
    using gt by (simp add: xfw_round_pow2_def Let_def k(1)[folded hi_def] lo[simplified] cmp eq)
  then have r: "xfw_round_pow2 v = push_bit (if unat v \<noteq> 2 * l \<and> unat v - l < 2 * l - unat v then k - 1 else k) 1"
    unfolding hi_def lo_def by simp
  show thesis
  proof (cases "unat v \<noteq> 2 * l \<and> unat v - l < 2 * l - unat v")
    case True
    then have "l \<noteq> 1" using v by linarith
    then have "2 \<le> k" using k(2) by (cases "k = 1") (simp_all add: l_def)
    moreover have "2 ^ (k - Suc 0) = l" by (simp add: l_def)
    ultimately show thesis using True v k(3) r by (intro that[of "k - 1"]) (simp_all, linarith+)
  next
    case False
    have "(2 :: nat) ^ k = 2 * l" using k(2) by (cases k) (simp_all add: l_def)
    then show thesis using False v k(2,3) r by (intro that[of k]) (simp_all, linarith+)
  qed
qed

lemma rl_window_of_pow2:
  assumes "2 \<le> unat h" "unat h \<le> 2 ^ 31"
  obtains k where "rl_window_of h = \<lparr>rl_jiffies = push_bit k 1, rl_shift = word_of_nat k, rl_mask = push_bit k 1 - 1\<rparr>"
    "1 \<le> k" "k < 32" "2 * unat h \<le> 3 * 2 ^ k" "3 * 2 ^ k \<le> 4 * unat h"
proof -
  have u: "unat (ucast h :: u32) = unat h" using assms by (simp add: unsigned_ucast_eq take_bit_nat_eq_self)
  obtain k where k: "xfw_round_pow2 (ucast h) = push_bit k 1" "1 \<le> k" "k < 32" "2 * unat h \<le> 3 * 2 ^ k" "3 * 2 ^ k \<le> 4 * unat h"
    using round_pow2_pow2[of "ucast h"] assms u by (metis One_nat_def Suc_le_lessD numeral_2_eq_2)
  then show thesis by (intro that[of k]) (simp_all add: rl_window_of_def Let_def ilog2_pow2[simplified])
qed


text \<open>The number of ticks in a window.\<close>

definition window_ticks :: "u64 \<Rightarrow> nat" where
  "window_ticks h = 2 ^ unat (rl_shift (rl_window_of h))"

lemma max_rate_bound:
  assumes "2 \<le> unat h" "unat h \<le> 2 ^ 31" "r \<le> rl_max_rate_of h"
  shows "unat r * window_ticks h < 2 ^ 64"
proof -
  let ?k = "unat (rl_shift (rl_window_of h))"
  obtain k where "rl_shift (rl_window_of h) = word_of_nat k" "k < 32"
    by (rule rl_window_of_pow2[OF assms(1,2)]) simp
  then have k: "?k < 32" by (simp add: unsigned_of_nat take_bit_nat_eq_self)
  have "unat r \<le> (2 ^ 64 - 1) div 2 ^ ?k"
    using assms(3) unfolding word_le_nat_alt rl_max_rate_of_def unsigned_drop_bit_eq
    by (simp add: drop_bit_eq_div unsigned_minus_1_eq_mask mask_eq_exp_minus_1)
  then have "unat r * 2 ^ ?k \<le> (2 ^ 64 - 1) div 2 ^ ?k * 2 ^ ?k" by (rule mult_le_mono1)
  also have "\<dots> \<le> 2 ^ 64 - 1" by (rule div_times_less_eq_dividend)
  finally show ?thesis by (simp add: window_ticks_def)
qed

lemma scaled_exact:
  assumes "2 \<le> unat h" "unat h \<le> 2 ^ 31" "r \<le> rl_max_rate_of h"
  shows "unat (scale_rl_to_window (BpfMapsManager_new h km) r) = (if r = 0 then 0 else max 1 (unat r * window_ticks h div unat h))"
proof -
  let ?k = "unat (rl_shift (rl_window_of h))"
  have "unat (push_bit ?k r) = unat r * window_ticks h"
    using max_rate_bound[OF assms] unfolding unsigned_push_bit_eq
    by (simp add: push_bit_eq_mult window_ticks_def take_bit_nat_eq_self mult.commute)
  then have "unat (max 1 (push_bit ?k r div h)) = max 1 (unat r * window_ticks h div unat h)"
    by (simp add: max_def word_le_nat_alt unat_div)
  then show ?thesis by (simp add: scale_rl_to_window_def BpfMapsManager_new_def)
qed

text \<open>
  C26. For every tick frequency from 2 to \<open>2 ^ 31\<close> the manager's window is a power of two as
  the rate limiter needs it and between 2/3 and 4/3 of a second long; a rate the manager
  accepts is scaled to it without overflow, rounding down but never to zero; and when the
  window is not longer than a second the limiter's products do not overflow either.
\<close>

theorem window_and_rates_fit:
  assumes "2 \<le> unat h" "unat h \<le> 2 ^ 31"
  shows "window_ok (rl_window_of h) \<and> 2 * unat h \<le> 3 * window_ticks h \<and> 3 * window_ticks h \<le> 4 * unat h
    \<and> (\<forall>r \<le> rl_max_rate_of h. unat (scale_rl_to_window (BpfMapsManager_new h km) r)
         = (if r = 0 then 0 else max 1 (unat r * window_ticks h div unat h)))
    \<and> (\<forall>r. rl_pps r \<le> rl_max_rate_of h \<and> rl_bps r \<le> rl_max_rate_of h \<and> window_ticks h \<le> unat h
         \<longrightarrow> rate_ok (rl_window_of h) (scaled_rate (BpfMapsManager_new h km) r))"
proof -
  obtain k where k: "rl_window_of h = \<lparr>rl_jiffies = push_bit k 1, rl_shift = word_of_nat k, rl_mask = push_bit k 1 - 1\<rparr>"
      "1 \<le> k" "k < 32" "2 * unat h \<le> 3 * 2 ^ k" "3 * 2 ^ k \<le> 4 * unat h"
    by (rule rl_window_of_pow2[OF assms])
  have sh: "unat (rl_shift (rl_window_of h)) = k" using k(1,3) by (simp add: unsigned_of_nat take_bit_nat_eq_self)
  have w: "window_ok (rl_window_of h)"
    using k(1-3) sh by (simp add: window_ok_def word_le_nat_alt word_less_nat_alt)
  have t: "window_ticks h = 2 ^ k" by (simp add: window_ticks_def sh)
  have "unat (scale_rl_to_window (BpfMapsManager_new h km) r) * window_ticks h < 2 ^ 64"
    if "r \<le> rl_max_rate_of h" "window_ticks h \<le> unat h" for r
  proof (cases "r = 0")
    case False
    have "unat r * window_ticks h div unat h \<le> unat r"
      using that(2) assms(1) by (metis div_le_mono div_mult_self_is_m mult_le_mono2 le_trans zero_less_numeral less_le_trans)
    then have "max 1 (unat r * window_ticks h div unat h) \<le> unat r"
      using False by (simp add: Suc_leI unat_gt_0)
    then show ?thesis
      using max_rate_bound[OF assms that(1)] False unfolding scaled_exact[OF assms that(1)]
      by (simp add: le_less_trans[OF mult_le_mono1])
  qed (simp add: scale_rl_to_window_def)
  then show ?thesis
    using w k(4,5) scaled_exact[OF assms] unfolding t[symmetric]
    by (simp add: rate_ok_def scaled_rate_def window_ticks_def)
qed

theorem window_and_rates_fit_witness:
  "window_ok (rl_window_of 250) \<and> 2 * unat (250 :: u64) \<le> 3 * window_ticks 250"
  using window_and_rates_fit[of 250] by simp


text \<open>
  C39. At 1000 ticks per second the window is 1024 ticks, longer than a second. A rate of
  \<open>rl_max_rate_\<close> is accepted, and its scaled value times the window exceeds 64 bits, which
  the bound on the rate is there to exclude.
\<close>

theorem accepted_rate_overflows:
  "rl_max_rate_of 1000 \<le> rl_max_rate (BpfMapsManager_new 1000 km) \<and>
   \<not> rate_ok (rl_window_of 1000)
       (scaled_rate (BpfMapsManager_new 1000 km) \<lparr>rl_alias = a, rl_pps = rl_max_rate_of 1000, rl_bps = b, rl_state = Active\<rparr>)"
proof -
  obtain k where k: "rl_shift (rl_window_of 1000) = word_of_nat k" "k < 32" "2000 \<le> 3 * (2 :: nat) ^ k" "3 * 2 ^ k \<le> (4000 :: nat)"
    by (rule rl_window_of_pow2[of 1000]) simp_all
  have "\<not> k \<le> 9" "\<not> 11 \<le> k"
    using k(3,4) power_increasing[of k 9 "2 :: nat"] power_increasing[of 11 k "2 :: nat"] by auto
  then have sh: "unat (rl_shift (rl_window_of 1000)) = 10" using k(1) by (simp add: unsigned_of_nat take_bit_nat_eq_self)
  have w: "window_ticks 1000 = 1024" "unat (rl_max_rate_of 1000) = 2 ^ 54 - 1"
    unfolding window_ticks_def rl_max_rate_of_def sh unsigned_drop_bit_eq
    by (simp_all add: drop_bit_eq_div unsigned_minus_1_eq_mask mask_eq_exp_minus_1)
  then have "rl_max_rate_of 1000 \<noteq> 0" by auto
  then have "unat (scale_rl_to_window (BpfMapsManager_new 1000 km) (rl_max_rate_of 1000)) = (2 ^ 54 - 1) * 1024 div 1000"
    using scaled_exact[of 1000 "rl_max_rate_of 1000" km] w by simp
  then show ?thesis
    using w(1) by (simp add: rate_ok_def scaled_rate_def window_ticks_def BpfMapsManager_new_def)
qed


section \<open>From the configuration to the verdict\<close>

text \<open>The datapath works on the maps the manager writes; a trie is an association list.\<close>

definition reads_table :: "('k \<times> 'v) list \<Rightarrow> ('k \<rightharpoonup> 'v) \<Rightarrow> bool" where
  "reads_table t m \<longleftrightarrow> distinct (map fst t) \<and> map_of t = m"

definition datapath_reads :: "BpfMapsManager \<Rightarrow> state \<Rightarrow> bool" where
  "datapath_reads mg s \<longleftrightarrow> (let i = amap_src (cfg_map mg) in map_cfg (ro s) = Some (cfg_map mg)
     \<and> reads_table (SELECT_SHADOW_MAP (map_src_4_udp (ro s)) i) (bpf_map (v4_udp (active_src mg)))
     \<and> reads_table (SELECT_SHADOW_MAP (map_src_4_tcp (ro s)) i) (bpf_map (v4_tcp (active_src mg)))
     \<and> reads_table (SELECT_SHADOW_MAP (map_src_6_udp (ro s)) i) (bpf_map (v6_udp (active_src mg)))
     \<and> reads_table (SELECT_SHADOW_MAP (map_src_6_tcp (ro s)) i) (bpf_map (v6_tcp (active_src mg))))"

text \<open>The rule \<open>rl\<close> of the longest prefix that matches an address.\<close>

definition longest4 :: "(XfwIpv4LpmKey \<rightharpoonup> XfwSrcRule) \<Rightarrow> u32 \<Rightarrow> XfwSrcRule \<Rightarrow> bool" where
  "longest4 m a rl \<longleftrightarrow> (\<exists>k. m k = Some rl \<and> lpm4_match k a
     \<and> (\<forall>j \<in> dom m. j \<noteq> k \<longrightarrow> lpm4_match j a \<longrightarrow> prefixlen4 j < prefixlen4 k))"

lemma reads_best4: "reads_table t m \<Longrightarrow> longest4 m a rl \<Longrightarrow> best4 t a rl"
  unfolding reads_table_def longest4_def best4_def dom_map_of_conv_image_fst[symmetric]
  by (auto dest: map_of_SomeD)

lemma config_spec_fields:
  assumes "abs_mgr mg' = config_spec mg c s"
  shows "bpf_map (v4_udp (active_src mg')) = src4_spec (c_src_rules c) False"
    "bpf_map (v4_tcp (active_src mg')) = src4_spec (c_src_rules c) True"
    "rules_active (cfg_map mg')" "evaluation_mode (rules (cfg_map mg')) = c_evaluation_mode c"
  using arg_cong[OF assms, of f_src] arg_cong[OF assms, of f_active] arg_cong[OF assms, of f_evaluation]
  by (simp_all add: abs_mgr_def datapath_view_def config_spec_def src_view_def src_spec_def)

text \<open>
  C7. Once \<open>set_config\<close> has reported success, a packet that reaches the filters of a host
  whose datapath reads the manager's maps is dropped if it is an IPv4 TCP or UDP packet and
  the most specific source rule of the configuration for its address and protocol blocks it,
  unless the configuration asks for evaluation only.
\<close>

theorem configured_block_is_enforced:
  assumes "\<forall>i. kernel_ok canon4 canon6 (host_env h i)" "xfw_inv canon4 canon6 x" "canonical_config canon4 canon6 c"
    and run: "set_config h c x = Some (Inr (), x')" and "\<not> c_evaluation_mode c"
    and reads: "datapath_reads (maps_manager x') s" and "reaches_filters E s" "lpm4_law E"
    and "parse_ethhdr (pkt s) \<lparr>pos = 0, cur_end = length (pkt s)\<rparr> = (Inr (bpf_htons ETH_P_IP), cur)"
    and "parse_iphdr (pkt s) cur = (Inr (proto, iph), cur')" "proto \<in> {XFW_L4_PROTO_TCP, XFW_L4_PROTO_UDP}"
    and rule: "longest4 (src4_spec (c_src_rules c) (proto = XFW_L4_PROTO_TCP)) (ip_saddr (pkt s) iph) rl"
    and "sr_action rl = XFW_ACTION_BLOCK"
  shows "fst (xfw_xdp E s) = XFW_CTX_DROP"
proof -
  have "abs_mgr (maps_manager x') = config_spec (maps_manager x) c (abs_mgr (maps_manager x))"
    using set_config_ok[OF assms(1-3)] run by auto
  note f = config_spec_fields[OF this]
  have "src_rule_is s (cfg_map (maps_manager x')) proto (ip_saddr (pkt s) iph) rl"
    unfolding src_rule_is_def
    by (rule reads_best4[OF _ rule]) (use reads assms(11) in \<open>auto simp: datapath_reads_def Let_def f split: if_splits\<close>)
  then show ?thesis
    using assms f reads by (intro blocked_source_dropped[where cf = "cfg_map (maps_manager x')"]) (auto simp: datapath_reads_def Let_def)
qed


text \<open>The UDP packet of the datapath examples, on a host where its source network is blocked.\<close>

definition block_state :: "XfwFilterCfg \<Rightarrow> state" where
  "block_state cf = udp_state\<lparr>ro := (ref_maps cf)\<lparr>map_src_4_udp :=
     (let t = [(lpm4_key \<lparr>n4_prefixlen = 8, n4_addr = 10\<rparr>, src_rule_of block_net)] in (t, t))\<rparr>\<rparr>"

lemma block_spec:
  "src4_spec (c_src_rules block_config) tcp = (if tcp then Map.empty else [lpm4_key \<lparr>n4_prefixlen = 8, n4_addr = 10\<rparr> \<mapsto> src_rule_of block_net])"
  "src6_spec (c_src_rules block_config) tcp = Map.empty"
  by (simp_all add: src4_spec_def src6_spec_def block_config_def block_net_def user4_def user6_def geo4_def geo6_def)

theorem configured_block_is_enforced_witness:
  "\<exists>x'. set_config ideal_host block_config fresh_xfw = Some (Inr (), x')
    \<and> fst (xfw_xdp ref_env (block_state (cfg_map (maps_manager x')))) = XFW_CTX_DROP"
proof -
  have env: "\<forall>i. env_works trie4 id (host_env ideal_host i)" by (simp add: ideal_host_def ideal_env_works)
  then have k: "\<forall>i. kernel_ok trie4 id (host_env ideal_host i)" by (simp add: env_works_def)
  obtain x' where x': "set_config ideal_host block_config fresh_xfw = Some (Inr (), x')"
    using set_config_works[OF env fresh_xfw_inv fresh_sizes_ok block_config_canonical block_config_valid block_config_modes] by blast
  have a: "abs_mgr (maps_manager x') = config_spec (maps_manager fresh_xfw) block_config (abs_mgr (maps_manager fresh_xfw))"
    using set_config_ok[OF k fresh_xfw_inv block_config_canonical] x' by auto
  let ?cf = "cfg_map (maps_manager x')"
  have "datapath_reads (maps_manager x') (block_state ?cf)"
    using arg_cong[OF a, of f_src] 
    by (simp add: datapath_reads_def Let_def block_state_def reads_table_def ref_maps_def SELECT_SHADOW_MAP_def abs_mgr_def
        datapath_view_def config_spec_def src_view_def src_spec_def block_spec)
  moreover have "reaches_filters ref_env (block_state ?cf)"
    by (auto simp: reaches_filters_def xfw_ctx_init_def block_state_def udp_state_fields ref_maps_def ref_env_def split: option.split)
  moreover have "longest4 (src4_spec (c_src_rules block_config) False) (ip_saddr udp_pkt 14) (src_rule_of block_net)"
  proof -
    have "lpm4_match (lpm4_key \<lparr>n4_prefixlen = 8, n4_addr = 10\<rparr>) 0x0302010A" by code_simp
    then show ?thesis by (auto simp: longest4_def block_spec udp_pkt_parses split: if_splits)
  qed
  moreover have "sr_action (src_rule_of block_net) = XFW_ACTION_BLOCK" by (simp add: src_rule_of_def block_net_def mk_XfwSrcRule_def)
  moreover have "pkt (block_state ?cf) = udp_pkt" by (simp add: block_state_def udp_state_fields)
  ultimately have "fst (xfw_xdp ref_env (block_state ?cf)) = XFW_CTX_DROP"
    by (intro configured_block_is_enforced[OF k fresh_xfw_inv block_config_canonical x' _ _ _ ref_env_lpm4,
          where cur = "\<lparr>pos = 14, cur_end = 43\<rparr>" and proto = XFW_L4_PROTO_UDP and iph = 14 and cur' = "\<lparr>pos = 34, cur_end = 43\<rparr>"])
      (simp_all add: udp_pkt_parses block_config_def XfwConfig_new_def)
  with x' show ?thesis by blast
qed

end
