(* ===== verification/Xxh64.thy ===== *)
theory Xxh64
  imports Prelude
begin

text \<open>
  The hash of SYN tuples (\<open>bpf/syn_hash.h\<close>, \<open>bpf/xxh64_hash.h\<close>): XXH64 unrolled for inputs
  of 16 and of 40 bytes, compared with the general algorithm, and which tuples it keeps apart.
\<close>


section \<open>Primitives\<close>

definition XXH_PRIME64_1 :: u64 where "XXH_PRIME64_1 = 0x9E3779B185EBCA87"
definition XXH_PRIME64_2 :: u64 where "XXH_PRIME64_2 = 0xC2B2AE3D27D4EB4F"
definition XXH_PRIME64_3 :: u64 where "XXH_PRIME64_3 = 0x165667B19E3779F9"
definition XXH_PRIME64_4 :: u64 where "XXH_PRIME64_4 = 0x85EBCA77C2B2AE63"
definition XXH_PRIME64_5 :: u64 where "XXH_PRIME64_5 = 0x27D4EB2F165667C5"

lemmas prime_defs = XXH_PRIME64_1_def XXH_PRIME64_2_def XXH_PRIME64_3_def XXH_PRIME64_4_def XXH_PRIME64_5_def

text \<open>The accumulators \<open>uint64_t acc[4]\<close>.\<close>

type_synonym accs = "u64 \<times> u64 \<times> u64 \<times> u64"

definition xxh64_init_accs :: "u64 \<Rightarrow> accs" where
  "xxh64_init_accs seed =
     (seed + XXH_PRIME64_1 + XXH_PRIME64_2, seed + XXH_PRIME64_2, seed, seed - XXH_PRIME64_1)"

definition xxh_load64_le :: "u8 list \<Rightarrow> u64" where
  "xxh_load64_le p = ucast (p ! 0) OR push_bit 8 (ucast (p ! 1)) OR push_bit 16 (ucast (p ! 2)) OR push_bit 24 (ucast (p ! 3))
     OR push_bit 32 (ucast (p ! 4)) OR push_bit 40 (ucast (p ! 5)) OR push_bit 48 (ucast (p ! 6)) OR push_bit 56 (ucast (p ! 7))"

definition xxh_rotl64 :: "u64 \<Rightarrow> nat \<Rightarrow> u64" where
  "xxh_rotl64 x r = push_bit r x OR drop_bit (64 - r) x"

definition xxh64_round :: "u64 \<Rightarrow> u64 \<Rightarrow> u64" where
  "xxh64_round acc inp = xxh_rotl64 (acc + inp * XXH_PRIME64_2) 31 * XXH_PRIME64_1"

definition xxh64_merge_round :: "u64 \<Rightarrow> u64 \<Rightarrow> u64" where
  "xxh64_merge_round acc val = (acc XOR xxh64_round 0 val) * XXH_PRIME64_1 + XXH_PRIME64_4"

definition xxh64_merge_accs :: "accs \<Rightarrow> u64" where
  "xxh64_merge_accs = (\<lambda>(a0, a1, a2, a3).
     let h64 = xxh_rotl64 a0 1 + xxh_rotl64 a1 7 + xxh_rotl64 a2 12 + xxh_rotl64 a3 18;
         h64 = xxh64_merge_round h64 a0;
         h64 = xxh64_merge_round h64 a1;
         h64 = xxh64_merge_round h64 a2
     in xxh64_merge_round h64 a3)"

definition xxh64_update64 :: "u64 \<Rightarrow> u64 \<Rightarrow> u64" where
  "xxh64_update64 hash inp = xxh_rotl64 (hash XOR xxh64_round 0 inp) 27 * XXH_PRIME64_1 + XXH_PRIME64_4"

definition xxh64_avalanche :: "u64 \<Rightarrow> u64" where
  "xxh64_avalanche h =
     (let h = h XOR drop_bit 33 h; h = h * XXH_PRIME64_2;
          h = h XOR drop_bit 29 h; h = h * XXH_PRIME64_3
      in h XOR drop_bit 32 h)"


section \<open>SYN tuples\<close>

record XfwIpv4SynTuple =
  t4_src_ip :: u32
  t4_dst_ip :: u32
  t4_seq :: u32
  t4_sport :: u16
  t4_dport :: u16

record XfwIpv6SynTuple =
  t6_src_ip :: "u8 list"
  t6_dst_ip :: "u8 list"
  t6_seq :: u32
  t6_sport :: u16
  t6_dport :: u16

definition syn_ports_seq :: "u16 \<Rightarrow> u16 \<Rightarrow> u32 \<Rightarrow> u64" where
  "syn_ports_seq sport dport seq = ucast seq OR push_bit 32 (ucast sport) OR push_bit 48 (ucast dport)"

definition syn_xxh64_ipv4 :: "XfwIpv4SynTuple \<Rightarrow> u64 \<Rightarrow> u64" where
  "syn_xxh64_ipv4 t seed =
     (let hash = seed + XXH_PRIME64_5 + 16;
          hash = xxh64_update64 hash (ucast (t4_src_ip t) OR push_bit 32 (ucast (t4_dst_ip t)));
          hash = xxh64_update64 hash (syn_ports_seq (t4_sport t) (t4_dport t) (t4_seq t))
      in xxh64_avalanche hash)"

definition syn_xxh64_ipv6 :: "XfwIpv6SynTuple \<Rightarrow> u64 \<Rightarrow> u64" where
  "syn_xxh64_ipv6 t seed =
     (let (a0, a1, a2, a3) = xxh64_init_accs seed;
          a0 = xxh64_round a0 (xxh_load64_le (take 8 (t6_src_ip t)));
          a1 = xxh64_round a1 (xxh_load64_le (drop 8 (t6_src_ip t)));
          a2 = xxh64_round a2 (xxh_load64_le (take 8 (t6_dst_ip t)));
          a3 = xxh64_round a3 (xxh_load64_le (drop 8 (t6_dst_ip t)));
          hash = xxh64_merge_accs (a0, a1, a2, a3) + 40;
          hash = xxh64_update64 hash (syn_ports_seq (t6_sport t) (t6_dport t) (t6_seq t))
      in xxh64_avalanche hash)"



section \<open>The general algorithm\<close>

text \<open>XXH64 on any input: stripes of 32 bytes, then words of 8 and 4 bytes, then single bytes.\<close>

fun read_le :: "u8 list \<Rightarrow> u64" where
  "read_le [] = 0"
| "read_le (b # bs) = ucast b OR push_bit 8 (read_le bs)"

function XXH64_consumeLong :: "accs \<Rightarrow> u8 list \<Rightarrow> accs \<times> u8 list" where
  "XXH64_consumeLong (a0, a1, a2, a3) inp =
     (if length inp < 32 then ((a0, a1, a2, a3), inp)
      else XXH64_consumeLong
        (xxh64_round a0 (read_le (take 8 inp)), xxh64_round a1 (read_le (take 8 (drop 8 inp))),
         xxh64_round a2 (read_le (take 8 (drop 16 inp))), xxh64_round a3 (read_le (take 8 (drop 24 inp)))) (drop 32 inp))"
  by pat_completeness auto
termination by (relation "measure (length \<circ> snd)") auto

fun XXH64_bytes :: "u64 \<Rightarrow> u8 list \<Rightarrow> u64" where
  "XXH64_bytes h [] = h"
| "XXH64_bytes h (b # bs) = XXH64_bytes (xxh_rotl64 (h XOR ucast b * XXH_PRIME64_5) 11 * XXH_PRIME64_1) bs"

function XXH64_finalize :: "u64 \<Rightarrow> u8 list \<Rightarrow> u64" where
  "XXH64_finalize h inp =
     (if 8 \<le> length inp
      then XXH64_finalize (xxh_rotl64 (h XOR xxh64_round 0 (read_le (take 8 inp))) 27 * XXH_PRIME64_1 + XXH_PRIME64_4) (drop 8 inp)
      else if 4 \<le> length inp
      then XXH64_bytes (xxh_rotl64 (h XOR read_le (take 4 inp) * XXH_PRIME64_1) 23 * XXH_PRIME64_2 + XXH_PRIME64_3) (drop 4 inp)
      else XXH64_bytes h inp)"
  by pat_completeness auto
termination by (relation "measure (length \<circ> snd)") auto

declare XXH64_consumeLong.simps [simp del] XXH64_finalize.simps [simp del]

definition XXH64 :: "u8 list \<Rightarrow> u64 \<Rightarrow> u64" where
  "XXH64 inp seed =
     (let (h, rest) = (if 32 \<le> length inp
            then (let (accs, rest) = XXH64_consumeLong (xxh64_init_accs seed) inp in (xxh64_merge_accs accs, rest))
            else (seed + XXH_PRIME64_5, inp))
      in xxh64_avalanche (XXH64_finalize (h + word_of_nat (length inp)) rest))"

text \<open>The tuples as they lie in memory, little-endian.\<close>

definition le_bytes :: "nat \<Rightarrow> 'a::len word \<Rightarrow> u8 list" where
  "le_bytes n w = map (\<lambda>i. ucast (drop_bit (8 * i) w)) [0..<n]"

definition tuple4_bytes :: "XfwIpv4SynTuple \<Rightarrow> u8 list" where
  "tuple4_bytes t = le_bytes 4 (t4_src_ip t) @ le_bytes 4 (t4_dst_ip t) @ le_bytes 4 (t4_seq t)
     @ le_bytes 2 (t4_sport t) @ le_bytes 2 (t4_dport t)"

definition tuple6_bytes :: "XfwIpv6SynTuple \<Rightarrow> u8 list" where
  "tuple6_bytes t = t6_src_ip t @ t6_dst_ip t @ le_bytes 4 (t6_seq t) @ le_bytes 2 (t6_sport t) @ le_bytes 2 (t6_dport t)"

lemma length_le_bytes [simp]: "length (le_bytes n w) = n"
  by (simp add: le_bytes_def)

lemma le_bytes_4: "le_bytes 4 w = [ucast w, ucast (drop_bit 8 w), ucast (drop_bit 16 w), ucast (drop_bit 24 w)]"
  by (simp add: le_bytes_def upt_rec)

lemma le_bytes_2: "le_bytes 2 w = [ucast w, ucast (drop_bit 8 w)]"
  by (simp add: le_bytes_def upt_rec)

lemma read_le_32: "read_le (le_bytes 4 (w :: u32) @ bs) = ucast w OR push_bit 32 (read_le bs)"
  unfolding le_bytes_4 append.simps read_le.simps
  by (rule bit_word_eqI) (auto simp: bit_simps dest: bit_imp_le_length)

lemma read_le_16: "read_le (le_bytes 2 (w :: u16) @ bs) = ucast w OR push_bit 16 (read_le bs)"
  unfolding le_bytes_2 append.simps read_le.simps
  by (rule bit_word_eqI) (auto simp: bit_simps dest: bit_imp_le_length)

lemma read_le_load:
  assumes "length p = 8"
  shows "read_le p = xxh_load64_le p"
proof -
  obtain b0 b1 b2 b3 b4 b5 b6 b7 where "p = [b0, b1, b2, b3, b4, b5, b6, b7]"
    using assms by (auto simp: numeral_eq_Suc length_Suc_conv)
  then show ?thesis by (simp add: xxh_load64_le_def push_bit_or numeral_nat)
qed

lemma read_le_ports: "read_le (le_bytes 4 sq @ le_bytes 2 sp @ le_bytes 2 dp) = syn_ports_seq sp dp sq"
  using read_le_16[of dp "[]"] by (simp add: read_le_32 read_le_16 syn_ports_seq_def push_bit_or)


lemma finalize_8: "length p = 8 \<Longrightarrow> XXH64_finalize h (p @ rest) = XXH64_finalize (xxh64_update64 h (read_le p)) rest"
  by (subst XXH64_finalize.simps) (simp add: xxh64_update64_def)

lemma finalize_Nil: "XXH64_finalize h [] = h"
  by (subst XXH64_finalize.simps) simp

lemma finalize_8_Nil: "length p = 8 \<Longrightarrow> XXH64_finalize h p = xxh64_update64 h (read_le p)"
  using finalize_8[of p h "[]"] by (simp add: finalize_Nil)



definition test_tuple6 :: XfwIpv6SynTuple where
  "test_tuple6 = \<lparr>t6_src_ip = [0x20, 0x01, 0x0D, 0xB8, 0, 0, 0, 0, 0, 0, 0, 0, 0, 0, 0, 1],
     t6_dst_ip = [0x20, 0x01, 0x0D, 0xB8, 0, 0, 0, 0, 0, 0, 0, 0, 0, 0, 0, 2],
     t6_seq = 0x11223344, t6_sport = 12345, t6_dport = 443\<rparr>"



section \<open>Collisions\<close>

text \<open>Every step is one-to-one in the state and, with the state fixed, in the input.\<close>

lemma mult_inverse_inj: "p * q = (1 :: u64) \<Longrightarrow> x * p = y * p \<Longrightarrow> x = y"
proof -
  assume pq: "p * q = 1" and xy: "x * p = y * p"
  have "x = x * p * q" "y = y * p * q" by (simp_all add: mult.assoc pq)
  then show "x = y" using xy by simp
qed

lemma prime_inj:
  "x * XXH_PRIME64_1 = y * XXH_PRIME64_1 \<Longrightarrow> x = y"
  "x * XXH_PRIME64_2 = y * XXH_PRIME64_2 \<Longrightarrow> x = y"
  "x * XXH_PRIME64_3 = y * XXH_PRIME64_3 \<Longrightarrow> x = y"
proof -
  have "XXH_PRIME64_1 * 0x887493432badb37 = 1" "XXH_PRIME64_2 * 0xba79078168d4baf = 1" "XXH_PRIME64_3 * 0xe9e9f4c41d6df849 = 1" by (simp_all add: prime_defs)
  note i = this[THEN mult_inverse_inj]
  show "x * XXH_PRIME64_1 = y * XXH_PRIME64_1 \<Longrightarrow> x = y" by (rule i(1))
  show "x * XXH_PRIME64_2 = y * XXH_PRIME64_2 \<Longrightarrow> x = y" by (rule i(2))
  show "x * XXH_PRIME64_3 = y * XXH_PRIME64_3 \<Longrightarrow> x = y" by (rule i(3))
qed

lemma rotl_inj:
  assumes "xxh_rotl64 x r = xxh_rotl64 y r" "0 < r" "r < 64"
  shows "x = y"
proof -
  have "xxh_rotl64 (xxh_rotl64 z r) (64 - r) = z" for z
    unfolding xxh_rotl64_def by (rule bit_word_eqI) (use assms(2,3) in \<open>auto simp: bit_simps\<close>)
  then show ?thesis using assms(1) by metis
qed

lemma xor_shift_inj:
  fixes x y :: u64
  assumes "x XOR drop_bit k x = y XOR drop_bit k y" "22 \<le> k"
  shows "x = y"
proof -
  have "(z XOR drop_bit k z) XOR drop_bit k (z XOR drop_bit k z) XOR drop_bit (2 * k) (z XOR drop_bit k z) = z" for z :: u64
    by (rule bit_word_eqI) (use assms(2) in \<open>auto simp: bit_simps mult_2 add.assoc dest: bit_imp_le_length\<close>)
  then show ?thesis using assms(1) by metis
qed

lemma avalanche_inj:
  assumes "xxh64_avalanche x = xxh64_avalanche y"
  shows "x = y"
proof -
  let ?s = "\<lambda>k (z :: u64). z XOR drop_bit k z" and ?m = "\<lambda>p (z :: u64). z * p"
  have s: "inj (?s k)" if "22 \<le> k" for k by (rule injI, erule xor_shift_inj, rule that)
  have m: "inj (?m XXH_PRIME64_2)" "inj (?m XXH_PRIME64_3)" by (rule injI, erule prime_inj)+
  have "inj (?s 32 \<circ> ?m XXH_PRIME64_3 \<circ> ?s 29 \<circ> ?m XXH_PRIME64_2 \<circ> ?s 33)"
    by (intro inj_compose s m) simp_all
  moreover have "xxh64_avalanche = ?s 32 \<circ> ?m XXH_PRIME64_3 \<circ> ?s 29 \<circ> ?m XXH_PRIME64_2 \<circ> ?s 33"
    by (simp add: fun_eq_iff xxh64_avalanche_def Let_def)
  ultimately have "inj xxh64_avalanche" by (simp only:)
  then show ?thesis using assms by (rule injD)
qed

lemma round_inj:
  assumes "xxh64_round 0 x = xxh64_round 0 y"
  shows "x = y"
proof -
  have "xxh_rotl64 (x * XXH_PRIME64_2) 31 = xxh_rotl64 (y * XXH_PRIME64_2) 31"
    by (rule prime_inj(1)) (use assms in \<open>simp add: xxh64_round_def\<close>)
  from rotl_inj[OF this] show ?thesis by (simp add: prime_inj(2)[of x y])
qed

lemma update64_inj:
  assumes "xxh64_update64 h x = xxh64_update64 h y"
  shows "x = y"
proof -
  have "xxh_rotl64 (h XOR xxh64_round 0 x) 27 = xxh_rotl64 (h XOR xxh64_round 0 y) 27"
    by (rule prime_inj(1)) (use assms in \<open>simp add: xxh64_update64_def\<close>)
  from rotl_inj[OF this] have "h XOR xxh64_round 0 x = h XOR xxh64_round 0 y" by simp
  then have "h XOR (h XOR xxh64_round 0 x) = h XOR (h XOR xxh64_round 0 y)" by simp
  then have "xxh64_round 0 x = xxh64_round 0 y" by (simp add: xor.assoc[symmetric])
  then show ?thesis by (rule round_inj)
qed

lemma ports_seq_inj:
  assumes "syn_ports_seq sp dp sq = syn_ports_seq sp' dp' sq'"
  shows "sp = sp' \<and> dp = dp' \<and> sq = sq'"
proof -
  have "ucast (syn_ports_seq a b c) = c" "ucast (drop_bit 32 (syn_ports_seq a b c)) = a" "ucast (drop_bit 48 (syn_ports_seq a b c)) = b" for a b c
    unfolding syn_ports_seq_def by (rule bit_word_eqI, auto simp: bit_simps dest: bit_imp_le_length)+
  then show ?thesis using assms by metis
qed

text \<open>
  C19. Two SYN tuples with the same addresses, IPv4 or IPv6, have the same hash only if they
  are the same: their ports and sequence numbers cannot collide.
\<close>

theorem same_addresses_never_collide:
  "(t4_src_ip a = t4_src_ip b \<and> t4_dst_ip a = t4_dst_ip b \<and> syn_xxh64_ipv4 a seed = syn_xxh64_ipv4 b seed \<longrightarrow> a = b)
   \<and> (t6_src_ip c = t6_src_ip d \<and> t6_dst_ip c = t6_dst_ip d \<and> syn_xxh64_ipv6 c seed = syn_xxh64_ipv6 d seed \<longrightarrow> c = d)"
  by (auto simp: syn_xxh64_ipv4_def syn_xxh64_ipv6_def Let_def split: prod.splits
      dest!: avalanche_inj update64_inj ports_seq_inj intro: XfwIpv4SynTuple.equality XfwIpv6SynTuple.equality)

theorem same_addresses_never_collide_witness:
  "syn_xxh64_ipv6 test_tuple6 7 \<noteq> syn_xxh64_ipv6 (test_tuple6\<lparr>t6_sport := 12346\<rparr>) 7"
  using same_addresses_never_collide[where c = test_tuple6 and d = "test_tuple6\<lparr>t6_sport := 12346\<rparr>" and seed = 7]
  by (auto simp: test_tuple6_def)

end
