(* ===== verification/GeoIp.thy ===== *)
theory GeoIp
  imports Config "HOL-Library.AList" "HOL-Library.List_Lexorder" "HOL-Library.Product_Lexorder"
begin

text \<open>
  The import of a GeoIP database (\<open>manager/xfw/geoip.hh\<close>, \<open>manager/xfw/geoip.cc\<close>) and the
  lookup of a country (\<open>Xfw::load_geo_entry\<close>). The database file is read through
  libmaxminddb, whose functions are the fields of the record \<open>MMDB_s\<close>. The lemmas show that the
  networks of a country cover exactly the addresses for which the search tree of the
  database has that country, although adjacent networks are merged on the way.
\<close>


section \<open>Countries and networks\<close>

datatype geo_error =
    Iso_code_size | Iso_code_letters | Invalid_prefix_length nat nat | Conflicting_countries
  | Mmdb_failure int | Not_utf8_string nat | Invalid_code_length nat nat
  | Tree_exceeds_address nat | Node_number_too_large u64 | Invalid_record_type u32 nat
  | Unexpected_ipv4_depth u16 | No_geo_database | No_networks

datatype IsoCountryId = IsoCountryId u8 u8

definition isalpha :: "u8 \<Rightarrow> bool" where
  "isalpha c \<longleftrightarrow> 65 \<le> c \<and> c \<le> 90 \<or> 97 \<le> c \<and> c \<le> 122"

definition tolower :: "u8 \<Rightarrow> u8" where
  "tolower c = (if 65 \<le> c \<and> c \<le> 90 then c + 32 else c)"

definition IsoCountryId_new :: "u8 list \<Rightarrow> geo_error + IsoCountryId" where
  "IsoCountryId_new code =
     (if length code \<noteq> 2 then Inl Iso_code_size
      else if \<not> isalpha (code ! 0) \<or> \<not> isalpha (code ! 1) then Inl Iso_code_letters
      else Inr (IsoCountryId (tolower (code ! 0)) (tolower (code ! 1))))"

record Net4Geo =
  g4_prefixlen :: u16
  g4_addr :: u32

record Net6Geo =
  g6_prefixlen :: u16
  g6_addr :: XfwIp

record GeoCountry =
  gc_ip4 :: "Net4Geo list"
  gc_ip6 :: "Net6Geo list"

type_synonym Country2IpMap = "(IsoCountryId \<times> GeoCountry) list"

definition lookup_country :: "IsoCountryId \<Rightarrow> Country2IpMap \<Rightarrow> GeoCountry option" where
  "lookup_country country m = map_of m country"


section \<open>Prefixes\<close>

text \<open>
  An address is its bytes, 4 or 16 of them. A bucket per prefix length maps the addresses
  of that length to their country.
\<close>

type_synonym IpAddr = "u8 list"
type_synonym PrefixMap = "(IpAddr \<times> IsoCountryId) list"
type_synonym PrefixBuckets = "PrefixMap list"

definition addr_bits :: "IpAddr \<Rightarrow> nat" where
  "addr_bits addr = length addr * 8"

definition empty_buckets :: "nat \<Rightarrow> PrefixBuckets" where
  "empty_buckets bits = replicate (bits + 1) []"

definition prefix_mask :: "nat \<Rightarrow> u8" where
  "prefix_mask b = drop_bit (b mod 8) 0x80"

definition set_prefix_bit :: "IpAddr \<Rightarrow> nat \<Rightarrow> bool \<Rightarrow> IpAddr" where
  "set_prefix_bit addr b value =
     (let octet = b div 8; mask = prefix_mask b
      in if value then addr[octet := addr ! octet OR mask] else addr[octet := addr ! octet AND NOT mask])"

definition canonicalize_prefix :: "IpAddr \<Rightarrow> nat \<Rightarrow> geo_error + IpAddr" where
  "canonicalize_prefix addr prefixlen =
     (let bits = addr_bits addr in
      if bits < prefixlen then Inl (Invalid_prefix_length prefixlen bits)
      else if prefixlen = bits then Inr addr
      else
        let octet = prefixlen div 8; rem = prefixlen mod 8;
            (addr, octet) = (if rem \<noteq> 0 then (addr[octet := addr ! octet AND push_bit (8 - rem) 0xFF], octet + 1)
                             else (addr, octet))
        in Inr (take octet addr @ replicate (length addr - octet) 0))"

text \<open>Flip the last network bit to obtain the sibling prefix.\<close>

definition sibling_prefix :: "IpAddr \<Rightarrow> nat \<Rightarrow> IpAddr" where
  "sibling_prefix addr b = addr[b div 8 := addr ! (b div 8) XOR prefix_mask b]"

fun merge_siblings :: "IsoCountryId \<Rightarrow> nat \<Rightarrow> IpAddr \<Rightarrow> PrefixBuckets \<Rightarrow> PrefixBuckets \<times> IpAddr \<times> nat" where
  "merge_siblings country 0 addr buckets = (buckets, addr, 0)"
| "merge_siblings country (Suc b) addr buckets =
     (let sibling = sibling_prefix addr b; bucket = buckets ! Suc b in
      if map_of bucket sibling = Some country
      then merge_siblings country b (set_prefix_bit addr b False) (buckets[Suc b := AList.delete sibling bucket])
      else (buckets, addr, Suc b))"

definition merge_prefix :: "PrefixBuckets \<Rightarrow> IsoCountryId \<Rightarrow> IpAddr \<Rightarrow> nat \<Rightarrow> geo_error + PrefixBuckets" where
  "merge_prefix buckets country addr prefixlen =
     (case canonicalize_prefix addr prefixlen of
        Inl e \<Rightarrow> Inl e
      | Inr addr \<Rightarrow>
          let (buckets, addr, prefixlen) = merge_siblings country prefixlen addr buckets
          in case map_of (buckets ! prefixlen) addr of
               None \<Rightarrow> Inr (buckets[prefixlen := (addr, country) # buckets ! prefixlen])
             | Some c \<Rightarrow> if c \<noteq> country then Inl Conflicting_countries else Inr buckets)"


section \<open>The database\<close>

text \<open>
  What libmaxminddb answers: the value under a path of an entry, and the nodes of the
  search tree with the type and value of their two records.
\<close>

record entry_data =
  ed_has_data :: bool
  ed_is_utf8 :: bool
  ed_bytes :: "u8 list"

datatype aget_result = Path_does_not_match | Aget_failed int | Aget_data entry_data

datatype record_type = RECORD_EMPTY | RECORD_DATA | RECORD_SEARCH_NODE | RECORD_OTHER nat

record search_record =
  sr_type :: record_type
  sr_value :: u64
  sr_entry :: nat

record search_node =
  left_record :: search_record
  right_record :: search_record

record MMDB_s =
  MMDB_aget_value :: "nat \<Rightarrow> string list \<Rightarrow> aget_result"
  MMDB_read_node :: "u32 \<Rightarrow> int + search_node"
  MMDB_lookup_root4 :: "int + nat option"
  mm_ip_version :: u16
  mm_node_count :: u32
  mm_ipv4_node :: u32
  mm_ipv4_netmask :: u16

definition read_iso_code :: "MMDB_s \<Rightarrow> nat \<Rightarrow> string list \<Rightarrow> geo_error + IsoCountryId option" where
  "read_iso_code mmdb entry path =
     (case MMDB_aget_value mmdb entry path of
        Path_does_not_match \<Rightarrow> Inr None
      | Aget_failed r \<Rightarrow> Inl (Mmdb_failure r)
      | Aget_data d \<Rightarrow>
          if \<not> ed_has_data d then Inr None
          else if \<not> ed_is_utf8 d then Inl (Not_utf8_string entry)
          else if length (ed_bytes d) \<noteq> 2 then Inl (Invalid_code_length entry (length (ed_bytes d)))
          else (case IsoCountryId_new (ed_bytes d) of Inl e \<Rightarrow> Inl e | Inr c \<Rightarrow> Inr (Some c)))"

definition read_country :: "MMDB_s \<Rightarrow> nat \<Rightarrow> geo_error + IsoCountryId option" where
  "read_country mmdb entry =
     (case read_iso_code mmdb entry [''country'', ''iso_code''] of
        Inl e \<Rightarrow> Inl e
      | Inr (Some c) \<Rightarrow> Inr (Some c)
      | Inr None \<Rightarrow> read_iso_code mmdb entry [''registered_country'', ''iso_code''])"

definition read_node :: "MMDB_s \<Rightarrow> u32 \<Rightarrow> geo_error + search_node" where
  "read_node mmdb n = (case MMDB_read_node mmdb n of Inl r \<Rightarrow> Inl (Mmdb_failure r) | Inr node \<Rightarrow> Inr node)"


lemma length_set_prefix_bit [simp]: "length (set_prefix_bit a b v) = length a"
  by (simp add: set_prefix_bit_def Let_def)


section \<open>The import\<close>

text \<open>
  \<open>add_data\<close> is the callback for a data record, \<open>skipped\<close> the node of the IPv4 subtree that
  an IPv6 walk leaves out. \<open>visit_rec\<close> is the lambda of the source.
\<close>

function walk_search_tree ::
    "MMDB_s \<Rightarrow> (nat \<Rightarrow> IpAddr \<Rightarrow> nat \<Rightarrow> 'b \<Rightarrow> geo_error + 'b) \<Rightarrow> u32 option \<Rightarrow> u32 \<Rightarrow> IpAddr \<Rightarrow> nat \<Rightarrow> 'b \<Rightarrow> geo_error + 'b"
  and visit_rec ::
    "MMDB_s \<Rightarrow> (nat \<Rightarrow> IpAddr \<Rightarrow> nat \<Rightarrow> 'b \<Rightarrow> geo_error + 'b) \<Rightarrow> u32 option \<Rightarrow> u32 \<Rightarrow> search_record \<Rightarrow> bool \<Rightarrow> IpAddr \<Rightarrow> nat \<Rightarrow> 'b
      \<Rightarrow> geo_error + 'b" where
  "walk_search_tree mmdb add_data skipped node_number pfx depth st =
     (if addr_bits pfx \<le> depth then Inl (Tree_exceeds_address (addr_bits pfx))
      else case read_node mmdb node_number of
             Inl e \<Rightarrow> Inl e
           | Inr node \<Rightarrow>
               (case visit_rec mmdb add_data skipped node_number (left_record node) False pfx depth st of
                  Inl e \<Rightarrow> Inl e
                | Inr st \<Rightarrow> visit_rec mmdb add_data skipped node_number (right_record node) True pfx depth st))"
| "visit_rec mmdb add_data skipped node_number r right pfx depth st =
     (let child_prefix = set_prefix_bit pfx depth right in
      case sr_type r of
        RECORD_EMPTY \<Rightarrow> Inr st
      | RECORD_DATA \<Rightarrow> add_data (sr_entry r) child_prefix (depth + 1) st
      | RECORD_SEARCH_NODE \<Rightarrow>
          if 0xFFFFFFFF < sr_value r then Inl (Node_number_too_large (sr_value r))
          else if map_option ucast skipped = Some (sr_value r) then Inr st
          else walk_search_tree mmdb add_data skipped (ucast (sr_value r)) child_prefix (depth + 1) st
      | RECORD_OTHER t \<Rightarrow> Inl (Invalid_record_type node_number t))"
  by pat_completeness auto
termination
  by (relation "measure (\<lambda>x. case x of Inl (_, _, _, _, p, d, _) \<Rightarrow> 2 * (addr_bits p + 1 - d)
      | Inr (_, _, _, _, _, _, p, d, _) \<Rightarrow> 2 * (addr_bits p - d) + 1)") (auto simp: addr_bits_def)

declare walk_search_tree.simps [simp del] visit_rec.simps [simp del]

definition add_country_prefix :: "MMDB_s \<Rightarrow> nat \<Rightarrow> IpAddr \<Rightarrow> nat \<Rightarrow> PrefixBuckets \<Rightarrow> geo_error + PrefixBuckets" where
  "add_country_prefix mmdb entry addr prefixlen buckets =
     (case read_country mmdb entry of
        Inl e \<Rightarrow> Inl e
      | Inr None \<Rightarrow> Inr buckets
      | Inr (Some country) \<Rightarrow> merge_prefix buckets country addr prefixlen)"

definition import_ipv4_tree :: "MMDB_s \<Rightarrow> PrefixBuckets \<Rightarrow> geo_error + PrefixBuckets" where
  "import_ipv4_tree mmdb prefixes =
     (let root = replicate 4 0 in
      if mm_ip_version mmdb = 4 then walk_search_tree mmdb (add_country_prefix mmdb) None 0 root 0 prefixes
      else if mm_ipv4_node mmdb < mm_node_count mmdb then
        if mm_ipv4_netmask mmdb = 96 then
          walk_search_tree mmdb (add_country_prefix mmdb) None (mm_ipv4_node mmdb) root 0 prefixes
        else Inl (Unexpected_ipv4_depth (mm_ipv4_netmask mmdb))
      else if mm_ipv4_node mmdb = mm_node_count mmdb then Inr prefixes
      else
        (case MMDB_lookup_root4 mmdb of
           Inl r \<Rightarrow> Inl (Mmdb_failure r)
         | Inr None \<Rightarrow> Inr prefixes
         | Inr (Some entry) \<Rightarrow> add_country_prefix mmdb entry root 0 prefixes))"

definition import_ipv6_tree :: "MMDB_s \<Rightarrow> PrefixBuckets \<Rightarrow> geo_error + PrefixBuckets" where
  "import_ipv6_tree mmdb prefixes =
     (if mm_ip_version mmdb \<noteq> 6 then Inr prefixes
      else
        let ipv4_subtree = (if mm_ipv4_netmask mmdb = 96 \<and> mm_ipv4_node mmdb < mm_node_count mmdb
                            then Some (mm_ipv4_node mmdb) else None)
        in walk_search_tree mmdb (add_country_prefix mmdb) ipv4_subtree 0 (replicate 16 0) 0 prefixes)"

text \<open>\<open>std::bit_cast\<close> between bytes and words on a little-endian host.\<close>

definition cast32 :: "IpAddr \<Rightarrow> u32" where
  "cast32 a = ucast (a ! 0) OR push_bit 8 (ucast (a ! 1)) OR push_bit 16 (ucast (a ! 2)) OR push_bit 24 (ucast (a ! 3))"

definition bytes32 :: "u32 \<Rightarrow> IpAddr" where
  "bytes32 w = map (\<lambda>i. ucast (drop_bit (8 * i) w)) [0..<4]"

definition cast128 :: "IpAddr \<Rightarrow> XfwIp" where
  "cast128 a = XfwIp (cast32 (take 4 a)) (cast32 (take 4 (drop 4 a))) (cast32 (take 4 (drop 8 a))) (cast32 (drop 12 a))"

definition bytes128 :: "XfwIp \<Rightarrow> IpAddr" where
  "bytes128 ip = bytes32 (addr32_0 ip) @ bytes32 (addr32_1 ip) @ bytes32 (addr32_2 ip) @ bytes32 (addr32_3 ip)"

definition net4_bytes :: "Net4Geo \<Rightarrow> IpAddr" where
  "net4_bytes n = bytes32 (g4_addr n)"

definition net6_bytes :: "Net6Geo \<Rightarrow> IpAddr" where
  "net6_bytes n = bytes128 (g6_addr n)"

definition sort_country_prefixes :: "Country2IpMap \<Rightarrow> Country2IpMap" where
  "sort_country_prefixes m = map (\<lambda>(country, networks). (country, networks
     \<lparr>gc_ip4 := sort_key (\<lambda>n. (net4_bytes n, g4_prefixlen n)) (gc_ip4 networks),
      gc_ip6 := sort_key (\<lambda>n. (net6_bytes n, g6_prefixlen n)) (gc_ip6 networks)\<rparr>)) m"

text \<open>\<open>map[country]\<close> creates the entry of a country that has none.\<close>

definition country_networks :: "Country2IpMap \<Rightarrow> IsoCountryId \<Rightarrow> GeoCountry" where
  "country_networks m country = (case map_of m country of Some g \<Rightarrow> g | None \<Rightarrow> \<lparr>gc_ip4 = [], gc_ip6 = []\<rparr>)"

definition push_ip4 :: "nat \<Rightarrow> IpAddr \<times> IsoCountryId \<Rightarrow> Country2IpMap \<Rightarrow> Country2IpMap" where
  "push_ip4 plen = (\<lambda>(addr, country) m. AList.update country ((country_networks m country)
     \<lparr>gc_ip4 := gc_ip4 (country_networks m country) @ [\<lparr>g4_prefixlen = word_of_nat plen, g4_addr = cast32 addr\<rparr>]\<rparr>) m)"

definition push_ip6 :: "nat \<Rightarrow> IpAddr \<times> IsoCountryId \<Rightarrow> Country2IpMap \<Rightarrow> Country2IpMap" where
  "push_ip6 plen = (\<lambda>(addr, country) m. AList.update country ((country_networks m country)
     \<lparr>gc_ip6 := gc_ip6 (country_networks m country) @ [\<lparr>g6_prefixlen = word_of_nat plen, g6_addr = cast128 addr\<rparr>]\<rparr>) m)"

definition push_buckets ::
    "(nat \<Rightarrow> IpAddr \<times> IsoCountryId \<Rightarrow> Country2IpMap \<Rightarrow> Country2IpMap) \<Rightarrow> PrefixBuckets \<Rightarrow> Country2IpMap \<Rightarrow> Country2IpMap" where
  "push_buckets push buckets = fold (\<lambda>plen. fold (push plen) (buckets ! plen)) [0..<length buckets]"

definition build_country_map :: "PrefixBuckets \<Rightarrow> PrefixBuckets \<Rightarrow> Country2IpMap" where
  "build_country_map ip4_prefixes ip6_prefixes =
     sort_country_prefixes (push_buckets push_ip6 ip6_prefixes (push_buckets push_ip4 ip4_prefixes []))"

definition import_maxmind_geodata :: "MMDB_s \<Rightarrow> geo_error + Country2IpMap" where
  "import_maxmind_geodata mmdb =
     (case import_ipv4_tree mmdb (empty_buckets 32) of
        Inl e \<Rightarrow> Inl e
      | Inr ip4_prefixes \<Rightarrow>
          (case import_ipv6_tree mmdb (empty_buckets 128) of
             Inl e \<Rightarrow> Inl e
           | Inr ip6_prefixes \<Rightarrow> Inr (build_country_map ip4_prefixes ip6_prefixes)))"

text \<open>Opening the file gives the database or an error; the old map is kept on any error.\<close>

definition reload :: "geo_error + MMDB_s \<Rightarrow> Country2IpMap \<Rightarrow> (geo_error + unit) \<times> Country2IpMap" where
  "reload opened m =
     (case opened of
        Inl e \<Rightarrow> (Inl e, m)
      | Inr mmdb \<Rightarrow> (case import_maxmind_geodata mmdb of Inl e \<Rightarrow> (Inl e, m) | Inr new_map \<Rightarrow> (Inr (), new_map)))"

text \<open>\<open>code_str_\<close> is the two bytes of the code.\<close>

definition code_str :: "NetGeo \<Rightarrow> u8 list" where
  "code_str entry = [ucast (geo_code entry), ucast (drop_bit 8 (geo_code entry))]"

definition load_geo_entry :: "Country2IpMap \<Rightarrow> NetGeo \<Rightarrow> bool \<Rightarrow> bool \<Rightarrow> geo_error + NetGeo" where
  "load_geo_entry geodb entry includeIp4 includeIp6 =
     (if geodb = [] then Inl No_geo_database
      else case IsoCountryId_new (code_str entry) of
             Inl e \<Rightarrow> Inl e
           | Inr country \<Rightarrow>
               (case lookup_country country geodb of
                  None \<Rightarrow> Inl No_networks
                | Some ips \<Rightarrow> Inr (entry\<lparr>
                    geo_net4s := if includeIp4 then map (\<lambda>x. \<lparr>n4_prefixlen = g4_prefixlen x, n4_addr = g4_addr x\<rparr>) (gc_ip4 ips) else [],
                    geo_net6s := if includeIp6 then map (\<lambda>x. \<lparr>n6_prefixlen = g6_prefixlen x, n6_addr = g6_addr x\<rparr>) (gc_ip6 ips) else []\<rparr>)))"


section \<open>What a prefix covers\<close>

text \<open>Bit \<open>k\<close> of an address, the most significant one first, and the addresses under a prefix.\<close>

definition addr_bit :: "IpAddr \<Rightarrow> nat \<Rightarrow> bool" where
  "addr_bit a k = bit (a ! (k div 8)) (7 - k mod 8)"

definition in_prefix :: "nat \<Rightarrow> IpAddr \<Rightarrow> IpAddr \<Rightarrow> bool" where
  "in_prefix plen a ip \<longleftrightarrow> length ip = length a \<and> (\<forall>k<plen. addr_bit ip k = addr_bit a k)"

definition covered :: "PrefixBuckets \<Rightarrow> IpAddr \<Rightarrow> IsoCountryId \<Rightarrow> bool" where
  "covered B ip c \<longleftrightarrow> (\<exists>plen<length B. \<exists>a. map_of (B ! plen) a = Some c \<and> in_prefix plen a ip)"

lemma prefix_mask_bit: "bit (prefix_mask b) n \<longleftrightarrow> n = 7 - b mod 8"
proof -
  have "b mod 8 < 8" by simp
  moreover have "\<forall>m<8. \<forall>n<8. bit (drop_bit m 0x80 :: u8) n \<longleftrightarrow> n = 7 - m"
    by (simp add: All_less_Suc numeral_eq_Suc bit_simps) 
  ultimately show ?thesis by (cases "n < 8") (auto simp: prefix_mask_def bit_simps)
qed

lemma same_bit_position: "k div 8 = b div 8 \<Longrightarrow> 7 - k mod 8 = 7 - b mod 8 \<Longrightarrow> k = (b :: nat)"
proof -
  assume a: "k div 8 = b div 8" "7 - k mod 8 = 7 - b mod 8"
  have "k mod 8 < 8" "b mod 8 < 8" by simp_all
  then have "k mod 8 = b mod 8" using a(2) by linarith
  then show ?thesis using a(1) by (metis div_mult_mod_eq)
qed

lemma addr_bit_set:
  assumes "b < addr_bits a"
  shows "addr_bit (set_prefix_bit a b v) k = (if k = b then v else addr_bit a k)"
  using assms same_bit_position[of k b]
  by (auto simp: addr_bit_def set_prefix_bit_def Let_def nth_list_update bit_simps prefix_mask_bit addr_bits_def less_mult_imp_div_less)

lemma addr_bit_sibling:
  assumes "b < addr_bits a"
  shows "addr_bit (sibling_prefix a b) k = (if k = b then \<not> addr_bit a b else addr_bit a k)"
  using assms same_bit_position[of k b]
  by (auto simp: addr_bit_def sibling_prefix_def nth_list_update bit_simps prefix_mask_bit addr_bits_def less_mult_imp_div_less)

lemma addr_eqI:
  assumes "length a = length b" "\<And>k. k < addr_bits a \<Longrightarrow> addr_bit a k = addr_bit b k"
  shows "a = b"
proof (rule nth_equalityI[OF assms(1)])
  fix i assume i: "i < length a"
  show "a ! i = b ! i"
  proof (rule bit_word_eqI)
    fix n assume "n < LENGTH(8)"
    then have m: "7 - n < 8" "n = 7 - (7 - n)" by simp_all
    define m where "m = 7 - n"
    note m = m[folded m_def]
    from m have "(8 * i + m) div 8 = i" "(8 * i + m) mod 8 = m" "8 * i + m < addr_bits a"
      using i by (simp_all add: addr_bits_def)
    then show "bit (a ! i) n \<longleftrightarrow> bit (b ! i) n" using assms(2)[of "8 * i + m"] m by (simp add: addr_bit_def)
  qed
qed

lemma sibling_length [simp]: "length (sibling_prefix a b) = length a"
  by (simp add: sibling_prefix_def)

lemma addr_bits_same [simp]: "addr_bits (set_prefix_bit a b v) = addr_bits a" "addr_bits (sibling_prefix a b) = addr_bits a"
  by (simp_all add: addr_bits_def)

text \<open>Bits of the octet that is masked, and of the octets that are cleared.\<close>

lemma masked_octet:
  assumes "k div 8 = p div (8 :: nat)"
  shows "k < p \<longleftrightarrow> 8 - p mod 8 \<le> 7 - k mod 8"
proof -
  have "k < p \<longleftrightarrow> k mod 8 < p mod 8" using assms by (metis div_mult_mod_eq nat_add_left_cancel_less)
  moreover have "k mod 8 < 8" "p mod 8 < 8" by simp_all
  ultimately show ?thesis by linarith
qed

lemma kept_octet:
  assumes "k div 8 < (if p mod 8 \<noteq> 0 then p div 8 + 1 else p div 8)" "k div 8 \<noteq> p div 8 \<or> p mod 8 = 0"
  shows "k < (p :: nat)"
  by (rule ccontr) (use assms div_le_mono[of p k 8] in \<open>auto split: if_splits\<close>)

lemma cleared_octet:
  assumes "\<not> k div 8 < (if p mod 8 \<noteq> 0 then p div 8 + 1 else p div 8)"
  shows "p \<le> (k :: nat)"
proof (rule ccontr)
  assume a: "\<not> p \<le> k"
  then have "k div 8 = p div 8" "p mod 8 = 0" using assms div_le_mono[of k p 8] by (auto split: if_splits)
  then show False using a by (metis add_0_right div_mult_mod_eq le_add1)
qed

lemma canonicalize_prefix_ok:
  assumes "p \<le> addr_bits a"
  shows "\<exists>a'. canonicalize_prefix a p = Inr a' \<and> length a' = length a
    \<and> (\<forall>k<addr_bits a. addr_bit a' k \<longleftrightarrow> k < p \<and> addr_bit a k)"
proof (cases "p = addr_bits a")
  case True
  then show ?thesis by (auto simp: canonicalize_prefix_def Let_def)
next
  case False
  define o' where "o' = (if p mod 8 \<noteq> 0 then p div 8 + 1 else p div 8)"
  define a1 where "a1 = (if p mod 8 \<noteq> 0 then a[p div 8 := a ! (p div 8) AND push_bit (8 - p mod 8) 0xFF] else a)"
  let ?r = "take o' a1 @ replicate (length a - o') 0"
  have p: "p < length a * 8" using False assms by (simp add: addr_bits_def)
  have o: "o' \<le> length a" "length a1 = length a" using p by (auto simp: o'_def a1_def)
  have hi: "(0xFF :: u8) = - 1" "7 - r < (8 :: nat)" for r by simp_all
  have "addr_bit ?r k \<longleftrightarrow> k < p \<and> addr_bit a k" if k: "k < length a * 8" for k
  proof (cases "k div 8 < o'")
    case True
    then have nth: "addr_bit ?r k = addr_bit a1 k" using o by (simp add: addr_bit_def nth_append)
    show ?thesis
    proof (cases "k div 8 = p div 8 \<and> p mod 8 \<noteq> 0")
      case m: True
      then have "addr_bit a1 k \<longleftrightarrow> addr_bit a k \<and> 8 - p mod 8 \<le> 7 - k mod 8"
        using less_mult_imp_div_less[OF k] by (auto simp: addr_bit_def a1_def hi bit_simps)
      then show ?thesis using nth m masked_octet[of k p] by blast
    next
      case m: False
      then have "addr_bit a1 k = addr_bit a k" by (auto simp: addr_bit_def a1_def)
      then show ?thesis using nth m kept_octet[of k p] True o'_def by simp
    qed
  next
    case F: False
    then have "p \<le> k" using cleared_octet[of k p] by (simp add: o'_def)
    moreover have "\<not> addr_bit ?r k" using F o less_mult_imp_div_less[OF k] by (simp add: addr_bit_def nth_append)
    ultimately show ?thesis by simp
  qed
  moreover have "canonicalize_prefix a p = Inr ?r"
    using False assms o by (simp add: canonicalize_prefix_def Let_def o'_def a1_def)
  ultimately show ?thesis using o by (simp add: addr_bits_def)
qed


section \<open>Merging\<close>

text \<open>
  The addresses of a bucket have the length of the family and no bits after the prefix,
  and no two siblings of the same country are left apart.
\<close>

definition canonical_addr :: "nat \<Rightarrow> IpAddr \<Rightarrow> bool" where
  "canonical_addr plen a \<longleftrightarrow> (\<forall>k<addr_bits a. plen \<le> k \<longrightarrow> \<not> addr_bit a k)"

definition buckets_ok :: "nat \<Rightarrow> PrefixBuckets \<Rightarrow> bool" where
  "buckets_ok n B \<longleftrightarrow> length B = n * 8 + 1 \<and> (\<forall>p<length B. distinct (map fst (B ! p))
     \<and> (\<forall>a \<in> fst ` set (B ! p). length a = n \<and> canonical_addr p a))"

definition fully_merged :: "PrefixBuckets \<Rightarrow> bool" where
  "fully_merged B \<longleftrightarrow> (\<forall>b a c. Suc b < length B \<and> map_of (B ! Suc b) a = Some c \<longrightarrow> map_of (B ! Suc b) (sibling_prefix a b) \<noteq> Some c)"

text \<open>An address is under a prefix or its sibling iff it is under their parent.\<close>

lemma in_parent:
  assumes "b < addr_bits a"
  shows "in_prefix b (set_prefix_bit a b False) ip \<longleftrightarrow> in_prefix (Suc b) a ip \<or> in_prefix (Suc b) (sibling_prefix a b) ip"
  using assms by (auto simp: in_prefix_def addr_bit_set addr_bit_sibling less_Suc_eq)

lemma sibling_sibling: "b < addr_bits a \<Longrightarrow> sibling_prefix (sibling_prefix a b) b = a"
  by (rule addr_eqI) (auto simp: addr_bit_sibling)

lemma map_of_delete: "map_of (AList.delete k m) x = (if x = k then None else map_of m x)"
  by (simp add: delete_conv')

lemma covered_update:
  assumes "p < length B"
  shows "covered (B[p := m]) ip c \<longleftrightarrow> (\<exists>a. map_of m a = Some c \<and> in_prefix p a ip)
    \<or> (\<exists>q<length B. q \<noteq> p \<and> (\<exists>a. map_of (B ! q) a = Some c \<and> in_prefix q a ip))"
  using assms by (auto simp: covered_def nth_list_update)

lemma covered_delete:
  assumes "p < length B" "map_of (B ! p) s = Some c"
  shows "covered B ip c' \<longleftrightarrow> covered (B[p := AList.delete s (B ! p)]) ip c' \<or> c' = c \<and> in_prefix p s ip"
  using assms covered_update[of p B "B ! p" ip c'] by (auto simp: covered_update map_of_delete split: if_splits) (metis option.inject)

lemma covered_insert:
  assumes "p < length B" "map_of (B ! p) a = None"
  shows "covered (B[p := (a, c) # B ! p]) ip d \<longleftrightarrow> covered B ip d \<or> d = c \<and> in_prefix p a ip"
proof -
  have "(\<exists>x. map_of ((a, c) # B ! p) x = Some d \<and> in_prefix p x ip)
      \<longleftrightarrow> (\<exists>x. map_of (B ! p) x = Some d \<and> in_prefix p x ip) \<or> d = c \<and> in_prefix p a ip"
    (is "?l \<longleftrightarrow> ?r")
  proof
    assume ?l
    then obtain x where "map_of ((a, c) # B ! p) x = Some d" "in_prefix p x ip" by blast
    then show ?r by (cases "x = a") auto
  next
    assume ?r
    then consider x where "map_of (B ! p) x = Some d" "in_prefix p x ip" | "d = c" "in_prefix p a ip" by blast
    then show ?l using assms(2) by cases (metis fun_upd_other map_of.simps(2) fst_conv option.distinct(1) snd_conv, auto)
  qed
  then show ?thesis
    unfolding covered_update[OF assms(1)] using covered_update[OF assms(1), of "B ! p" ip d] by (simp only: list_update_id) blast
qed

lemma delete_keys_subset: "x \<in> set (AList.delete k m) \<Longrightarrow> x \<in> set m"
  by (simp add: AList.delete_eq)

lemma buckets_okD:
  assumes "buckets_ok n B" "p < length B"
  shows "distinct (map fst (B ! p))" "\<forall>a \<in> fst ` set (B ! p). length a = n \<and> canonical_addr p a"
  using assms unfolding buckets_ok_def by blast+

lemma buckets_ok_update:
  assumes "buckets_ok n B" "p < length B" "distinct (map fst m)" "\<forall>a \<in> fst ` set m. length a = n \<and> canonical_addr p a"
  shows "buckets_ok n (B[p := m])"
  using assms by (auto simp: buckets_ok_def nth_list_update)

lemma merge_siblings_ok:
  assumes "buckets_ok n B" "length a = n" "p \<le> n * 8" "canonical_addr p a" "merge_siblings c p a B = (B', a', p')"
  shows "buckets_ok n B' \<and> length a' = n \<and> p' \<le> p \<and> canonical_addr p' a'
    \<and> (\<forall>q x d. map_of (B' ! q) x = Some d \<longrightarrow> map_of (B ! q) x = Some d)
    \<and> (\<forall>ip. in_prefix p a ip \<longrightarrow> in_prefix p' a' ip)
    \<and> (\<forall>ip d. covered B' ip d \<or> d = c \<and> in_prefix p' a' ip \<longleftrightarrow> covered B ip d \<or> d = c \<and> in_prefix p a ip)
    \<and> (\<forall>b. p' = Suc b \<longrightarrow> map_of (B' ! p') (sibling_prefix a' b) \<noteq> Some c)"
  using assms
proof (induction c p a B arbitrary: B' a' p' rule: merge_siblings.induct)
  case (1 c a B)
  then show ?case by simp
next
  case (2 c b a B)
  let ?s = "sibling_prefix a b" and ?a = "set_prefix_bit a b False"
  let ?B = "B[Suc b := AList.delete ?s (B ! Suc b)]"
  have b: "b < addr_bits a" "Suc b < length B" using 2(2-4) by (simp_all add: addr_bits_def buckets_ok_def)
  show ?case
  proof (cases "map_of (B ! Suc b) ?s = Some c")
    case False
    then show ?thesis using 2 by auto
  next
    case True
    have ok: "buckets_ok n ?B"
      using buckets_ok_update[OF 2(2) b(2)] buckets_okD[OF 2(2) b(2)] by (blast intro: distinct_delete dest: delete_keys_subset)
    have can: "canonical_addr b ?a" using 2(5) b by (auto simp: canonical_addr_def addr_bit_set)
    have IH: "buckets_ok n B' \<and> length a' = n \<and> p' \<le> b \<and> canonical_addr p' a'
      \<and> (\<forall>q x d. map_of (B' ! q) x = Some d \<longrightarrow> map_of (?B ! q) x = Some d)
      \<and> (\<forall>ip. in_prefix b ?a ip \<longrightarrow> in_prefix p' a' ip)
      \<and> (\<forall>ip d. covered B' ip d \<or> d = c \<and> in_prefix p' a' ip \<longleftrightarrow> covered ?B ip d \<or> d = c \<and> in_prefix b ?a ip)
      \<and> (\<forall>k. p' = Suc k \<longrightarrow> map_of (B' ! p') (sibling_prefix a' k) \<noteq> Some c)"
      using 2(1)[OF refl refl True ok _ _ can] 2(3,4,6) True by (simp add: Let_def)
    have sub: "map_of (B ! q) x = Some d" if "map_of (?B ! q) x = Some d" for q x d
      using that b by (auto simp: nth_list_update map_of_delete split: if_splits)
    show ?thesis using IH covered_delete[OF b(2) True] in_parent[OF b(1)] sub by (intro conjI allI) (blast | simp)+
  qed
qed

lemma fully_merged_delete:
  assumes "fully_merged B" "\<forall>q x d. map_of (B' ! q) x = Some d \<longrightarrow> map_of (B ! q) x = Some d" "length B' = length B"
  shows "fully_merged B'"
  using assms unfolding fully_merged_def by metis

lemma fully_merged_insert:
  assumes "fully_merged B" "p < length B" "length a * 8 + 1 = length B" "\<forall>b. p = Suc b \<longrightarrow> map_of (B ! p) (sibling_prefix a b) \<noteq> Some c"
    "\<forall>x \<in> fst ` set (B ! p). length x = length a"
  shows "fully_merged (B[p := (a, c) # B ! p])"
  unfolding fully_merged_def
proof (intro allI impI)
  fix b x d assume x: "Suc b < length (B[p := (a, c) # B ! p]) \<and> map_of (B[p := (a, c) # B ! p] ! Suc b) x = Some d"
  show "map_of (B[p := (a, c) # B ! p] ! Suc b) (sibling_prefix x b) \<noteq> Some d"
  proof (cases "Suc b = p")
    case False
    then show ?thesis using x assms(1) by (auto simp: fully_merged_def)
  next
    case True
    have ne: "sibling_prefix y b \<noteq> y" if "length y = length a" for y
      using addr_bit_sibling[of b y b] assms(2,3) True that by (metis Suc_less_eq add.commute addr_bits_def plus_1_eq_Suc)
    have "x = a \<or> x \<in> fst ` set (B ! p)" using x True assms(2) map_of_SomeD[of "B ! p" x d] by (auto simp: image_iff split: if_splits) force
    then have len: "length x = length a" using assms(5) by blast
    have "sibling_prefix (sibling_prefix x b) b = x" using sibling_sibling[of b x] len assms(2,3) True by (auto simp: addr_bits_def)
    then show ?thesis using x True assms(1,2,4) ne[OF len] ne[OF refl] by (simp add: fully_merged_def split: if_splits) metis+
  qed
qed

text \<open>A bucket entry of the same country adds nothing, so the covered addresses grow by the prefix only.\<close>

lemma merge_prefix_ok:
  assumes "buckets_ok n B" "length a = n" "p \<le> n * 8" "merge_prefix B c a p = Inr B'"
  shows "buckets_ok n B' \<and> (fully_merged B \<longrightarrow> fully_merged B')
    \<and> (\<forall>ip d. covered B' ip d \<longleftrightarrow> covered B ip d \<or> d = c \<and> in_prefix p a ip)"
proof -
  obtain a0 where a0: "canonicalize_prefix a p = Inr a0" "length a0 = n" "\<forall>k<addr_bits a. addr_bit a0 k \<longleftrightarrow> k < p \<and> addr_bit a k"
    using canonicalize_prefix_ok[of p a] assms(2,3) by (auto simp: addr_bits_def)
  have can: "canonical_addr p a0" "in_prefix p a0 = in_prefix p a"
    using a0 assms(2,3) by (auto simp: canonical_addr_def in_prefix_def addr_bits_def fun_eq_iff)
  obtain B1 a1 p1 where m: "merge_siblings c p a0 B = (B1, a1, p1)" by (cases "merge_siblings c p a0 B")
  note ms = merge_siblings_ok[OF assms(1) a0(2) assms(3) can(1) m, unfolded can(2)]
  have p1: "p1 < length B1" "length B1 = length B" using ms assms(1,3) by (auto simp: buckets_ok_def)
  have same: "fully_merged B1" if "fully_merged B" using fully_merged_delete[OF that _ p1(2)] ms by blast
  show ?thesis
  proof (cases "map_of (B1 ! p1) a1")
    case (Some d)
    then have B': "B' = B1" "d = c" using assms(4) by (auto simp: merge_prefix_def a0(1) m split: if_splits)
    then have "covered B1 ip c" if "in_prefix p1 a1 ip" for ip using Some that p1 by (auto simp: covered_def)
    then show ?thesis using ms same by (metis B'(1))
  next
    case None
    then have B': "B' = B1[p1 := (a1, c) # B1 ! p1]" using assms(4) by (simp add: merge_prefix_def a0(1) m)
    have keys: "distinct (map fst (B1 ! p1))" "\<forall>x \<in> fst ` set (B1 ! p1). length x = n \<and> canonical_addr p1 x"
      using buckets_okD[of n B1 p1] ms p1(1) by blast+
    have ok: "buckets_ok n B'" unfolding B'
      using ms keys None p1(1) by (intro buckets_ok_update) (simp_all add: map_of_eq_None_iff)
    have fm: "fully_merged B'" if "fully_merged B" unfolding B'
      using ms keys p1 same[OF that] by (intro fully_merged_insert) (auto simp: buckets_ok_def)
    have "covered B' ip d \<longleftrightarrow> covered B1 ip d \<or> d = c \<and> in_prefix p1 a1 ip" for ip d
      unfolding B' by (rule covered_insert[OF p1(1) None])
    then show ?thesis using ok fm ms by simp
  qed
qed

lemma in_prefix_self: "in_prefix p a a"
  by (simp add: in_prefix_def)

text \<open>A prefix with no covered address is stored: an entry in its way would cover it.\<close>

lemma merge_prefix_stored:
  assumes "buckets_ok n B" "length a = n" "p \<le> n * 8" "\<forall>ip c. in_prefix p a ip \<longrightarrow> \<not> covered B ip c"
  shows "\<exists>B'. merge_prefix B c a p = Inr B'"
proof -
  obtain a0 where a0: "canonicalize_prefix a p = Inr a0" "length a0 = n" "\<forall>k<addr_bits a. addr_bit a0 k \<longleftrightarrow> k < p \<and> addr_bit a k"
    using canonicalize_prefix_ok[of p a] assms(2,3) by (auto simp: addr_bits_def)
  have can: "canonical_addr p a0" "in_prefix p a0 = in_prefix p a"
    using a0 assms(2,3) by (auto simp: canonical_addr_def in_prefix_def addr_bits_def fun_eq_iff)
  obtain B1 a1 p1 where m: "merge_siblings c p a0 B = (B1, a1, p1)" by (cases "merge_siblings c p a0 B")
  note ms = merge_siblings_ok[OF assms(1) a0(2) assms(3) can(1) m, unfolded can(2)]
  have "p1 < length B" using ms assms(1,3) by (auto simp: buckets_ok_def)
  moreover have "in_prefix p1 a1 a" "\<not> covered B a d" for d using ms assms(4) in_prefix_self[of p a] by blast+
  ultimately have "map_of (B1 ! p1) a1 = None" using ms unfolding covered_def by (cases "map_of (B1 ! p1) a1") blast+
  then show ?thesis by (simp add: merge_prefix_def a0(1) m)
qed


section \<open>The walk visits what a lookup finds\<close>

text \<open>The lookup of an address: follow its bits from a node on, at most \<open>fuel\<close> of them.\<close>

fun tree_lookup :: "MMDB_s \<Rightarrow> u32 option \<Rightarrow> nat \<Rightarrow> u32 \<Rightarrow> IpAddr \<Rightarrow> nat \<Rightarrow> nat option" where
  "tree_lookup mmdb skipped 0 n ip depth = None"
| "tree_lookup mmdb skipped (Suc fuel) n ip depth =
     (case read_node mmdb n of
        Inl _ \<Rightarrow> None
      | Inr node \<Rightarrow>
          (let r = (if addr_bit ip depth then right_record node else left_record node) in
           case sr_type r of
             RECORD_DATA \<Rightarrow> Some (sr_entry r)
           | RECORD_SEARCH_NODE \<Rightarrow> if map_option ucast skipped = Some (sr_value r) then None
                                   else tree_lookup mmdb skipped fuel (ucast (sr_value r)) ip (depth + 1)
           | _ \<Rightarrow> None))"

definition country_at :: "MMDB_s \<Rightarrow> nat option \<Rightarrow> IsoCountryId \<Rightarrow> bool" where
  "country_at mmdb e c \<longleftrightarrow> (\<exists>entry. e = Some entry \<and> read_country mmdb entry = Inr (Some c))"

definition rec_lookup :: "MMDB_s \<Rightarrow> u32 option \<Rightarrow> nat \<Rightarrow> search_record \<Rightarrow> IpAddr \<Rightarrow> nat \<Rightarrow> nat option" where
  "rec_lookup mmdb skipped fuel r ip depth =
     (case sr_type r of
        RECORD_DATA \<Rightarrow> Some (sr_entry r)
      | RECORD_SEARCH_NODE \<Rightarrow> if map_option ucast skipped = Some (sr_value r) then None
                              else tree_lookup mmdb skipped fuel (ucast (sr_value r)) ip (depth + 1)
      | _ \<Rightarrow> None)"

lemma tree_lookup_rec:
  "read_node mmdb n = Inr node \<Longrightarrow> tree_lookup mmdb skipped (Suc fuel) n ip depth
     = rec_lookup mmdb skipped fuel (if addr_bit ip depth then right_record node else left_record node) ip depth"
  by (simp add: rec_lookup_def Let_def)

declare tree_lookup.simps(2) [simp del]

text \<open>What a visit adds: the countries the lookup finds under the prefix.\<close>

definition adds :: "nat \<Rightarrow> PrefixBuckets \<Rightarrow> PrefixBuckets \<Rightarrow> (IpAddr \<Rightarrow> IsoCountryId \<Rightarrow> bool) \<Rightarrow> bool" where
  "adds n B B' R \<longleftrightarrow> buckets_ok n B' \<and> (fully_merged B \<longrightarrow> fully_merged B')
     \<and> (\<forall>ip c. covered B' ip c \<longleftrightarrow> covered B ip c \<or> R ip c)"

lemma adds_trans: "adds n B B1 R \<Longrightarrow> adds n B1 B2 S \<Longrightarrow> adds n B B2 (\<lambda>ip c. R ip c \<or> S ip c)"
  by (auto simp: adds_def)

lemma adds_cong: "adds n B B' R \<Longrightarrow> (\<And>ip c. R ip c \<longleftrightarrow> S ip c) \<Longrightarrow> adds n B B' S"
  by (simp add: adds_def)

lemma add_country_prefix_adds:
  assumes "add_country_prefix mmdb entry a p B = Inr B'" "buckets_ok n B" "length a = n" "p \<le> n * 8"
  shows "adds n B B' (\<lambda>ip c. in_prefix p a ip \<and> country_at mmdb (Some entry) c)"
  using assms merge_prefix_ok[OF assms(2-4)]
  by (auto simp: add_country_prefix_def adds_def country_at_def split: sum.splits option.splits)

lemma in_child:
  assumes "depth < addr_bits pfx"
  shows "in_prefix (Suc depth) (set_prefix_bit pfx depth right) ip \<longleftrightarrow> in_prefix depth pfx ip \<and> addr_bit ip depth = right"
  using assms by (auto simp: in_prefix_def addr_bit_set less_Suc_eq)

lemma walk_adds:
  shows "\<lbrakk>walk_search_tree mmdb (add_country_prefix mmdb) skipped nn pfx depth B = Inr B'; buckets_ok n B; length pfx = n; depth \<le> n * 8\<rbrakk>
    \<Longrightarrow> adds n B B' (\<lambda>ip c. in_prefix depth pfx ip \<and> country_at mmdb (tree_lookup mmdb skipped (n * 8 - depth) nn ip depth) c)"
  and "\<lbrakk>visit_rec mmdb (add_country_prefix mmdb) skipped nn r right pfx depth B = Inr B'; buckets_ok n B; length pfx = n; depth < n * 8\<rbrakk>
    \<Longrightarrow> adds n B B' (\<lambda>ip c. in_prefix depth pfx ip \<and> addr_bit ip depth = right
         \<and> country_at mmdb (rec_lookup mmdb skipped (n * 8 - Suc depth) r ip depth) c)"
proof (induction mmdb "add_country_prefix mmdb" skipped nn pfx depth B and mmdb "add_country_prefix mmdb" skipped nn r right pfx depth B
    arbitrary: B' and B' rule: walk_search_tree_visit_rec.induct)
  case (1 mmdb skipped nn pfx depth B)
  then obtain node B1 where w: "\<not> addr_bits pfx \<le> depth" "read_node mmdb nn = Inr node"
      "visit_rec mmdb (add_country_prefix mmdb) skipped nn (left_record node) False pfx depth B = Inr B1"
      "visit_rec mmdb (add_country_prefix mmdb) skipped nn (right_record node) True pfx depth B1 = Inr B'"
    by (subst (asm) walk_search_tree.simps) (auto split: if_splits sum.splits)
  have d: "depth < n * 8" "n * 8 - depth = Suc (n * 8 - Suc depth)" using w(1) 1(5) by (simp_all add: addr_bits_def)
  note l = 1(1)[OF w(1,2,3) 1(4,5) d(1)]
  have "buckets_ok n B1" using l by (simp add: adds_def)
  note r = 1(2)[OF w(1,2,3,4) this 1(5) d(1)]
  show ?case
    by (rule adds_cong[OF adds_trans[OF l r]]) (auto simp: d(2) tree_lookup_rec[OF w(2)])
next
  case (2 mmdb skipped nn r right pfx depth B)
  let ?child = "set_prefix_bit pfx depth right"
  have d: "depth < addr_bits pfx" "Suc depth \<le> n * 8" "length ?child = n" using 2(4,5) by (simp_all add: addr_bits_def)
  note v = 2(2)[unfolded visit_rec.simps[of mmdb "add_country_prefix mmdb"] Let_def]
  have none: "adds n B B (\<lambda>ip c. in_prefix depth pfx ip \<and> addr_bit ip depth = right \<and> country_at mmdb None c)"
    using 2(3) by (simp add: adds_def country_at_def)
  show ?case
  proof (cases "sr_type r")
    case RECORD_EMPTY
    then show ?thesis using v none by (simp add: rec_lookup_def)
  next
    case RECORD_DATA
    then have "add_country_prefix mmdb (sr_entry r) ?child (Suc depth) B = Inr B'" using v by simp
    from adds_cong[OF add_country_prefix_adds[OF this 2(3) d(3,2)]] show ?thesis
      using RECORD_DATA by (simp add: rec_lookup_def in_child[OF d(1)])
  next
    case RECORD_SEARCH_NODE
    show ?thesis
    proof (cases "map_option ucast skipped = Some (sr_value r)")
      case True
      then show ?thesis using v none RECORD_SEARCH_NODE by (simp add: rec_lookup_def split: if_splits)
    next
      case False
      then have "\<not> 0xFFFFFFFF < sr_value r"
        "walk_search_tree mmdb (add_country_prefix mmdb) skipped (ucast (sr_value r)) ?child (depth + 1) B = Inr B'"
        using v RECORD_SEARCH_NODE by (simp_all split: if_splits)
      from 2(1)[OF refl RECORD_SEARCH_NODE this(1) False this(2) 2(3) d(3)]
      have "adds n B B' (\<lambda>ip c. in_prefix (Suc depth) ?child ip
          \<and> country_at mmdb (tree_lookup mmdb skipped (n * 8 - Suc depth) (ucast (sr_value r)) ip (depth + 1)) c)"
        using d(2) by simp
      moreover have "rec_lookup mmdb skipped (n * 8 - Suc depth) r ip depth
          = tree_lookup mmdb skipped (n * 8 - Suc depth) (ucast (sr_value r)) ip (depth + 1)" for ip
        using RECORD_SEARCH_NODE False by (simp only: rec_lookup_def record_type.case if_False)
      ultimately show ?thesis by (simp only: in_child[OF d(1)] conj_assoc)
    qed
  next
    case (RECORD_OTHER t)
    then show ?thesis using v by simp
  qed
qed

text \<open>Siblings cover disjoint addresses, so a walk into uncovered addresses never meets a conflict.\<close>

definition database_error :: "geo_error \<Rightarrow> bool" where
  "database_error e \<longleftrightarrow> e \<noteq> Conflicting_countries \<and> (\<forall>p b. e \<noteq> Invalid_prefix_length p b)"

lemma read_country_error: "read_country mmdb entry = Inl e \<Longrightarrow> database_error e"
  by (auto simp: read_country_def read_iso_code_def IsoCountryId_new_def database_error_def Let_def
      split: aget_result.splits if_splits sum.splits option.splits)

lemma add_country_prefix_error:
  assumes "add_country_prefix mmdb entry a p B = Inl e" "buckets_ok n B" "length a = n" "p \<le> n * 8"
    "\<forall>ip c. in_prefix p a ip \<longrightarrow> \<not> covered B ip c"
  shows "database_error e"
proof -
  have "merge_prefix B c a p \<noteq> Inl e" for c using merge_prefix_stored[OF assms(2-5), of c] by auto
  then show ?thesis using assms(1) by (auto simp: add_country_prefix_def split: sum.splits option.splits dest: read_country_error)
qed

lemma walk_error:
  shows "\<lbrakk>walk_search_tree mmdb (add_country_prefix mmdb) skipped nn pfx depth B = Inl e; buckets_ok n B; length pfx = n; depth \<le> n * 8;
      \<forall>ip c. in_prefix depth pfx ip \<longrightarrow> \<not> covered B ip c\<rbrakk> \<Longrightarrow> database_error e"
  and "\<lbrakk>visit_rec mmdb (add_country_prefix mmdb) skipped nn r right pfx depth B = Inl e; buckets_ok n B; length pfx = n; depth < n * 8;
      \<forall>ip c. in_prefix depth pfx ip \<and> addr_bit ip depth = right \<longrightarrow> \<not> covered B ip c\<rbrakk> \<Longrightarrow> database_error e"
proof (induction mmdb "add_country_prefix mmdb" skipped nn pfx depth B and mmdb "add_country_prefix mmdb" skipped nn r right pfx depth B
    rule: walk_search_tree_visit_rec.induct)
  case (1 mmdb skipped nn pfx depth B)
  note w = 1(3)[unfolded walk_search_tree.simps[of mmdb "add_country_prefix mmdb"]]
  show ?case
  proof (cases "addr_bits pfx \<le> depth")
    case True
    then show ?thesis using w by (auto simp: database_error_def)
  next
    case d: False
    then have dn: "depth < n * 8" using 1(5) by (simp add: addr_bits_def)
    show ?thesis
    proof (cases "read_node mmdb nn")
      case (Inl x)
      then show ?thesis using w d by (auto simp: read_node_def database_error_def split: sum.splits)
    next
      case node: (Inr node)
      show ?thesis
      proof (cases "visit_rec mmdb (add_country_prefix mmdb) skipped nn (left_record node) False pfx depth B")
        case (Inl x)
        then show ?thesis using 1(1)[OF d node _ 1(4,5) dn] 1(7) w d node by auto
      next
        case l: (Inr B1)
        note a = walk_adds(2)[OF l 1(4,5) dn]
        then have "buckets_ok n B1" "\<forall>ip c. in_prefix depth pfx ip \<and> addr_bit ip depth = True \<longrightarrow> \<not> covered B1 ip c"
          using 1(7) by (auto simp: adds_def)
        from 1(2)[OF d node l _ this(1) 1(5) dn this(2)] show ?thesis using w d node l by simp
      qed
    qed
  qed
next
  case (2 mmdb skipped nn r right pfx depth B)
  let ?child = "set_prefix_bit pfx depth right"
  have d: "depth < addr_bits pfx" "Suc depth \<le> n * 8" "length ?child = n" using 2(4,5) by (simp_all add: addr_bits_def)
  note v = 2(2)[unfolded visit_rec.simps[of mmdb "add_country_prefix mmdb"] Let_def]
  have u: "\<forall>ip c. in_prefix (Suc depth) ?child ip \<longrightarrow> \<not> covered B ip c" using 2(6) by (simp add: in_child[OF d(1)])
  then show ?case
    using v 2(1)[OF refl] 2(3) d add_country_prefix_error[OF _ 2(3) d(3,2) u, of mmdb "sr_entry r" e]
    by (cases "sr_type r") (auto simp: database_error_def split: if_splits)
qed



section \<open>The networks of a country\<close>

text \<open>The entry of the database for an address, by family.\<close>

definition db_entry4 :: "MMDB_s \<Rightarrow> IpAddr \<Rightarrow> nat option" where
  "db_entry4 mmdb ip =
     (if mm_ip_version mmdb = 4 then tree_lookup mmdb None 32 0 ip 0
      else if mm_ipv4_node mmdb < mm_node_count mmdb then tree_lookup mmdb None 32 (mm_ipv4_node mmdb) ip 0
      else if mm_ipv4_node mmdb = mm_node_count mmdb then None
      else case MMDB_lookup_root4 mmdb of Inr e \<Rightarrow> e | Inl _ \<Rightarrow> None)"

definition db_entry6 :: "MMDB_s \<Rightarrow> IpAddr \<Rightarrow> nat option" where
  "db_entry6 mmdb ip =
     (if mm_ip_version mmdb \<noteq> 6 then None
      else tree_lookup mmdb (if mm_ipv4_netmask mmdb = 96 \<and> mm_ipv4_node mmdb < mm_node_count mmdb
        then Some (mm_ipv4_node mmdb) else None) 128 0 ip 0)"

lemma empty_buckets_ok: "buckets_ok n (empty_buckets (n * 8))" "fully_merged (empty_buckets b)" "\<not> covered (empty_buckets b) ip c"
  by (auto simp: buckets_ok_def fully_merged_def covered_def empty_buckets_def simp del: replicate.simps)

definition holds_db :: "nat \<Rightarrow> PrefixBuckets \<Rightarrow> MMDB_s \<Rightarrow> (IpAddr \<Rightarrow> nat option) \<Rightarrow> bool" where
  "holds_db n B mmdb entry \<longleftrightarrow> buckets_ok n B \<and> fully_merged B
     \<and> (\<forall>ip c. covered B ip c \<longleftrightarrow> length ip = n \<and> country_at mmdb (entry ip) c)"

lemma holds_dbI:
  assumes "adds n (empty_buckets (n * 8)) B (\<lambda>ip c. in_prefix 0 (replicate n 0) ip \<and> country_at mmdb (entry ip) c)"
  shows "holds_db n B mmdb entry"
  using assms empty_buckets_ok by (simp add: holds_db_def adds_def in_prefix_def)

lemma import_ipv4_tree_ok:
  assumes "import_ipv4_tree mmdb (empty_buckets 32) = Inr B"
  shows "holds_db 4 B mmdb (db_entry4 mmdb)"
proof -
  have ok: "buckets_ok 4 (empty_buckets 32)" using empty_buckets_ok(1)[of 4] by simp
  have none: "adds 4 (empty_buckets 32) (empty_buckets 32) (\<lambda>ip c. in_prefix 0 (replicate 4 0) ip \<and> country_at mmdb None c)"
    using ok by (simp add: adds_def country_at_def)
  have "adds 4 (empty_buckets 32) B (\<lambda>ip c. in_prefix 0 (replicate 4 0) ip \<and> country_at mmdb (db_entry4 mmdb ip) c)"
    using assms none ok walk_adds(1)[where n = 4 and depth = 0 and pfx = "replicate 4 0" and B = "empty_buckets 32" and B' = B and mmdb = mmdb]
      add_country_prefix_adds[where n = 4 and p = 0 and a = "replicate 4 0" and B = "empty_buckets 32" and B' = B and mmdb = mmdb]
    by (auto simp: import_ipv4_tree_def db_entry4_def Let_def split: if_splits sum.splits option.splits)
  then show ?thesis using holds_dbI[of 4] by simp
qed

lemma import_ipv6_tree_ok:
  assumes "import_ipv6_tree mmdb (empty_buckets 128) = Inr B"
  shows "holds_db 16 B mmdb (db_entry6 mmdb)"
proof -
  have ok: "buckets_ok 16 (empty_buckets 128)" using empty_buckets_ok(1)[of 16] by simp
  have none: "adds 16 (empty_buckets 128) (empty_buckets 128) (\<lambda>ip c. in_prefix 0 (replicate 16 0) ip \<and> country_at mmdb None c)"
    using ok by (simp add: adds_def country_at_def)
  have "adds 16 (empty_buckets 128) B (\<lambda>ip c. in_prefix 0 (replicate 16 0) ip \<and> country_at mmdb (db_entry6 mmdb ip) c)"
    using assms none ok walk_adds(1)[where n = 16 and depth = 0 and pfx = "replicate 16 0" and B = "empty_buckets 128" and B' = B and mmdb = mmdb]
    by (auto simp: import_ipv6_tree_def db_entry6_def Let_def split: if_splits)
  then show ?thesis using holds_dbI[of 16] by simp
qed

lemma import_error:
  assumes "import_maxmind_geodata mmdb = Inl e"
  shows "database_error e"
proof -
  have ok: "buckets_ok 4 (empty_buckets 32)" "buckets_ok 16 (empty_buckets 128)"
    using empty_buckets_ok(1)[of 4] empty_buckets_ok(1)[of 16] by simp_all
  have "import_ipv4_tree mmdb (empty_buckets 32) = Inl e \<or> import_ipv6_tree mmdb (empty_buckets 128) = Inl e"
    using assms by (auto simp: import_maxmind_geodata_def split: sum.splits)
  then show ?thesis
  proof
    assume "import_ipv4_tree mmdb (empty_buckets 32) = Inl e"
    then show ?thesis
      using walk_error(1)[of mmdb None _ "replicate 4 0" 0 "empty_buckets 32" e 4]
        add_country_prefix_error[of mmdb _ "replicate 4 0" 0 "empty_buckets 32" e 4] ok(1) empty_buckets_ok(3)
      by (auto simp: import_ipv4_tree_def Let_def database_error_def split: if_splits sum.splits option.splits)
  next
    assume "import_ipv6_tree mmdb (empty_buckets 128) = Inl e"
    then show ?thesis
      using walk_error(1)[of mmdb _ 0 "replicate 16 0" 0 "empty_buckets 128" e 16] ok(2) empty_buckets_ok(3)
      by (auto simp: import_ipv6_tree_def Let_def split: if_splits)
  qed
qed

lemma networks_update: "country_networks (AList.update k g m) c = (if c = k then g else country_networks m c)"
  by (simp add: country_networks_def update_conv')

lemma networks_push:
  "gc_ip4 (country_networks (push_ip4 p (a, d) m) c) = gc_ip4 (country_networks m c)
     @ (if d = c then [\<lparr>g4_prefixlen = word_of_nat p, g4_addr = cast32 a\<rparr>] else [])"
  "gc_ip6 (country_networks (push_ip4 p (a, d) m) c) = gc_ip6 (country_networks m c)"
  "gc_ip6 (country_networks (push_ip6 p (a, d) m) c) = gc_ip6 (country_networks m c)
     @ (if d = c then [\<lparr>g6_prefixlen = word_of_nat p, g6_addr = cast128 a\<rparr>] else [])"
  "gc_ip4 (country_networks (push_ip6 p (a, d) m) c) = gc_ip4 (country_networks m c)"
  by (simp_all add: push_ip4_def push_ip6_def networks_update)

lemma fold_push:
  assumes "\<And>p a d m c. f (country_networks (push p (a, d) m) c) = f (country_networks m c) @ (if d = c then [g p a] else [])"
  shows "set (f (country_networks (fold (push p) xs m) c)) = set (f (country_networks m c)) \<union> {g p a |a. (a, c) \<in> set xs}"
    and "set (f (country_networks (push_buckets push B m) c)) = set (f (country_networks m c)) \<union> {g p a |p a. p < length B \<and> (a, c) \<in> set (B ! p)}"
proof -
  show one: "set (f (country_networks (fold (push p) xs m) c)) = set (f (country_networks m c)) \<union> {g p a |a. (a, c) \<in> set xs}" for p xs m
    by (induction xs arbitrary: m) (auto simp: assms)
  have "set (f (country_networks (fold (\<lambda>plen. fold (push plen) (B ! plen)) ps m) c))
      = set (f (country_networks m c)) \<union> {g p a |p a. p \<in> set ps \<and> (a, c) \<in> set (B ! p)}" for ps
    by (induction ps arbitrary: m) (auto simp: one)
  then show "set (f (country_networks (push_buckets push B m) c))
      = set (f (country_networks m c)) \<union> {g p a |p a. p < length B \<and> (a, c) \<in> set (B ! p)}"
    by (simp add: push_buckets_def)
qed

lemma fold_push_other:
  assumes "\<And>p a d m. f (country_networks (push p (a, d) m) c) = f (country_networks m c)"
  shows "f (country_networks (push_buckets push B m) c) = f (country_networks m c)"
proof -
  have one: "f (country_networks (fold (push p) xs m) c) = f (country_networks m c)" for p xs m
    by (induction xs arbitrary: m) (auto simp: assms)
  have "f (country_networks (fold (\<lambda>plen. fold (push plen) (B ! plen)) ps m) c) = f (country_networks m c)" for ps
    by (induction ps arbitrary: m) (auto simp: one)
  then show ?thesis by (simp add: push_buckets_def)
qed

lemma build_networks:
  "set (gc_ip4 (country_networks (build_country_map B4 B6) c))
     = {\<lparr>g4_prefixlen = word_of_nat p, g4_addr = cast32 a\<rparr> |p a. p < length B4 \<and> (a, c) \<in> set (B4 ! p)}"
  "set (gc_ip6 (country_networks (build_country_map B4 B6) c))
     = {\<lparr>g6_prefixlen = word_of_nat p, g6_addr = cast128 a\<rparr> |p a. p < length B6 \<and> (a, c) \<in> set (B6 ! p)}"
proof -
  have s: "set (gc_ip4 (country_networks (sort_country_prefixes m) c)) = set (gc_ip4 (country_networks m c))"
    "set (gc_ip6 (country_networks (sort_country_prefixes m) c)) = set (gc_ip6 (country_networks m c))" for m
    by (simp_all add: country_networks_def sort_country_prefixes_def map_of_map split: option.split)
  have e: "country_networks [] c = \<lparr>gc_ip4 = [], gc_ip6 = []\<rparr>" by (simp add: country_networks_def)
  show "set (gc_ip4 (country_networks (build_country_map B4 B6) c))
     = {\<lparr>g4_prefixlen = word_of_nat p, g4_addr = cast32 a\<rparr> |p a. p < length B4 \<and> (a, c) \<in> set (B4 ! p)}"
    by (simp add: build_country_map_def s e fold_push_other[of gc_ip4 push_ip6, OF networks_push(4)]
        fold_push(2)[of gc_ip4 push_ip4, OF networks_push(1)])
  show "set (gc_ip6 (country_networks (build_country_map B4 B6) c))
     = {\<lparr>g6_prefixlen = word_of_nat p, g6_addr = cast128 a\<rparr> |p a. p < length B6 \<and> (a, c) \<in> set (B6 ! p)}"
    by (simp add: build_country_map_def s e fold_push_other[of gc_ip6 push_ip4, OF networks_push(2)]
        fold_push(2)[of gc_ip6 push_ip6, OF networks_push(3)])
qed

lemma cast32_bytes:
  fixes a b c d :: u8
  defines "w \<equiv> ucast a OR push_bit 8 (ucast b) OR push_bit 16 (ucast c) OR push_bit 24 (ucast d) :: u32"
  shows "ucast w = a" "ucast (drop_bit 8 w) = b" "ucast (drop_bit 16 w) = c" "ucast (drop_bit 24 w) = d"
  unfolding w_def by (rule bit_word_eqI, auto simp: bit_simps dest: bit_imp_le_length)+

lemma bytes32_cast32: "length a = 4 \<Longrightarrow> bytes32 (cast32 a) = a"
proof -
  assume "length a = 4"
  then obtain b c d e where "a = [b, c, d, e]" by (auto simp: length_Suc_conv numeral_eq_Suc)
  moreover have "[0..<4] = [0, 1, 2, 3]" by (simp add: upt_rec)
  ultimately show ?thesis by (simp add: bytes32_def cast32_def cast32_bytes del: drop_bit_or)
qed

lemma bytes128_cast128: "length a = 16 \<Longrightarrow> bytes128 (cast128 a) = a"
proof -
  assume "length a = 16"
  moreover have "take 4 a @ take 4 (drop 4 a) @ take 4 (drop 8 a) @ drop 12 a = a"
    using append_take_drop_id[of 4 a] append_take_drop_id[of 4 "drop 4 a"] append_take_drop_id[of 4 "drop 8 a"] by simp
  ultimately show ?thesis by (simp add: bytes128_def cast128_def bytes32_cast32)
qed

lemma covered_iff_set:
  assumes "buckets_ok n B"
  shows "covered B ip c \<longleftrightarrow> (\<exists>p a. p < length B \<and> (a, c) \<in> set (B ! p) \<and> length a = n \<and> in_prefix p a ip)"
proof -
  have "map_of (B ! p) a = Some c \<longleftrightarrow> (a, c) \<in> set (B ! p) \<and> length a = n" if "p < length B" for p a
    using buckets_okD[OF assms that] by (force simp: map_of_eq_Some_iff)
  then show ?thesis unfolding covered_def by blast
qed

lemma lookup_networks:
  "lookup_country c m = Some ips \<Longrightarrow> country_networks m c = ips"
  "lookup_country c m = None \<Longrightarrow> country_networks m c = \<lparr>gc_ip4 = [], gc_ip6 = []\<rparr>"
  by (simp_all add: lookup_country_def country_networks_def)

text \<open>The addresses under the keys of a geo entry.\<close>

definition covers4 :: "Net4Key list \<Rightarrow> IpAddr \<Rightarrow> bool" where
  "covers4 ks ip \<longleftrightarrow> (\<exists>k \<in> set ks. in_prefix (unat (n4_prefixlen k)) (bytes32 (n4_addr k)) ip)"

definition covers6 :: "Net6Key list \<Rightarrow> IpAddr \<Rightarrow> bool" where
  "covers6 ks ip \<longleftrightarrow> (\<exists>k \<in> set ks. in_prefix (unat (n6_prefixlen k)) (bytes128 (n6_addr k)) ip)"

lemma bex_image2: "(\<exists>x \<in> {F p a |p a. P p a}. Q x) \<longleftrightarrow> (\<exists>p a. P p a \<and> Q (F p a))"
  by blast

lemma build_covers:
  assumes "holds_db 4 B4 mmdb entry4" "holds_db 16 B6 mmdb entry6" and g_def: "g = country_networks (build_country_map B4 B6) c"
  shows "covers4 (map (\<lambda>x. \<lparr>n4_prefixlen = g4_prefixlen x, n4_addr = g4_addr x\<rparr>) (gc_ip4 g)) ip \<longleftrightarrow> length ip = 4 \<and> country_at mmdb (entry4 ip) c"
    and "covers6 (map (\<lambda>x. \<lparr>n6_prefixlen = g6_prefixlen x, n6_addr = g6_addr x\<rparr>) (gc_ip6 g)) ip \<longleftrightarrow> length ip = 16 \<and> country_at mmdb (entry6 ip) c"
proof -
  have ok: "buckets_ok 4 B4" "buckets_ok 16 B6" using assms(1,2) by (simp_all add: holds_db_def)
  have len: "\<And>p. p < length B4 \<Longrightarrow> unat (word_of_nat p :: u16) = p" "\<And>p. p < length B6 \<Longrightarrow> unat (word_of_nat p :: u16) = p"
    using ok by (simp_all add: buckets_ok_def unsigned_of_nat take_bit_nat_eq_self)
  have a: "length a = 4" if "p < length B4" "(a, c) \<in> set (B4 ! p)" for p a using buckets_okD(2)[OF ok(1) that(1)] that(2) by force
  have b: "length a = 16" if "p < length B6" "(a, c) \<in> set (B6 ! p)" for p a using buckets_okD(2)[OF ok(2) that(1)] that(2) by force
  have "covers4 (map (\<lambda>x. \<lparr>n4_prefixlen = g4_prefixlen x, n4_addr = g4_addr x\<rparr>) (gc_ip4 g)) ip \<longleftrightarrow> covered B4 ip c"
    unfolding covered_iff_set[OF ok(1)] covers4_def g_def set_map bex_simps(7) build_networks(1)
    using len(1) a bytes32_cast32 by (simp only: bex_image2 Net4Key.simps Net4Geo.simps) metis
  then show "covers4 (map (\<lambda>x. \<lparr>n4_prefixlen = g4_prefixlen x, n4_addr = g4_addr x\<rparr>) (gc_ip4 g)) ip \<longleftrightarrow> length ip = 4 \<and> country_at mmdb (entry4 ip) c"
    using assms(1) by (simp add: holds_db_def)
  have "covers6 (map (\<lambda>x. \<lparr>n6_prefixlen = g6_prefixlen x, n6_addr = g6_addr x\<rparr>) (gc_ip6 g)) ip \<longleftrightarrow> covered B6 ip c"
    unfolding covered_iff_set[OF ok(2)] covers6_def g_def set_map bex_simps(7) build_networks(2)
    using len(2) b bytes128_cast128 by (simp only: bex_image2 Net6Key.simps Net6Geo.simps) metis
  then show "covers6 (map (\<lambda>x. \<lparr>n6_prefixlen = g6_prefixlen x, n6_addr = g6_addr x\<rparr>) (gc_ip6 g)) ip \<longleftrightarrow> length ip = 16 \<and> country_at mmdb (entry6 ip) c"
    using assms(2) by (simp add: holds_db_def)
qed

lemma import_holds_db:
  assumes "import_maxmind_geodata mmdb = Inr geodb"
  shows "\<exists>B4 B6. geodb = build_country_map B4 B6 \<and> holds_db 4 B4 mmdb (db_entry4 mmdb) \<and> holds_db 16 B6 mmdb (db_entry6 mmdb)"
  using assms by (auto simp: import_maxmind_geodata_def split: sum.splits dest: import_ipv4_tree_ok import_ipv6_tree_ok)

text \<open>
  C10. The networks loaded for a country cover exactly the addresses the database has under
  that country: after the import, in which adjacent networks are merged, an IPv4 (IPv6)
  address is under one of the IPv4 (IPv6) keys of a geo entry if and only if following its
  bits through the search tree leads to a record of the country.
\<close>

theorem geo_networks_match_database:
  assumes "import_maxmind_geodata mmdb = Inr geodb" "load_geo_entry geodb e v4 v6 = Inr e'" "IsoCountryId_new (code_str e) = Inr c"
  shows "(v4 \<longrightarrow> covers4 (geo_net4s e') ip \<longleftrightarrow> length ip = 4 \<and> country_at mmdb (db_entry4 mmdb ip) c)
    \<and> (v6 \<longrightarrow> covers6 (geo_net6s e') ip \<longleftrightarrow> length ip = 16 \<and> country_at mmdb (db_entry6 mmdb ip) c)"
proof -
  obtain B4 B6 where B: "geodb = build_country_map B4 B6" "holds_db 4 B4 mmdb (db_entry4 mmdb)" "holds_db 16 B6 mmdb (db_entry6 mmdb)"
    using import_holds_db[OF assms(1)] by blast
  obtain g where g: "lookup_country c geodb = Some g"
      "e' = e\<lparr>geo_net4s := if v4 then map (\<lambda>x. \<lparr>n4_prefixlen = g4_prefixlen x, n4_addr = g4_addr x\<rparr>) (gc_ip4 g) else [],
        geo_net6s := if v6 then map (\<lambda>x. \<lparr>n6_prefixlen = g6_prefixlen x, n6_addr = g6_addr x\<rparr>) (gc_ip6 g) else []\<rparr>"
    using assms(2,3) by (auto simp: load_geo_entry_def split: if_splits option.splits)
  have "g = country_networks (build_country_map B4 B6) c" using lookup_networks(1)[OF g(1)] B(1) by simp
  from build_covers[OF B(2,3) this] show ?thesis by (simp add: g(2))
qed

text \<open>
  C25. The import fails only if libmaxminddb reports an error or the database is malformed,
  never because of a conflict between networks or an invalid prefix length, whatever the
  merging did; and a country without networks in the result is the country of no address.
\<close>

theorem geo_import_complete:
  "(import_maxmind_geodata mmdb = Inl e \<longrightarrow> e \<noteq> Conflicting_countries \<and> (\<forall>p b. e \<noteq> Invalid_prefix_length p b))
   \<and> (import_maxmind_geodata mmdb = Inr geodb \<and> lookup_country c geodb = None \<longrightarrow>
       (\<forall>ip. length ip = 4 \<longrightarrow> \<not> country_at mmdb (db_entry4 mmdb ip) c) \<and> (\<forall>ip. length ip = 16 \<longrightarrow> \<not> country_at mmdb (db_entry6 mmdb ip) c))"
proof (intro conjI impI)
  assume "import_maxmind_geodata mmdb = Inl e"
  from import_error[OF this] show "e \<noteq> Conflicting_countries" "\<forall>p b. e \<noteq> Invalid_prefix_length p b" by (simp_all add: database_error_def)
next
  assume a: "import_maxmind_geodata mmdb = Inr geodb \<and> lookup_country c geodb = None"
  then obtain B4 B6 where B: "geodb = build_country_map B4 B6" "holds_db 4 B4 mmdb (db_entry4 mmdb)" "holds_db 16 B6 mmdb (db_entry6 mmdb)"
    using import_holds_db by blast
  note c = build_covers[OF B(2,3) refl, of c]
  have "country_networks (build_country_map B4 B6) c = \<lparr>gc_ip4 = [], gc_ip6 = []\<rparr>" using lookup_networks(2) a B(1) by blast
  with c show "\<forall>ip. length ip = 4 \<longrightarrow> \<not> country_at mmdb (db_entry4 mmdb ip) c" "\<forall>ip. length ip = 16 \<longrightarrow> \<not> country_at mmdb (db_entry6 mmdb ip) c"
    by (auto simp: covers4_def covers6_def)
qed

text \<open>A database of two nodes: the networks 0.0.0.0/2 and 64.0.0.0/2 belong to the US.\<close>

definition test_record :: "record_type \<Rightarrow> u64 \<Rightarrow> nat \<Rightarrow> search_record" where
  "test_record t v e = \<lparr>sr_type = t, sr_value = v, sr_entry = e\<rparr>"

definition test_mmdb :: MMDB_s where
  "test_mmdb = \<lparr>MMDB_aget_value = (\<lambda>e path. if path = [''country'', ''iso_code''] then Aget_data \<lparr>ed_has_data = True, ed_is_utf8 = True, ed_bytes = [85, 83]\<rparr>
       else Path_does_not_match),
     MMDB_read_node = (\<lambda>n. if n = 0 then Inr \<lparr>left_record = test_record RECORD_SEARCH_NODE 1 0, right_record = test_record RECORD_EMPTY 2 0\<rparr>
       else if n = 1 then Inr \<lparr>left_record = test_record RECORD_DATA 18 18, right_record = test_record RECORD_DATA 19 19\<rparr>
       else Inl 5),
     MMDB_lookup_root4 = Inr None, mm_ip_version = 4, mm_node_count = 2, mm_ipv4_node = 0, mm_ipv4_netmask = 0\<rparr>"

lemma test_import:
  "import_maxmind_geodata test_mmdb = Inr [(IsoCountryId 117 115, \<lparr>gc_ip4 = [\<lparr>g4_prefixlen = 1, g4_addr = 0\<rparr>], gc_ip6 = []\<rparr>)]"
  by code_simp

theorem geo_networks_match_database_witness:
  "\<exists>geodb e'. import_maxmind_geodata test_mmdb = Inr geodb
     \<and> load_geo_entry geodb \<lparr>geo_code = 0x7375, geo_net4s = [], geo_net6s = []\<rparr> True False = Inr e'
     \<and> covers4 (geo_net4s e') [10, 0, 0, 1] \<and> \<not> covers4 (geo_net4s e') [200, 0, 0, 1]"
proof -
  let ?geodb = "[(IsoCountryId 117 115, \<lparr>gc_ip4 = [\<lparr>g4_prefixlen = 1, g4_addr = 0\<rparr>], gc_ip6 = []\<rparr>)]"
  let ?e = "\<lparr>geo_code = 0x7375, geo_net4s = [], geo_net6s = []\<rparr>" and ?e' = "\<lparr>geo_code = 0x7375, geo_net4s = [\<lparr>n4_prefixlen = 1, n4_addr = 0\<rparr>], geo_net6s = []\<rparr>"
  have l: "load_geo_entry ?geodb ?e True False = Inr ?e'" by code_simp
  have c: "IsoCountryId_new (code_str ?e) = Inr (IsoCountryId 117 115)" by code_simp
  have d: "db_entry4 test_mmdb [10, 0, 0, 1] = Some 18" "db_entry4 test_mmdb [200, 0, 0, 1] = None"
    "read_country test_mmdb 18 = Inr (Some (IsoCountryId 117 115))" by code_simp+
  from geo_networks_match_database[OF test_import l c, of "[10, 0, 0, 1]"] geo_networks_match_database[OF test_import l c, of "[200, 0, 0, 1]"]
  show ?thesis using test_import l d by (auto simp: country_at_def)
qed

theorem geo_import_complete_witness:
  "import_maxmind_geodata (test_mmdb\<lparr>MMDB_read_node := \<lambda>n. Inl 5\<rparr>) = Inl (Mmdb_failure 5) \<and> Mmdb_failure 5 \<noteq> Conflicting_countries
   \<and> \<not> country_at test_mmdb (db_entry4 test_mmdb [10, 0, 0, 1]) (IsoCountryId 100 101)"
proof -
  have "import_maxmind_geodata (test_mmdb\<lparr>MMDB_read_node := \<lambda>n. Inl 5\<rparr>) = Inl (Mmdb_failure 5)" by code_simp
  moreover have "lookup_country (IsoCountryId 100 101) [(IsoCountryId 117 115, g)] = None" for g by (simp add: lookup_country_def)
  then have "\<forall>ip. length ip = 4 \<longrightarrow> \<not> country_at test_mmdb (db_entry4 test_mmdb ip) (IsoCountryId 100 101)"
    using geo_import_complete[where mmdb = test_mmdb and c = "IsoCountryId 100 101"] test_import by blast
  ultimately show ?thesis
    using geo_import_complete[of "test_mmdb\<lparr>MMDB_read_node := \<lambda>n. Inl 5\<rparr>" "Mmdb_failure 5"] by simp
qed

end
