(* ===== verification/ConfigUpdater.thy ===== *)
theory ConfigUpdater
  imports SetConfig GeoIp "HOL-Library.Char_ord"
begin

text \<open>
  Updating the configuration from a message (\<open>manager/xfw_config_updater.cc\<close>,
  \<open>manager/proto_wrappers.hh\<close>, \<open>lib/proto/proto.fbs\<close>). A message adds, replaces and deletes rules
  under their aliases; the updater works on a copy of the stored configuration and hands the
  result to \<open>set_config\<close>. A field of a message that may be absent is an option, as is an element
  of a vector where the source tests for a null pointer.
\<close>


section \<open>Messages\<close>

datatype XFWOpt =
    XFW_CONFIG_PATCH | TCP_ANOMALY_FILTER_OFF | TCP_AUTH_FILTER_ON | TCP_AUTH_FILTER_OFF | EVALUATION_MODE_ON
  | EVALUATION_MODE_OFF | TCP_SYNCOOKIE_FILTER_OFF | TCP_SYN_FLAGS_FILTER_OFF | TCP_RST_FLAGS_FILTER_OFF
  | DNS_FILTER_ON | DNS_FILTER_OFF | IP_PROTO_FILTER_OFF

primrec XFWOpt_bit :: "XFWOpt \<Rightarrow> nat" where
  "XFWOpt_bit XFW_CONFIG_PATCH = 0"
| "XFWOpt_bit TCP_ANOMALY_FILTER_OFF = 1"
| "XFWOpt_bit TCP_AUTH_FILTER_ON = 2"
| "XFWOpt_bit TCP_AUTH_FILTER_OFF = 3"
| "XFWOpt_bit EVALUATION_MODE_ON = 4"
| "XFWOpt_bit EVALUATION_MODE_OFF = 5"
| "XFWOpt_bit TCP_SYNCOOKIE_FILTER_OFF = 6"
| "XFWOpt_bit TCP_SYN_FLAGS_FILTER_OFF = 7"
| "XFWOpt_bit TCP_RST_FLAGS_FILTER_OFF = 8"
| "XFWOpt_bit DNS_FILTER_ON = 9"
| "XFWOpt_bit DNS_FILTER_OFF = 10"
| "XFWOpt_bit IP_PROTO_FILTER_OFF = 11"

definition XFWOpt_MAX :: nat where "XFWOpt_MAX = 11"

datatype NetRuleOpt = NET_IPV6 | NET_TCP | NET_SRC | NET_ALLOW | NET_REPLACE | NET_DELETE | NET_PROTECTED_NET

primrec NetRuleOpt_bit :: "NetRuleOpt \<Rightarrow> nat" where
  "NetRuleOpt_bit NET_IPV6 = 0"
| "NetRuleOpt_bit NET_TCP = 1"
| "NetRuleOpt_bit NET_SRC = 2"
| "NetRuleOpt_bit NET_ALLOW = 3"
| "NetRuleOpt_bit NET_REPLACE = 4"
| "NetRuleOpt_bit NET_DELETE = 5"
| "NetRuleOpt_bit NET_PROTECTED_NET = 6"

definition NetRuleOpt_MAX :: nat where "NetRuleOpt_MAX = 6"

datatype IcmpRuleOpt = ICMP_IPV6 | ICMP_ALLOW | ICMP_REPLACE | ICMP_DELETE

primrec IcmpRuleOpt_bit :: "IcmpRuleOpt \<Rightarrow> nat" where
  "IcmpRuleOpt_bit ICMP_IPV6 = 0"
| "IcmpRuleOpt_bit ICMP_ALLOW = 1"
| "IcmpRuleOpt_bit ICMP_REPLACE = 2"
| "IcmpRuleOpt_bit ICMP_DELETE = 3"

definition IcmpRuleOpt_MAX :: nat where "IcmpRuleOpt_MAX = 3"

definition RatelimitOpt_DELETE :: nat where "RatelimitOpt_DELETE = 0"

definition XFW_BAD_FLAGS :: nat where "XFW_BAD_FLAGS = 0"
definition XFW_SYN_WIHOUT_OPTIONS :: nat where "XFW_SYN_WIHOUT_OPTIONS = 1"
definition XFW_SYN_WITH_PAYLOAD :: nat where "XFW_SYN_WITH_PAYLOAD = 2"
definition XFW_SYN_WITH_SEQ_NO :: nat where "XFW_SYN_WITH_SEQ_NO = 3"
definition XFW_TCP_ANOMALY_FEATURE_MAX :: nat where "XFW_TCP_ANOMALY_FEATURE_MAX = 4"
definition XFW_SUPPORTED_PROTOCOL_MAX :: nat where "XFW_SUPPORTED_PROTOCOL_MAX = 255"

text \<open>The indices of \<open>enum DefaultIndex\<close>, in order; \<open>XFW_DEFAULT_MAX\<close> is their number.\<close>

definition default_indices :: "DefaultIndex list" where
  "default_indices = [XFW_DEFAULT_SRC_IP_TCP_IP4, XFW_DEFAULT_SRC_IP_TCP_IP6, XFW_DEFAULT_SRC_IP_UDP_IP4, XFW_DEFAULT_SRC_IP_UDP_IP6,
     XFW_DEFAULT_SRC_PORT_TCP_IP4, XFW_DEFAULT_SRC_PORT_TCP_IP6, XFW_DEFAULT_SRC_PORT_UDP_IP4, XFW_DEFAULT_SRC_PORT_UDP_IP6,
     XFW_DEFAULT_DST_TCP_IP4, XFW_DEFAULT_DST_TCP_IP6, XFW_DEFAULT_DST_UDP_IP4, XFW_DEFAULT_DST_UDP_IP6,
     XFW_DEFAULT_ICMP_IP4, XFW_DEFAULT_ICMP_IP6]"

record msg_Syncookie =
  ms_passive_timer :: u32
  ms_flood_timer :: u32

record msg_TcpAnomaly =
  ma_features :: "u8 list option"
  ma_bad_tcp_flags :: "u8 list option"
  ma_seqno_value :: u32

record msg_IpProto =
  mp_protocols :: "u8 list option"

datatype TcpFlagType = TCP_FLAG_ALL | TCP_FLAG_SYN | TCP_FLAG_RST | TCP_FLAG_OTHER u8

record msg_TcpFlagsFilter =
  mt_flag :: TcpFlagType
  mt_ratelimit :: "string option"

text \<open>\<open>Net4\<close> and \<open>Net6\<close> differ in the length of the address only.\<close>

record msg_Net =
  mn_addr :: "u8 list option"
  mn_port :: u16
  mn_prefix :: u8

record msg_NetCode =
  mc_port :: u16
  mc_code :: u16

record msg_PortPair =
  mp_port :: u16
  mp_port_end :: u16

record msg_NetRule =
  mr_alias :: "string option"
  mr_flags :: "u8 list option"
  mr_net6s :: "msg_Net option list option"
  mr_net4s :: "msg_Net option list option"
  mr_nets :: "msg_NetCode option list option"
  mr_ports :: "msg_PortPair list option"
  mr_ratelimit :: "string option"

record msg_IcmpRule =
  mi_alias :: "string option"
  mi_flags :: "u8 list option"
  mi_types :: "u8 list option"
  mi_ratelimit :: "string option"

record msg_Ratelimit =
  ml_alias :: "string option"
  ml_flags :: "u8 list option"
  ml_pps :: u64
  ml_bps :: u64

record msg_DefaultAction =
  md_flags :: "u8 list option"
  md_allow :: bool
  md_ratelimit :: "string option"

record XFWCfg =
  x_flags :: "u8 list option"
  x_ip_proto :: "msg_IpProto option"
  x_syncookie :: "msg_Syncookie option"
  x_tcp_flags :: "msg_TcpFlagsFilter option list option"
  x_net_rules :: "msg_NetRule option list option"
  x_icmp_rules :: "msg_IcmpRule option list option"
  x_ratelimits :: "msg_Ratelimit option list option"
  x_defaults :: "msg_DefaultAction option list option"
  x_tcp_anomaly :: "msg_TcpAnomaly option"


section \<open>Errors\<close>

datatype update_error =
    Null_field string | Empty_field string | Bytes_count string | Alias_too_big string | Replace_and_delete
  | Rule_not_found string | Port_prohibited | Port_required | Zero_address | Address_size
  | Bad_port_range u16 u16 | Already_exists | Matcher_not_found | Port_outside_src | Geo_outside_src
  | Two_identical_defaults | Unknown_tcp_flag u8 | Syncookies_in_evaluation
  | Ratelimit_error rate_error | Geo_error geo_error | Apply_error mgr_error

definition bindE :: "'e + 'a \<Rightarrow> ('a \<Rightarrow> 'e + 'b) \<Rightarrow> 'e + 'b" where
  "bindE m f = (case m of Inl e \<Rightarrow> Inl e | Inr x \<Rightarrow> f x)"

text \<open>\<open>verify\<close> throws unless the condition holds; the third argument is what follows.\<close>

definition verify :: "bool \<Rightarrow> update_error \<Rightarrow> update_error + 'a \<Rightarrow> update_error + 'a" where
  "verify cond e rest = (if cond then rest else Inl e)"

definition non_null :: "string \<Rightarrow> 'a option \<Rightarrow> ('a \<Rightarrow> update_error + 'b) \<Rightarrow> update_error + 'b" where
  "non_null field p f = (case p of None \<Rightarrow> Inl (Null_field field) | Some x \<Rightarrow> f x)"

fun foldE :: "('a \<Rightarrow> 's \<Rightarrow> 'e + 's) \<Rightarrow> 'a list \<Rightarrow> 's \<Rightarrow> 'e + 's" where
  "foldE f [] s = Inr s"
| "foldE f (x # xs) s = bindE (f x s) (foldE f xs)"

text \<open>A loop over a vector that may be absent.\<close>

definition for_all :: "'a list option \<Rightarrow> ('a \<Rightarrow> 's \<Rightarrow> 'e + 's) \<Rightarrow> 's \<Rightarrow> 'e + 's" where
  "for_all v f s = (case v of None \<Rightarrow> Inr s | Some xs \<Rightarrow> foldE f xs s)"

definition read_bitset :: "nat \<Rightarrow> string \<Rightarrow> u8 list \<Rightarrow> (BitSet \<Rightarrow> update_error + 'a) \<Rightarrow> update_error + 'a" where
  "read_bitset max_bit field vec f =
     (case bitset_deserialize max_bit vec of None \<Rightarrow> Inl (Bytes_count field) | Some bs \<Rightarrow> f bs)"

definition rate_result :: "rate_error + 'a \<Rightarrow> update_error + 'a" where
  "rate_result r = (case r of Inl e \<Rightarrow> Inl (Ratelimit_error e) | Inr x \<Rightarrow> Inr x)"


section \<open>Containers\<close>

text \<open>
  \<open>std::set\<close> and \<open>std::map\<close> as lists in the order of iteration: \<open>set_insert\<close> fails if the
  element is there, \<open>set_erase\<close> if it is not.
\<close>

definition set_insert :: "('a \<Rightarrow> 'k::linorder) \<Rightarrow> 'a \<Rightarrow> 'a list \<Rightarrow> update_error + 'a list" where
  "set_insert key x xs = (if key x \<in> key ` set xs then Inl Already_exists else Inr (insort_key key x xs))"

definition set_erase :: "'a \<Rightarrow> 'a list \<Rightarrow> update_error + 'a list" where
  "set_erase x xs = (if x \<in> set xs then Inr (remove1 x xs) else Inl Matcher_not_found)"

text \<open>A vector without duplicates: \<open>std::find\<close>, then \<open>push_back\<close>.\<close>

definition vector_add :: "'a \<Rightarrow> 'a list \<Rightarrow> update_error + 'a list" where
  "vector_add x xs = (if x \<in> set xs then Inl Already_exists else Inr (xs @ [x]))"

definition net4_order :: "Net4Key \<Rightarrow> u32 \<times> u16" where
  "net4_order k = (n4_addr k, n4_prefixlen k)"

definition net6_order :: "Net6Key \<Rightarrow> u16 \<times> u8 list" where
  "net6_order k = (n6_prefixlen k, bytes128 (n6_addr k))"

definition insert_or_assign :: "string \<Rightarrow> 'r \<Rightarrow> (string \<times> 'r) list \<Rightarrow> (string \<times> 'r) list" where
  "insert_or_assign alias r m =
     (if alias \<in> fst ` set m then map (\<lambda>(k, v). (k, if k = alias then r else v)) m else insort_key fst (alias, r) m)"

text \<open>An update through the reference \<open>get_rule\<close> returns.\<close>

definition with_rule :: "string \<Rightarrow> ('r \<Rightarrow> update_error + 'r) \<Rightarrow> (string \<times> 'r) list \<Rightarrow> update_error + (string \<times> 'r) list" where
  "with_rule alias f m =
     (case map_of m alias of
        None \<Rightarrow> Inl (Rule_not_found alias)
      | Some r \<Rightarrow> bindE (f r) (\<lambda>r. Inr (insert_or_assign alias r m)))"

definition delete_rule :: "string \<Rightarrow> (string \<times> 'r) list \<Rightarrow> update_error + (string \<times> 'r) list" where
  "delete_rule alias m = (if alias \<in> fst ` set m then Inr (filter (\<lambda>(k, _). k \<noteq> alias) m) else Inl (Rule_not_found alias))"


section \<open>Rules of a message\<close>

datatype EditAction = ADD | DELETE | REPLACE

definition read_alias :: "string option \<Rightarrow> (string \<Rightarrow> update_error + 'a) \<Rightarrow> update_error + 'a" where
  "read_alias alias f = non_null ''alias'' alias (\<lambda>a. verify (length a < 100) (Alias_too_big a) (f a))"

definition read_flags :: "nat \<Rightarrow> u8 list option \<Rightarrow> (BitSet \<Rightarrow> update_error + 'a) \<Rightarrow> update_error + 'a" where
  "read_flags max_bit flags f = non_null ''flags'' flags (\<lambda>v. read_bitset max_bit ''flags'' v f)"

definition net_action :: "BitSet \<Rightarrow> update_error + EditAction" where
  "net_action flags =
     (if bs_test flags (NetRuleOpt_bit NET_REPLACE) then
        verify (\<not> bs_test flags (NetRuleOpt_bit NET_DELETE)) Replace_and_delete (Inr REPLACE)
      else if bs_test flags (NetRuleOpt_bit NET_DELETE) then Inr DELETE else Inr ADD)"

definition icmp_action :: "BitSet \<Rightarrow> update_error + EditAction" where
  "icmp_action flags =
     (if bs_test flags (IcmpRuleOpt_bit ICMP_REPLACE) then
        verify (\<not> bs_test flags (IcmpRuleOpt_bit ICMP_DELETE)) Replace_and_delete (Inr REPLACE)
      else if bs_test flags (IcmpRuleOpt_bit ICMP_DELETE) then Inr DELETE else Inr ADD)"

definition non_empty :: "'a list option \<Rightarrow> bool" where
  "non_empty v = (case v of None \<Rightarrow> False | Some xs \<Rightarrow> xs \<noteq> [])"

definition net_has_matchers :: "msg_NetRule \<Rightarrow> bool" where
  "net_has_matchers r \<longleftrightarrow> non_empty (mr_net4s r) \<or> non_empty (mr_net6s r) \<or> non_empty (mr_nets r) \<or> non_empty (mr_ports r)"

definition icmp_has_matchers :: "msg_IcmpRule \<Rightarrow> bool" where
  "icmp_has_matchers r \<longleftrightarrow> non_empty (mi_types r)"

definition get_ratelimit_idx :: "Ratelimits \<Rightarrow> string option \<Rightarrow> update_error + u8 option" where
  "get_ratelimit_idx rls ratelimit =
     (case ratelimit of
        None \<Rightarrow> Inr None
      | Some name \<Rightarrow> verify (name \<noteq> []) (Empty_field ''ratelimit'')
          (bindE (rate_result (get_active_index rls name)) (\<lambda>i. Inr (Some i))))"



section \<open>Addresses and ports\<close>

text \<open>The three kinds of network keys; the address has been checked to be there.\<close>

definition get_net4key_prot_net :: "msg_Net \<Rightarrow> u8 list \<Rightarrow> update_error + Net4Key" where
  "get_net4key_prot_net data addr =
     verify (mn_port data = 0) Port_prohibited (Inr \<lparr>n4_prefixlen = ucast (mn_prefix data), n4_addr = cast32 addr\<rparr>)"

definition get_net4key_src :: "msg_Net \<Rightarrow> u8 list \<Rightarrow> NetFlags \<Rightarrow> update_error + Net4Key" where
  "get_net4key_src data addr flags =
     verify (\<not> isAllowed flags \<or> mn_port data = 0) Port_prohibited
     (verify (True \<noteq> (mn_port data \<noteq> 0)) Port_prohibited
     (Inr \<lparr>n4_prefixlen = ucast (mn_prefix data), n4_addr = cast32 addr\<rparr>))"

definition get_net4key_dst :: "msg_Net \<Rightarrow> u8 list \<Rightarrow> update_error + Net4Key" where
  "get_net4key_dst data addr =
     verify (mn_port data \<noteq> 0) Port_required
     (verify (\<not> list_all (\<lambda>c. c = 0) addr) Zero_address
     (Inr \<lparr>n4_prefixlen = bswap16 (mn_port data), n4_addr = cast32 addr\<rparr>))"

definition get_net4key :: "msg_Net option \<Rightarrow> NetFlags \<Rightarrow> update_error + Net4Key" where
  "get_net4key data flags =
     non_null ''Net4'' data (\<lambda>data. non_null ''Net4::addr'' (mn_addr data) (\<lambda>addr.
     verify (length addr = 4) Address_size
     (if isProcNet flags then get_net4key_prot_net data addr
      else if isSrc flags then get_net4key_src data addr flags
      else get_net4key_dst data addr)))"

definition get_net6key_prot_net :: "msg_Net \<Rightarrow> u8 list \<Rightarrow> update_error + Net6Key" where
  "get_net6key_prot_net data addr =
     verify (mn_port data = 0) Port_prohibited (Inr \<lparr>n6_prefixlen = ucast (mn_prefix data), n6_addr = cast128 addr\<rparr>)"

definition get_net6key_src :: "msg_Net \<Rightarrow> u8 list \<Rightarrow> NetFlags \<Rightarrow> update_error + Net6Key" where
  "get_net6key_src data addr flags =
     verify (\<not> isAllowed flags \<or> mn_port data = 0) Port_prohibited
     (verify (True \<noteq> (mn_port data \<noteq> 0)) Port_prohibited
     (Inr \<lparr>n6_prefixlen = ucast (mn_prefix data), n6_addr = cast128 addr\<rparr>))"

definition get_net6key_dst :: "msg_Net \<Rightarrow> u8 list \<Rightarrow> update_error + Net6Key" where
  "get_net6key_dst data addr =
     verify (mn_port data \<noteq> 0) Port_required
     (verify (\<not> list_all (\<lambda>c. c = 0) addr) Zero_address
     (Inr \<lparr>n6_prefixlen = bswap16 (mn_port data), n6_addr = cast128 addr\<rparr>))"

definition get_net6key :: "msg_Net option \<Rightarrow> NetFlags \<Rightarrow> update_error + Net6Key" where
  "get_net6key data flags =
     non_null ''Net6'' data (\<lambda>data. non_null ''Net6::addr'' (mn_addr data) (\<lambda>addr.
     verify (length addr = 16) Address_size
     (if isProcNet flags then get_net6key_prot_net data addr
      else if isSrc flags then get_net6key_src data addr flags
      else get_net6key_dst data addr)))"

text \<open>\<open>std::iota\<close> from \<open>port\<close> over \<open>port_end - port + 1\<close> elements.\<close>

definition ports_from_range :: "u16 \<Rightarrow> u16 \<Rightarrow> update_error + u16 list" where
  "ports_from_range port port_end =
     (if port_end = 0 then Inr [port]
      else if port_end \<le> port then Inl (Bad_port_range port port_end)
      else Inr (map (\<lambda>i. port + word_of_nat i) [0..<unat (port_end - port) + 1]))"


section \<open>Matchers and attributes of network rules\<close>

definition add_net6 :: "msg_Net option \<Rightarrow> NetIp \<Rightarrow> update_error + NetIp" where
  "add_net6 data to = bindE (get_net6key data (ni_flags to)) (\<lambda>key.
     bindE (set_insert net6_order key (ni_net6s to)) (\<lambda>ks. Inr (to\<lparr>ni_net6s := ks\<rparr>)))"

definition add_net4 :: "msg_Net option \<Rightarrow> NetIp \<Rightarrow> update_error + NetIp" where
  "add_net4 data to = bindE (get_net4key data (ni_flags to)) (\<lambda>key.
     bindE (set_insert net4_order key (ni_net4s to)) (\<lambda>ks. Inr (to\<lparr>ni_net4s := ks\<rparr>)))"

definition add_port :: "u16 \<Rightarrow> NetIp \<Rightarrow> update_error + NetIp" where
  "add_port p to = bindE (vector_add (bswap16 p) (ni_ports to)) (\<lambda>ps. Inr (to\<lparr>ni_ports := ps\<rparr>))"

definition add_port_pair :: "msg_PortPair \<Rightarrow> NetIp \<Rightarrow> update_error + NetIp" where
  "add_port_pair pp to = bindE (ports_from_range (mp_port pp) (mp_port_end pp)) (\<lambda>ports. foldE add_port ports to)"

definition add_geo :: "Country2IpMap \<Rightarrow> msg_NetCode option \<Rightarrow> NetIp \<Rightarrow> update_error + NetIp" where
  "add_geo geodb data to =
     non_null ''Nets'' data (\<lambda>data. verify (mc_port data = 0) Port_prohibited
     (case load_geo_entry geodb \<lparr>geo_code = mc_code data, geo_net4s = [], geo_net6s = []\<rparr>
             (\<not> isIpv6 (ni_flags to)) (isIpv6 (ni_flags to)) of
        Inl e \<Rightarrow> Inl (Geo_error e)
      | Inr geo \<Rightarrow> Inr (to\<lparr>ni_nets := ni_nets to @ [geo]\<rparr>)))"

definition net_add_matchers :: "Country2IpMap \<Rightarrow> msg_NetRule \<Rightarrow> NetIp \<Rightarrow> update_error + NetIp" where
  "net_add_matchers geodb proto to =
     bindE (for_all (mr_net6s proto) add_net6 to) (\<lambda>to.
     bindE (for_all (mr_net4s proto) add_net4 to) (\<lambda>to.
     bindE (verify (mr_ports proto \<noteq> None \<longrightarrow> isSrc (ni_flags to)) Port_outside_src (for_all (mr_ports proto) add_port_pair to)) (\<lambda>to.
     verify (mr_nets proto \<noteq> None \<longrightarrow> isSrc (ni_flags to)) Geo_outside_src (for_all (mr_nets proto) (add_geo geodb) to))))"

definition delete_net6 :: "msg_Net option \<Rightarrow> NetIp \<Rightarrow> update_error + NetIp" where
  "delete_net6 data from = bindE (get_net6key data (ni_flags from)) (\<lambda>key.
     bindE (set_erase key (ni_net6s from)) (\<lambda>ks. Inr (from\<lparr>ni_net6s := ks\<rparr>)))"

definition delete_net4 :: "msg_Net option \<Rightarrow> NetIp \<Rightarrow> update_error + NetIp" where
  "delete_net4 data from = bindE (get_net4key data (ni_flags from)) (\<lambda>key.
     bindE (set_erase key (ni_net4s from)) (\<lambda>ks. Inr (from\<lparr>ni_net4s := ks\<rparr>)))"

definition delete_port :: "u16 \<Rightarrow> NetIp \<Rightarrow> update_error + NetIp" where
  "delete_port p from = bindE (set_erase (bswap16 p) (ni_ports from)) (\<lambda>ps. Inr (from\<lparr>ni_ports := ps\<rparr>))"

definition delete_port_pair :: "msg_PortPair \<Rightarrow> NetIp \<Rightarrow> update_error + NetIp" where
  "delete_port_pair pp from = bindE (ports_from_range (mp_port pp) (mp_port_end pp)) (\<lambda>ports. foldE delete_port ports from)"

definition delete_geo :: "msg_NetCode option \<Rightarrow> NetIp \<Rightarrow> update_error + NetIp" where
  "delete_geo data from =
     non_null ''Nets'' data (\<lambda>data.
     verify (\<exists>r \<in> set (ni_nets from). geo_code r = mc_code data) Matcher_not_found
     (Inr (from\<lparr>ni_nets := filter (\<lambda>r. geo_code r \<noteq> mc_code data) (ni_nets from)\<rparr>)))"

definition net_delete_matchers :: "msg_NetRule \<Rightarrow> NetIp \<Rightarrow> update_error + NetIp" where
  "net_delete_matchers proto from =
     bindE (for_all (mr_net6s proto) delete_net6 from) (\<lambda>from.
     bindE (for_all (mr_net4s proto) delete_net4 from) (\<lambda>from.
     bindE (verify (mr_ports proto \<noteq> None \<longrightarrow> isSrc (ni_flags from)) Port_outside_src (for_all (mr_ports proto) delete_port_pair from)) (\<lambda>from.
     verify (mr_nets proto \<noteq> None \<longrightarrow> isSrc (ni_flags from)) Geo_outside_src (for_all (mr_nets proto) delete_geo from))))"

definition net_set_attributes :: "Ratelimits \<Rightarrow> msg_NetRule \<Rightarrow> BitSet \<Rightarrow> NetIp \<Rightarrow> update_error + NetIp" where
  "net_set_attributes rls proto flags rule =
     bindE (get_ratelimit_idx rls (mr_ratelimit proto)) (\<lambda>idx.
     Inr (rule\<lparr>ni_ratelimit_index := idx, ni_flags := \<lparr>
       isProcNet = bs_test flags (NetRuleOpt_bit NET_PROTECTED_NET), isSrc = bs_test flags (NetRuleOpt_bit NET_SRC),
       isAllowed = bs_test flags (NetRuleOpt_bit NET_ALLOW), isTcp = bs_test flags (NetRuleOpt_bit NET_TCP),
       isIpv6 = bs_test flags (NetRuleOpt_bit NET_IPV6)\<rparr>\<rparr>))"

definition NetIp_new :: NetIp where
  "NetIp_new = \<lparr>ni_ratelimit_index = None,
     ni_flags = \<lparr>isProcNet = False, isSrc = False, isAllowed = False, isTcp = False, isIpv6 = False\<rparr>,
     ni_net4s = [], ni_net6s = [], ni_nets = [], ni_ports = []\<rparr>"


section \<open>Matchers and attributes of ICMP rules\<close>

definition add_type :: "u8 \<Rightarrow> IcmpRule \<Rightarrow> update_error + IcmpRule" where
  "add_type type out = bindE (vector_add type (ic_types out)) (\<lambda>ts. Inr (out\<lparr>ic_types := ts\<rparr>))"

definition icmp_add_matchers :: "msg_IcmpRule \<Rightarrow> IcmpRule \<Rightarrow> update_error + IcmpRule" where
  "icmp_add_matchers proto out = for_all (mi_types proto) add_type out"

definition delete_type :: "u8 \<Rightarrow> IcmpRule \<Rightarrow> update_error + IcmpRule" where
  "delete_type type from = bindE (set_erase type (ic_types from)) (\<lambda>ts. Inr (from\<lparr>ic_types := ts\<rparr>))"

definition icmp_delete_matchers :: "msg_IcmpRule \<Rightarrow> IcmpRule \<Rightarrow> update_error + IcmpRule" where
  "icmp_delete_matchers proto from = for_all (mi_types proto) delete_type from"

definition icmp_set_attributes :: "Ratelimits \<Rightarrow> msg_IcmpRule \<Rightarrow> BitSet \<Rightarrow> IcmpRule \<Rightarrow> update_error + IcmpRule" where
  "icmp_set_attributes rls proto flags rule =
     bindE (get_ratelimit_idx rls (mi_ratelimit proto)) (\<lambda>idx.
     Inr (rule\<lparr>ic_ratelimit_index := idx, ic_isAllowed := bs_test flags (IcmpRuleOpt_bit ICMP_ALLOW),
       ic_isIpv6 := bs_test flags (IcmpRuleOpt_bit ICMP_IPV6)\<rparr>))"

definition IcmpRule_new :: IcmpRule where
  "IcmpRule_new = \<lparr>ic_isAllowed = False, ic_isIpv6 = False, ic_ratelimit_index = None, ic_types = []\<rparr>"


section \<open>Edits\<close>

text \<open>
  The template over the kind of rule: its action, alias and matchers, and the three
  specialisations for the kind. \<open>fresh\<close> is the value-initialised rule.
\<close>

definition apply_edit_action ::
    "update_error + EditAction \<Rightarrow> string \<Rightarrow> bool \<Rightarrow> ('r \<Rightarrow> update_error + 'r) \<Rightarrow> ('r \<Rightarrow> update_error + 'r) \<Rightarrow> ('r \<Rightarrow> update_error + 'r)
      \<Rightarrow> 'r \<Rightarrow> (string \<times> 'r) list \<Rightarrow> update_error + (string \<times> 'r) list" where
  "apply_edit_action act alias has_matchers set_attributes add_matchers delete_matchers fresh m =
     bindE act (\<lambda>edit.
     case edit of
       REPLACE \<Rightarrow>
         if has_matchers then
           bindE (set_attributes fresh) (\<lambda>net. bindE (add_matchers net) (\<lambda>net. Inr (insert_or_assign alias net m)))
         else with_rule alias set_attributes m
     | DELETE \<Rightarrow>
         if has_matchers then with_rule alias delete_matchers m
         else delete_rule alias m
     | ADD \<Rightarrow> with_rule alias add_matchers m)"

definition edit_net_rules ::
    "Country2IpMap \<Rightarrow> Ratelimits \<Rightarrow> msg_NetRule \<Rightarrow> string \<Rightarrow> BitSet \<Rightarrow> NetIps \<Rightarrow> update_error + NetIps" where
  "edit_net_rules geodb rls r alias flags =
     apply_edit_action (net_action flags) alias (net_has_matchers r) (net_set_attributes rls r flags)
       (net_add_matchers geodb r) (net_delete_matchers r) NetIp_new"

definition edit_icmp_rules :: "Ratelimits \<Rightarrow> msg_IcmpRule \<Rightarrow> string \<Rightarrow> BitSet \<Rightarrow> IcmpRules \<Rightarrow> update_error + IcmpRules" where
  "edit_icmp_rules rls r alias flags =
     apply_edit_action (icmp_action flags) alias (icmp_has_matchers r) (icmp_set_attributes rls r flags)
       (icmp_add_matchers r) (icmp_delete_matchers r) IcmpRule_new"



section \<open>Preparing the new configuration\<close>

definition opt :: "BitSet \<Rightarrow> XFWOpt \<Rightarrow> bool" where
  "opt flags o' = bs_test flags (XFWOpt_bit o')"

text \<open>The copy the updater starts from (the constructor of \<open>XfwConfigUpdater\<close>).\<close>

definition start_config :: "BitSet \<Rightarrow> XfwConfig option \<Rightarrow> XfwConfig" where
  "start_config flags stored =
     (case stored of
        None \<Rightarrow> XfwConfig_new
      | Some config \<Rightarrow> if opt flags XFW_CONFIG_PATCH then config
                       else XfwConfig_new\<lparr>c_ratelimits := inactivate_all (c_ratelimits config)\<rparr>)"

definition prepare_protocols :: "XFWCfg \<Rightarrow> BitSet \<Rightarrow> XfwConfig \<Rightarrow> update_error + XfwConfig" where
  "prepare_protocols msg flags c =
     (if opt flags IP_PROTO_FILTER_OFF then Inr (c\<lparr>c_ip_proto_filter := None\<rparr>)
      else case x_ip_proto msg of
             None \<Rightarrow> Inr c
           | Some p \<Rightarrow> non_null ''Protocols'' (mp_protocols p) (\<lambda>v.
               read_bitset XFW_SUPPORTED_PROTOCOL_MAX ''IpProto::Protocols'' v (\<lambda>bs. Inr (c\<lparr>c_ip_proto_filter := Some bs\<rparr>))))"

definition prepare_ratelimit :: "msg_Ratelimit option \<Rightarrow> Ratelimits \<Rightarrow> update_error + Ratelimits" where
  "prepare_ratelimit rule t =
     non_null ''Ratelimit'' rule (\<lambda>rule. non_null ''Ratelimit::alias'' (ml_alias rule) (\<lambda>alias.
     verify (alias \<noteq> []) (Empty_field ''Ratelimit::alias'') (non_null ''Ratelimit::flags'' (ml_flags rule) (\<lambda>v.
     read_bitset RatelimitOpt_DELETE ''RatelimitOpt'' v (\<lambda>flags.
     rate_result (if bs_test flags RatelimitOpt_DELETE then inactivate alias t else upsert alias (ml_pps rule) (ml_bps rule) t))))))"

definition prepare_ratelimits :: "XFWCfg \<Rightarrow> XfwConfig \<Rightarrow> update_error + XfwConfig" where
  "prepare_ratelimits msg c = bindE (for_all (x_ratelimits msg) prepare_ratelimit (c_ratelimits c)) (\<lambda>t. Inr (c\<lparr>c_ratelimits := t\<rparr>))"

definition prepare_default :: "Ratelimits \<Rightarrow> msg_DefaultAction option \<Rightarrow> Defaults \<Rightarrow> update_error + Defaults" where
  "prepare_default rls rule d =
     non_null ''DefaultAction'' rule (\<lambda>rule. non_null ''DefaultAction::flags'' (md_flags rule) (\<lambda>v.
     bindE (get_ratelimit_idx rls (md_ratelimit rule)) (\<lambda>idx.
     read_bitset (length default_indices) ''DefaultAction::flags'' v (\<lambda>flags.
     foldE (\<lambda>(i, index) d.
         if \<not> bs_test flags i then Inr d
         else verify (d index = None) Two_identical_defaults (Inr (d(index := Some \<lparr>act_allow = md_allow rule, act_ratelimit_index = idx\<rparr>))))
       (enumerate 0 default_indices) d))))"

definition prepare_defaults :: "XFWCfg \<Rightarrow> XfwConfig \<Rightarrow> update_error + XfwConfig" where
  "prepare_defaults msg c =
     (case x_defaults msg of
        None \<Rightarrow> Inr c
      | Some ds \<Rightarrow> bindE (foldE (prepare_default (c_ratelimits c)) ds (\<lambda>_. None)) (\<lambda>d. Inr (c\<lparr>c_defaults := d\<rparr>)))"

definition prepare_net_rule :: "Country2IpMap \<Rightarrow> msg_NetRule option \<Rightarrow> XfwConfig \<Rightarrow> update_error + XfwConfig" where
  "prepare_net_rule geodb rule c =
     non_null ''NetRule'' rule (\<lambda>r. read_alias (mr_alias r) (\<lambda>alias. read_flags NetRuleOpt_MAX (mr_flags r) (\<lambda>flags.
     let edit = edit_net_rules geodb (c_ratelimits c) r alias flags in
     if bs_test flags (NetRuleOpt_bit NET_SRC) then bindE (edit (c_src_rules c)) (\<lambda>m. Inr (c\<lparr>c_src_rules := m\<rparr>))
     else if bs_test flags (NetRuleOpt_bit NET_PROTECTED_NET) then bindE (edit (c_prot_net c)) (\<lambda>m. Inr (c\<lparr>c_prot_net := m\<rparr>))
     else bindE (edit (c_dst_rules c)) (\<lambda>m. Inr (c\<lparr>c_dst_rules := m\<rparr>)))))"

definition prepare_net_rules :: "Country2IpMap \<Rightarrow> XFWCfg \<Rightarrow> XfwConfig \<Rightarrow> update_error + XfwConfig" where
  "prepare_net_rules geodb msg = for_all (x_net_rules msg) (prepare_net_rule geodb)"

definition bad_flags_of :: "msg_TcpAnomaly \<Rightarrow> BitSet \<Rightarrow> update_error + BitSet" where
  "bad_flags_of a features =
     (if bs_test features XFW_BAD_FLAGS then
        (case ma_bad_tcp_flags a of
           None \<Rightarrow> Inr (bs_or xfw_prohibited_rules xfw_suspicious_rules)
         | Some v \<Rightarrow> read_bitset XFW_BIT_CONTROL_MAX ''TcpAnomaly::bad_flags'' v (\<lambda>user. Inr (bs_or xfw_prohibited_rules user)))
      else Inr xfw_prohibited_rules)"

definition prepare_tcp_anomaly_filter :: "XFWCfg \<Rightarrow> BitSet \<Rightarrow> XfwConfig \<Rightarrow> update_error + XfwConfig" where
  "prepare_tcp_anomaly_filter msg flags c =
     (let f = c_anomaly_filter c in
      if opt flags TCP_ANOMALY_FILTER_OFF then Inr (c\<lparr>c_anomaly_filter := f\<lparr>an_enabled := False\<rparr>\<rparr>)
      else case x_tcp_anomaly msg of
             None \<Rightarrow> Inr c
           | Some a \<Rightarrow> non_null ''Features'' (ma_features a) (\<lambda>v. read_bitset XFW_TCP_ANOMALY_FEATURE_MAX ''TcpAnomaly::Features'' v (\<lambda>features.
               let f = (if bs_test features XFW_SYN_WIHOUT_OPTIONS then f\<lparr>an_syn_without_opt := True\<rparr> else f);
                   f = (if bs_test features XFW_SYN_WITH_PAYLOAD then f\<lparr>an_syn_with_payload := True\<rparr> else f);
                   f = (if bs_test features XFW_SYN_WITH_SEQ_NO then f\<lparr>an_syn_with_seqno := Some (bswap32 (ma_seqno_value a))\<rparr> else f)
               in bindE (bad_flags_of a features) (\<lambda>bad. Inr (c\<lparr>c_anomaly_filter := f\<lparr>an_bad_flags := bad, an_enabled := True\<rparr>\<rparr>)))))"

definition prepare_tcp_auth_filter :: "BitSet \<Rightarrow> XfwConfig \<Rightarrow> XfwConfig" where
  "prepare_tcp_auth_filter flags c =
     (if opt flags TCP_AUTH_FILTER_OFF then c\<lparr>c_auth_filter := False\<rparr>
      else if opt flags TCP_AUTH_FILTER_ON then c\<lparr>c_auth_filter := True\<rparr> else c)"

definition prepare_dns_filter :: "BitSet \<Rightarrow> XfwConfig \<Rightarrow> XfwConfig" where
  "prepare_dns_filter flags c =
     (if opt flags DNS_FILTER_OFF then c\<lparr>c_dns_filter := False\<rparr>
      else if opt flags DNS_FILTER_ON then c\<lparr>c_dns_filter := True\<rparr> else c)"

definition prepare_evaluation_mode :: "BitSet \<Rightarrow> XfwConfig \<Rightarrow> XfwConfig" where
  "prepare_evaluation_mode flags c =
     (if opt flags EVALUATION_MODE_OFF then c\<lparr>c_evaluation_mode := False\<rparr>
      else if opt flags EVALUATION_MODE_ON then c\<lparr>c_evaluation_mode := True\<rparr> else c)"

definition prepare_syncookie_filter :: "XFWCfg \<Rightarrow> BitSet \<Rightarrow> XfwConfig \<Rightarrow> XfwConfig" where
  "prepare_syncookie_filter msg flags c =
     (case x_syncookie msg of
        None \<Rightarrow> c
      | Some m \<Rightarrow>
          if opt flags TCP_SYNCOOKIE_FILTER_OFF then c\<lparr>c_syncookie_filter := None\<rparr>
          else c\<lparr>c_syncookie_filter := Some \<lparr>passive_timer = ucast (ms_passive_timer m), flood_timer = ucast (ms_flood_timer m)\<rparr>\<rparr>)"

definition prepare_tcp_flag :: "msg_TcpFlagsFilter option \<Rightarrow> XfwConfig \<Rightarrow> update_error + XfwConfig" where
  "prepare_tcp_flag rule c =
     non_null ''TcpFlagsFilter'' rule (\<lambda>rule. non_null ''TcpFlagsFilter::ratelimit'' (mt_ratelimit rule) (\<lambda>name.
     verify (name \<noteq> []) (Empty_field ''TcpFlagsFilter::ratelimit'')
     (bindE (rate_result (get_active_index (c_ratelimits c) name)) (\<lambda>idx.
     case mt_flag rule of
       TCP_FLAG_ALL \<Rightarrow> Inr (c\<lparr>c_tcp_syn_flag_filter := Some idx, c_tcp_rst_flag_filter := Some idx\<rparr>)
     | TCP_FLAG_SYN \<Rightarrow> Inr (c\<lparr>c_tcp_syn_flag_filter := Some idx\<rparr>)
     | TCP_FLAG_RST \<Rightarrow> Inr (c\<lparr>c_tcp_rst_flag_filter := Some idx\<rparr>)
     | TCP_FLAG_OTHER t \<Rightarrow> Inl (Unknown_tcp_flag t)))))"

definition prepare_tcp_flags_filter :: "XFWCfg \<Rightarrow> BitSet \<Rightarrow> XfwConfig \<Rightarrow> update_error + XfwConfig" where
  "prepare_tcp_flags_filter msg flags c =
     (let c = (if opt flags TCP_SYN_FLAGS_FILTER_OFF then c\<lparr>c_tcp_syn_flag_filter := None\<rparr> else c);
          c = (if opt flags TCP_RST_FLAGS_FILTER_OFF then c\<lparr>c_tcp_rst_flag_filter := None\<rparr> else c)
      in for_all (x_tcp_flags msg) prepare_tcp_flag c)"

definition prepare_icmp_rule :: "msg_IcmpRule option \<Rightarrow> XfwConfig \<Rightarrow> update_error + XfwConfig" where
  "prepare_icmp_rule rule c =
     non_null ''IcmpRule'' rule (\<lambda>r. read_alias (mi_alias r) (\<lambda>alias. read_flags IcmpRuleOpt_MAX (mi_flags r) (\<lambda>flags.
     bindE (edit_icmp_rules (c_ratelimits c) r alias flags (c_icmp_rules c)) (\<lambda>m. Inr (c\<lparr>c_icmp_rules := m\<rparr>)))))"

definition prepare_icmp_rules :: "XFWCfg \<Rightarrow> XfwConfig \<Rightarrow> update_error + XfwConfig" where
  "prepare_icmp_rules msg = for_all (x_icmp_rules msg) prepare_icmp_rule"

definition prepare_update :: "Country2IpMap \<Rightarrow> XFWCfg \<Rightarrow> BitSet \<Rightarrow> XfwConfig \<Rightarrow> update_error + XfwConfig" where
  "prepare_update geodb msg flags c =
     bindE (prepare_protocols msg flags c) (\<lambda>c.
     bindE (prepare_ratelimits msg c) (\<lambda>c.
     bindE (prepare_defaults msg c) (\<lambda>c.
     bindE (prepare_net_rules geodb msg c) (\<lambda>c.
     bindE (prepare_tcp_anomaly_filter msg flags c) (\<lambda>c.
     let c = prepare_dns_filter flags (prepare_tcp_auth_filter flags c);
         c = prepare_syncookie_filter msg flags (prepare_evaluation_mode flags c)
     in verify (\<not> c_evaluation_mode c \<or> c_syncookie_filter c = None) Syncookies_in_evaluation
     (bindE (prepare_tcp_flags_filter msg flags c) (prepare_icmp_rules msg)))))))"

definition new_config :: "Country2IpMap \<Rightarrow> XFWCfg \<Rightarrow> XfwConfig option \<Rightarrow> update_error + XfwConfig" where
  "new_config geodb msg stored =
     non_null ''XFWCfg::flags'' (x_flags msg) (\<lambda>v. read_bitset XFWOpt_MAX ''XFWCfg::flags'' v (\<lambda>flags.
     prepare_update geodb msg flags (start_config flags stored)))"

text \<open>
  The database and the host are those of the manager at the time of the call; \<open>None\<close> is a
  call of the kernel that does not return.
\<close>

definition update_xfw_config :: "host \<Rightarrow> Country2IpMap \<Rightarrow> XFWCfg \<Rightarrow> Xfw \<Rightarrow> ((update_error + unit) \<times> Xfw) option" where
  "update_xfw_config h geodb msg x =
     (case new_config geodb msg (xfw_config x) of
        Inl e \<Rightarrow> Some (Inl e, x)
      | Inr c \<Rightarrow>
          (case set_config h c x of
             None \<Rightarrow> None
           | Some (Inl e, x) \<Rightarrow> Some (Inl (Apply_error e), x)
           | Some (Inr _, x) \<Rightarrow> Some (Inr (), x)))"

end
