(* ===== verification/Spec2Isabelle.thy ===== *)
theory Spec2Isabelle
  imports EndToEnd Xxh64 ConfigUpdater
begin

text \<open>
  A verification library for the eBPF datapath of Tempesta xFW.
\<close>

end
